(* ===== verification/Prelude.thy ===== *)
theory Prelude
  imports Main "HOL-Library.Word" "HOL-Library.AList" "HOL-Library.Multiset" "HOL-Library.Sublist"
begin

text \<open>
  What the components share: the Go notions the sources are written in (byte strings, maps
  with an unspecified iteration order, results with an error, times and durations in
  nanoseconds), and the lemmas on lists, association lists and words that more than one
  component needs.

  Conventions. A Go string is a byte string, here a \<^typ>\<open>string\<close>. A Go map is an association
  list with distinct keys; \<open>range\<close> over it visits the entries in an order the language leaves
  open, so every definition that ranges over a map takes the order as an argument. An
  instant is an \<^typ>\<open>int\<close>, nanoseconds since the Unix epoch; a duration is the difference of two.
\<close>

unbundle bit_operations_syntax

section \<open>Results\<close>

type_synonym ('e, 'a) result = "'e + 'a"

definition is_ok :: "('e, 'a) result \<Rightarrow> bool" where
  "is_ok r = (case r of Inl _ \<Rightarrow> False | Inr _ \<Rightarrow> True)"

lemma is_ok_simps [simp]:
  "\<not> is_ok (Inl e)"
  "is_ok (Inr a)"
  by (simp_all add: is_ok_def)

section \<open>Time\<close>

type_synonym time = int
type_synonym duration = int

definition second :: duration where
  "second = 1000000000"

definition hour :: duration where
  "hour = 3600 * second"

text \<open>The zero \<open>time.Time\<close> is the first instant of the year 1.\<close>

definition zero_time :: time where
  "zero_time = - 62135596800 * second"

lemma second_pos [simp]: "0 < second"
  by (simp add: second_def)

lemma hour_pos [simp]: "0 < hour"
  by (simp add: hour_def)

section \<open>Arithmetic\<close>

lemma le_div_iff_mult_le:
  fixes n r x :: int
  assumes "0 < r"
  shows "n \<le> x div r \<longleftrightarrow> n * r \<le> x"
proof
  assume "n \<le> x div r"
  then have "n * r \<le> (x div r) * r" using assms by (simp add: mult_right_mono)
  also have "\<dots> \<le> x" using assms by (simp add: minus_mod_eq_div_mult [symmetric])
  finally show "n * r \<le> x" .
next
  assume "n * r \<le> x"
  then have "(n * r) div r \<le> x div r" using assms by (rule zdiv_mono1)
  then show "n \<le> x div r" using assms by simp
qed

section \<open>Maps and the order of \<open>range\<close>\<close>

type_synonym ('k, 'v) gomap = "('k \<times> 'v) list"
type_synonym ('k, 'v) range_order = "('k, 'v) gomap \<Rightarrow> ('k \<times> 'v) list"

text \<open>
  The entries of a map in the order one \<open>range\<close> loop visits them. The order is the oracle's
  when the oracle returns a permutation of the entries, and the stored order otherwise, so
  that every oracle stands for one of the orders the language allows.
\<close>

definition range_over :: "('k, 'v) range_order \<Rightarrow> ('k, 'v) gomap \<Rightarrow> ('k \<times> 'v) list" where
  "range_over ord m = (if mset (ord m) = mset m then ord m else m)"

lemma mset_range_over [simp]: "mset (range_over ord m) = mset m"
  by (simp add: range_over_def)

lemma set_range_over [simp]: "set (range_over ord m) = set m"
  by (metis mset_range_over set_mset_mset)

lemma length_range_over [simp]: "length (range_over ord m) = length m"
  by (metis mset_range_over size_mset)

lemma range_over_eq_Nil [simp]: "range_over ord m = [] \<longleftrightarrow> m = []"
  by (metis length_0_conv length_range_over)

lemma range_over_empty [simp]: "range_over ord [] = []"
  by (metis length_0_conv length_range_over list.size(3))

lemma distinct_fst_filter: "distinct (map fst m) \<Longrightarrow> distinct (map fst (filter P m))"
  by (induction m) auto

lemma length_delete_less:
  assumes "k \<in> fst ` set m"
  shows "length (AList.delete k m) < length m"
proof -
  from assms obtain v where "(k, v) \<in> set m" by auto
  then show ?thesis unfolding AList.delete_eq by (rule length_filter_less) simp
qed

lemma length_update_le: "length (AList.update k v m) \<le> Suc (length m)"
  by (induction m) auto

lemma length_update_mem:
  "k \<in> fst ` set m \<Longrightarrow> length (AList.update k v m) = length m"
  by (induction m) auto

lemma set_delete: "set (AList.delete k m) = {x \<in> set m. fst x \<noteq> k}"
  by (auto simp: AList.delete_eq)

lemma distinct_subseq:
  assumes "subseq xs ys" "distinct ys"
  shows "distinct xs"
  using assms by (induction rule: list_emb.induct) (auto elim: list_emb_set)

end
