(* ===== verification/Bounded_Store.thy ===== *)
theory Bounded_Store
  imports Prelude
begin

text \<open>
  The contract of a map that is bounded by eviction, which the panel uses twice: the
  per-address buckets of the password rate limiter (\<open>internal/panel/ratelimit.go\<close>) and the
  browser sessions (\<open>internal/panel/session.go\<close>). Before a new key is stored the map makes
  room; making room only ever removes entries. The client of the contract is the code that
  admits a key; what it may conclude is proved here once and used by both components
  through their interpretations.
\<close>

definition store_wf :: "(string, 'v) gomap \<Rightarrow> bool" where
  "store_wf m \<longleftrightarrow> distinct (map fst m) \<and> '''' \<notin> fst ` set m"

definition admit :: "(string, 'v) gomap \<Rightarrow> string \<Rightarrow> 'v \<Rightarrow> (string, 'v) gomap" where
  "admit m k v = AList.update k v m"

lemma store_wf_update:
  "store_wf m \<Longrightarrow> k \<noteq> '''' \<Longrightarrow> store_wf (AList.update k v m)"
  by (auto simp: store_wf_def AList.distinct_update AList.dom_update AList.update_conv' dom_map_of_conv_image_fst
      simp flip: dom_map_of_conv_image_fst)

lemma store_wf_filter: "store_wf m \<Longrightarrow> store_wf (filter P m)"
  by (auto simp: store_wf_def distinct_fst_filter)

lemma store_wf_delete: "store_wf m \<Longrightarrow> store_wf (AList.delete k m)"
  by (simp add: AList.delete_eq store_wf_filter)

text \<open>
  Both evictions look for the entry with the smallest instant: a fold over the entries in the
  order visited, starting from the empty key, which stands for \<^emph>\<open>none yet\<close>.
\<close>

definition min_step :: "('v \<Rightarrow> time) \<Rightarrow> string \<times> 'v \<Rightarrow> string \<times> time \<Rightarrow> string \<times> time" where
  "min_step f = (\<lambda>(k, b) (mk, mt). if mk = '''' \<or> f b < mt then (k, f b) else (mk, mt))"

definition min_key :: "('v \<Rightarrow> time) \<Rightarrow> (string \<times> 'v) list \<Rightarrow> string" where
  "min_key f es = fst (fold (min_step f) es ('''', zero_time))"

lemma fold_min_mem:
  "fst (fold (min_step f) es a) \<in> insert (fst a) (fst ` set es)"
proof (induction es arbitrary: a)
  case (Cons e es)
  have "fst (min_step f e a) \<in> {fst e, fst a}"
    by (auto simp: min_step_def split: prod.splits)
  with Cons.IH [of "min_step f e a"] show ?case by auto
qed simp

lemma min_key_mem: "min_key f es \<noteq> '''' \<Longrightarrow> min_key f es \<in> fst ` set es"
  using fold_min_mem [of f es "('''', zero_time)"] by (simp add: min_key_def)

lemma fold_min:
  assumes "'''' \<notin> fst ` set es" "fst a \<noteq> ''''"
  shows "snd (fold (min_step f) es a) \<le> snd a"
    and "(k, b) \<in> set es \<Longrightarrow> snd (fold (min_step f) es a) \<le> f b"
    and "fold (min_step f) es a = a \<or>
         (\<exists>b. (fst (fold (min_step f) es a), b) \<in> set es \<and> snd (fold (min_step f) es a) = f b)"
proof -
  from assms have "snd (fold (min_step f) es a) \<le> snd a \<and>
      (\<forall>(k, b) \<in> set es. snd (fold (min_step f) es a) \<le> f b) \<and>
      (fold (min_step f) es a = a \<or>
       (\<exists>b. (fst (fold (min_step f) es a), b) \<in> set es \<and> snd (fold (min_step f) es a) = f b))"
  proof (induction es arbitrary: a)
    case (Cons e es)
    obtain k b where e: "e = (k, b)" by fastforce
    let ?a = "min_step f e a"
    have k: "k \<noteq> ''''" and es: "'''' \<notin> fst ` set es" using Cons.prems(1) e by auto
    have a: "?a = (if f b < snd a then (k, f b) else a)"
      using Cons.prems(2) e by (auto simp: min_step_def split: prod.splits)
    then have "fst ?a \<noteq> ''''" using k Cons.prems(2) by auto
    note IH = Cons.IH [OF es this]
    show ?case
    proof (cases "f b < snd a")
      case True
      then have "?a = (k, f b)" by (simp add: a)
      with IH e True show ?thesis by auto
    next
      case False
      then have "?a = a" by (simp add: a)
      with IH e False show ?thesis by auto
    qed
  qed simp
  then show "snd (fold (min_step f) es a) \<le> snd a"
    and "(k, b) \<in> set es \<Longrightarrow> snd (fold (min_step f) es a) \<le> f b"
    and "fold (min_step f) es a = a \<or>
         (\<exists>b. (fst (fold (min_step f) es a), b) \<in> set es \<and> snd (fold (min_step f) es a) = f b)"
    by auto
qed

lemma min_key_min:
  assumes "es \<noteq> []" "'''' \<notin> fst ` set es"
  obtains b where "(min_key f es, b) \<in> set es" "\<And>k' b'. (k', b') \<in> set es \<Longrightarrow> f b \<le> f b'"
proof -
  obtain k b es' where es: "es = (k, b) # es'" using assms(1) by (cases es) auto
  let ?a = "(k, f b)"
  have p: "min_key f es = fst (fold (min_step f) es' ?a)"
    by (simp add: min_key_def es min_step_def)
  have w: "'''' \<notin> fst ` set es'" "fst ?a \<noteq> ''''" using assms(2) es by auto
  have min: "snd (fold (min_step f) es' ?a) \<le> f b'" if "(k', b') \<in> set es" for k' b'
    using that fold_min(1,2) [OF w] es by auto
  from fold_min(3) [OF w] show thesis
  proof
    assume "fold (min_step f) es' ?a = ?a"
    with p have "min_key f es = k" by simp
    with min \<open>fold (min_step f) es' ?a = ?a\<close> show thesis by (intro that [of b]) (auto simp: es)
  next
    assume "\<exists>b. (fst (fold (min_step f) es' ?a), b) \<in> set es' \<and>
      snd (fold (min_step f) es' ?a) = f b"
    then obtain b'' where "(min_key f es, b'') \<in> set es'" "snd (fold (min_step f) es' ?a) = f b''"
      unfolding p by blast
    with min show thesis by (intro that [of b'']) (auto simp: es)
  qed
qed

locale evicting_store =
  fixes cap :: nat
    and make_room :: "'c \<Rightarrow> (string, 'v) gomap \<Rightarrow> (string, 'v) gomap"
  assumes make_room_subset: "set (make_room c m) \<subseteq> set m"
    and make_room_wf: "store_wf m \<Longrightarrow> store_wf (make_room c m)"
    and make_room_free: "store_wf m \<Longrightarrow> length m \<le> cap \<Longrightarrow> length (make_room c m) < cap"
begin

lemma admit_wf: "store_wf m \<Longrightarrow> k \<noteq> '''' \<Longrightarrow> store_wf (admit (make_room c m) k v)"
  by (simp add: admit_def make_room_wf store_wf_update)

lemma admit_bounded:
  assumes "store_wf m" "length m \<le> cap"
  shows "length (admit (make_room c m) k v) \<le> cap"
proof -
  have "length (AList.update k v (make_room c m)) \<le> Suc (length (make_room c m))"
    by (rule length_update_le)
  with make_room_free [OF assms, of c] show ?thesis by (simp add: admit_def)
qed

lemma admit_stored:
  "store_wf m \<Longrightarrow> map_of (admit (make_room c m) k v) k = Some v"
  by (simp add: admit_def AList.update_conv')

lemma admit_keeps_or_drops:
  assumes "store_wf m" "k' \<noteq> k"
  shows "map_of (admit (make_room c m) k v) k' \<in> {None, map_of m k'}"
proof (cases "map_of (make_room c m) k'")
  case None
  with assms show ?thesis by (simp add: admit_def AList.update_conv')
next
  case (Some w)
  then have "(k', w) \<in> set m" using make_room_subset map_of_SomeD by fastforce
  with assms Some show ?thesis by (simp add: admit_def AList.update_conv' store_wf_def)
qed

end

end
