(* ===== verification/RateLimit.thy ===== *)
theory RateLimit
  imports Bounded_Store
begin

text \<open>
  The password rate limiter of the panel, \<open>internal/panel/ratelimit.go\<close>: the token bucket,
  the pair of buckets consulted before a password is verified, the attempt given back by a
  correct password, and the eviction that bounds the per-address map.

  The lemmas show that a refusal's waiting time is exact, that what passes in any window is
  bounded by the burst and the refill whatever addresses a client picks, that the map stays
  within its bound and that eviction takes the least penalised entry.
\<close>

section \<open>Constants\<close>

definition attemptBurst :: int where "attemptBurst = 5"
definition attemptRefill :: duration where "attemptRefill = 60 * second"
definition globalBurst :: int where "globalBurst = 20"
definition globalRefill :: duration where "globalRefill = 15 * second"
definition maxLimiterKeys :: nat where "maxLimiterKeys = 4096"

lemmas limiter_consts = attemptBurst_def attemptRefill_def globalBurst_def globalRefill_def
  maxLimiterKeys_def second_def

section \<open>The bucket\<close>

record bucket =
  fullAt :: time

definition bucket_tokens :: "bucket \<Rightarrow> time \<Rightarrow> int \<Rightarrow> duration \<Rightarrow> int" where
  "bucket_tokens b now burst refill =
     (if \<not> now < fullAt b then burst
      else let missing = (fullAt b - now + refill - 1) div refill;
               missing = (if burst < missing then burst else missing)
           in burst - missing)"

text \<open>The result of \<open>take\<close> and the bucket it leaves.\<close>

definition bucket_take :: "bucket \<Rightarrow> time \<Rightarrow> int \<Rightarrow> duration \<Rightarrow> (bool \<times> duration) \<times> bucket" where
  "bucket_take b now burst refill =
     (let b = (if fullAt b < now then b\<lparr>fullAt := now\<rparr> else b)
      in if bucket_tokens b now burst refill \<le> 0
         then ((False, fullAt b - now - (burst - 1) * refill), b)
         else ((True, 0), b\<lparr>fullAt := fullAt b + refill\<rparr>))"

lemma missing_ge_iff:
  fixes d r n :: int
  assumes "0 < r"
  shows "n \<le> (d + r - 1) div r \<longleftrightarrow> (n - 1) * r < d"
  by (auto simp: le_div_iff_mult_le [OF assms] algebra_simps)

lemma tokens_zero_iff:
  assumes "0 < r" "0 < n"
  shows "bucket_tokens b now n r \<le> 0 \<longleftrightarrow> (n - 1) * r < fullAt b - now"
proof (cases "now < fullAt b")
  case True
  have "bucket_tokens b now n r \<le> 0 \<longleftrightarrow> n \<le> (fullAt b - now + r - 1) div r"
    using True assms by (auto simp: bucket_tokens_def Let_def)
  then show ?thesis by (simp add: missing_ge_iff [OF assms(1)])
next
  case False
  have "0 \<le> (n - 1) * r" using assms by simp
  with False have "\<not> (n - 1) * r < fullAt b - now" by linarith
  with False assms show ?thesis by (simp add: bucket_tokens_def)
qed

lemma bucket_take_cases:
  assumes "0 < r" "0 < n"
  shows "bucket_take b now n r =
    (if (n - 1) * r < fullAt b - now
     then ((False, fullAt b - now - (n - 1) * r), b)
     else ((True, 0), b\<lparr>fullAt := max (fullAt b) now + r\<rparr>))"
proof -
  have "0 \<le> (n - 1) * r" using assms by simp
  then have "\<not> (n - 1) * r < 0" and "fullAt b < now \<Longrightarrow> \<not> (n - 1) * r < fullAt b - now"
    by linarith+
  with assms show ?thesis
    by (auto simp: bucket_take_def Let_def tokens_zero_iff max_def)
qed

lemma bucket_take_granted:
  assumes "0 < r" "0 < n" "bucket_take b now n r = ((True, w), b')"
  shows "fullAt b' = max (fullAt b) now + r" "fullAt b' \<le> now + n * r"
proof -
  have "1 * r \<le> n * r" using assms(1,2) by (intro mult_right_mono) auto
  moreover have "fullAt b - now \<le> (n - 1) * r" and eq: "fullAt b' = max (fullAt b) now + r"
    using assms by (auto simp: bucket_take_cases split: if_splits)
  ultimately show "fullAt b' \<le> now + n * r" by (simp add: max_def algebra_simps)
  show "fullAt b' = max (fullAt b) now + r" by (rule eq)
qed

lemma bucket_take_denied:
  assumes "0 < r" "0 < n" "bucket_take b now n r = ((False, w), b')"
  shows "b' = b" "0 < w" "w = fullAt b - now - (n - 1) * r"
  using assms by (auto simp: bucket_take_cases split: if_splits)

section \<open>The pair of buckets\<close>

record limiter =
  byAddr :: "(string, bucket) gomap"
  global :: bucket

definition newAttemptLimiter :: limiter where
  "newAttemptLimiter = \<lparr>byAddr = [], global = \<lparr>fullAt = zero_time\<rparr>\<rparr>"

text \<open>
  The entry with the most tokens left: the body of the inner \<open>range\<close> loop of the eviction,
  folded over the entries in the order visited, starting from the empty key.
\<close>

definition fullest_step :: "string \<times> bucket \<Rightarrow> string \<times> time \<Rightarrow> string \<times> time" where
  "fullest_step = (\<lambda>(k, b) (fk, ft).
     if fk = '''' \<or> fullAt b < ft then (k, fullAt b) else (fk, ft))"

definition pick_fullest :: "(string \<times> bucket) list \<Rightarrow> string" where
  "pick_fullest es = fst (fold fullest_step es ('''', zero_time))"

lemma fullest_step_eq: "fullest_step = min_step fullAt"
  by (auto simp: fullest_step_def min_step_def fun_eq_iff)

lemma pick_fullest_eq: "pick_fullest es = min_key fullAt es"
  by (simp add: pick_fullest_def min_key_def fullest_step_eq)

lemma pick_fullest_mem: "pick_fullest es \<noteq> '''' \<Longrightarrow> pick_fullest es \<in> fst ` set es"
  by (simp add: pick_fullest_eq min_key_mem)

function evict_fullest ::
  "(string, bucket) range_order \<Rightarrow> (string, bucket) gomap \<Rightarrow> (string, bucket) gomap" where
  "evict_fullest ord m =
     (if length m < maxLimiterKeys then m
      else let k = pick_fullest (range_over ord m)
           in if k = '''' then m else evict_fullest ord (AList.delete k m))"
  by pat_completeness auto
termination
proof (relation "measure (\<lambda>(ord, m). length m)")
  fix ord :: "(string, bucket) range_order" and m k
  assume k: "k = pick_fullest (range_over ord m)" and "k \<noteq> ''''"
  then have "k \<in> fst ` set m" using pick_fullest_mem [of "range_over ord m"] by simp
  then show "((ord, AList.delete k m), (ord, m)) \<in> measure (\<lambda>(ord, m). length m)"
    by (simp add: length_delete_less)
qed simp

declare evict_fullest.simps [simp del]

definition pruneLocked ::
  "time \<Rightarrow> (string, bucket) range_order \<Rightarrow> (string, bucket) gomap \<Rightarrow> (string, bucket) gomap" where
  "pruneLocked now ord m =
     (if length m < maxLimiterKeys then m
      else evict_fullest ord (filter (\<lambda>(k, b). now < fullAt b) m))"

definition allow ::
  "limiter \<Rightarrow> time \<Rightarrow> (string, bucket) range_order \<Rightarrow> string \<Rightarrow> (bool \<times> duration) \<times> limiter" where
  "allow l now ord key =
     (case bucket_take (global l) now globalBurst globalRefill of
        ((False, after), g) \<Rightarrow> ((False, after), l\<lparr>global := g\<rparr>)
      | ((True, _), g) \<Rightarrow>
          let l = l\<lparr>global := g\<rparr>;
              (b, l) = (case map_of (byAddr l) key of
                          Some b \<Rightarrow> (b, l)
                        | None \<Rightarrow>
                            let b = \<lparr>fullAt = now\<rparr>
                            in (b, l\<lparr>byAddr := admit (pruneLocked now ord (byAddr l)) key b\<rparr>))
          in (case bucket_take b now attemptBurst attemptRefill of
                ((ok, after), b') \<Rightarrow>
                  let l = l\<lparr>byAddr := AList.update key b' (byAddr l)\<rparr>
                  in if \<not> ok then ((False, after), l) else ((True, 0), l)))"

definition give_back :: "bucket \<Rightarrow> time \<Rightarrow> duration \<Rightarrow> bucket" where
  "give_back b now refill =
     (let f = fullAt b - refill in b\<lparr>fullAt := (if f < now then now else f)\<rparr>)"

definition succeed :: "limiter \<Rightarrow> time \<Rightarrow> string \<Rightarrow> limiter" where
  "succeed l now key =
     (let l = (case map_of (byAddr l) key of
                 None \<Rightarrow> l
               | Some b \<Rightarrow> l\<lparr>byAddr := AList.update key (give_back b now attemptRefill) (byAddr l)\<rparr>)
      in l\<lparr>global := give_back (global l) now globalRefill\<rparr>)"

section \<open>Eviction\<close>

lemma evict_fullest_subset: "set (evict_fullest ord m) \<subseteq> set m"
proof (induction ord m rule: evict_fullest.induct)
  case (1 ord m)
  show ?case
  proof (cases "length m < maxLimiterKeys \<or> pick_fullest (range_over ord m) = ''''")
    case True
    then show ?thesis by (auto simp: evict_fullest.simps [of ord m] Let_def)
  next
    case False
    with 1 have "set (evict_fullest ord (AList.delete (pick_fullest (range_over ord m)) m)) \<subseteq>
        set (AList.delete (pick_fullest (range_over ord m)) m)" by auto
    with False show ?thesis
      by (auto simp: evict_fullest.simps [of ord m] Let_def set_delete)
  qed
qed

lemma evict_fullest_wf: "store_wf m \<Longrightarrow> store_wf (evict_fullest ord m)"
proof (induction ord m rule: evict_fullest.induct)
  case (1 ord m)
  then show ?case
    by (subst evict_fullest.simps) (auto simp: Let_def store_wf_delete)
qed

text \<open>The loop leaves room, and what it removes is never fuller than what it keeps.\<close>

lemma evict_fullest_room:
  assumes "store_wf m"
  shows "length (evict_fullest ord m) < maxLimiterKeys"
  using assms
proof (induction ord m rule: evict_fullest.induct)
  case (1 ord m)
  show ?case
  proof (cases "length m < maxLimiterKeys")
    case True
    then show ?thesis by (simp add: evict_fullest.simps [of ord m])
  next
    case False
    then have "range_over ord m \<noteq> []"
      by (metis length_range_over less_imp_le list.size(3) maxLimiterKeys_def not_less zero_less_numeral)
    moreover have "'''' \<notin> fst ` set (range_over ord m)" using 1(2) by (simp add: store_wf_def)
    ultimately have "pick_fullest (range_over ord m) \<noteq> ''''"
      by (metis image_eqI fst_conv min_key_min pick_fullest_eq)
    with 1 False show ?thesis
      by (subst evict_fullest.simps) (simp add: Let_def store_wf_delete)
  qed
qed

lemma evict_fullest_order:
  assumes "store_wf m" "(k, b) \<in> set m" "(k, b) \<notin> set (evict_fullest ord m)"
    "(k', b') \<in> set (evict_fullest ord m)"
  shows "fullAt b \<le> fullAt b'"
  using assms
proof (induction ord m rule: evict_fullest.induct)
  case (1 ord m)
  let ?p = "pick_fullest (range_over ord m)"
  show ?case
  proof (cases "length m < maxLimiterKeys \<or> ?p = ''''")
    case True
    then have "evict_fullest ord m = m"
      by (subst evict_fullest.simps) (auto simp: Let_def)
    with 1(3,4) show ?thesis by simp
  next
    case False
    then have ev: "evict_fullest ord m = evict_fullest ord (AList.delete ?p m)"
      by (subst evict_fullest.simps) (simp add: Let_def)
    have k'_in: "(k', b') \<in> set m"
      using 1(5) evict_fullest_subset [of ord m] by auto
    show ?thesis
    proof (cases "k = ?p")
      case True
      obtain c where c: "(?p, c) \<in> set m" "\<And>k' b'. (k', b') \<in> set m \<Longrightarrow> fullAt c \<le> fullAt b'"
      proof (rule min_key_min [of "range_over ord m" fullAt])
        show "range_over ord m \<noteq> []" using 1(3) by (metis empty_iff list.set(1) set_range_over)
        show "'''' \<notin> fst ` set (range_over ord m)" using 1(2) by (simp add: store_wf_def)
      qed (auto simp: pick_fullest_eq)
      from c(1) 1(3) True 1(2) have "c = b"
        by (auto simp: store_wf_def intro: eq_key_imp_eq_value)
      with c(2) k'_in show ?thesis by auto
    next
      case False
      with 1(3) have "(k, b) \<in> set (AList.delete ?p m)" by (simp add: set_delete)
      with 1 ev \<open>\<not> (length m < maxLimiterKeys \<or> ?p = '''')\<close> show ?thesis
        by (auto simp: store_wf_delete)
    qed
  qed
qed

lemma pruneLocked_subset: "set (pruneLocked now ord m) \<subseteq> set m"
  using evict_fullest_subset [of ord "filter (\<lambda>(k, b). now < fullAt b) m"]
  by (auto simp: pruneLocked_def)

lemma pruneLocked_wf: "store_wf m \<Longrightarrow> store_wf (pruneLocked now ord m)"
  by (simp add: pruneLocked_def evict_fullest_wf store_wf_filter)

interpretation buckets: evicting_store maxLimiterKeys "\<lambda>(now, ord). pruneLocked now ord"
proof unfold_locales
  fix c :: "time \<times> (string, bucket) range_order" and m :: "(string, bucket) gomap"
  show "set ((case c of (now, ord) \<Rightarrow> pruneLocked now ord) m) \<subseteq> set m"
    using pruneLocked_subset by (cases c) simp
  assume m: "store_wf m"
  then show "store_wf ((case c of (now, ord) \<Rightarrow> pruneLocked now ord) m)"
    by (cases c) (simp add: pruneLocked_wf)
  show "length ((case c of (now, ord) \<Rightarrow> pruneLocked now ord) m) < maxLimiterKeys"
    using m by (cases c) (simp add: pruneLocked_def evict_fullest_room store_wf_filter)
qed

section \<open>The allowance over a run\<close>

text \<open>
  A run is a sequence of password attempts and of successes reported back, each at the
  instant the clock showed; \<open>limiter_run\<close> threads the limiter through it and collects the
  verdict of every attempt.
\<close>

datatype limiter_event =
    Attempt time "(string, bucket) range_order" string
  | Success time string

fun event_time :: "limiter_event \<Rightarrow> time" where
  "event_time (Attempt t _ _) = t"
| "event_time (Success t _) = t"

fun limiter_run :: "limiter \<Rightarrow> limiter_event list \<Rightarrow> bool list \<times> limiter" where
  "limiter_run l [] = ([], l)"
| "limiter_run l (Attempt t ord key # es) =
     (case allow l t ord key of ((ok, _), l') \<Rightarrow>
        (case limiter_run l' es of (oks, l'') \<Rightarrow> (ok # oks, l'')))"
| "limiter_run l (Success t key # es) = limiter_run (succeed l t key) es"

fun successes :: "limiter_event list \<Rightarrow> nat" where
  "successes [] = 0"
| "successes (Attempt _ _ _ # es) = successes es"
| "successes (Success _ _ # es) = Suc (successes es)"

definition allowed :: "bool list \<Rightarrow> nat" where
  "allowed oks = length (filter id oks)"

text \<open>The instants of a run do not go back.\<close>

fun from_time :: "time \<Rightarrow> limiter_event list \<Rightarrow> bool" where
  "from_time t [] \<longleftrightarrow> True"
| "from_time t (e # es) \<longleftrightarrow> t \<le> event_time e \<and> from_time (event_time e) es"

lemma allow_global:
  assumes "allow l t ord key = ((ok, w), l')"
  shows "if ok then fullAt (global l') = max (fullAt (global l)) t + globalRefill
           \<and> fullAt (global l') \<le> t + globalBurst * globalRefill
         else fullAt (global l) \<le> fullAt (global l')
           \<and> fullAt (global l') \<le> max (fullAt (global l)) (t + globalBurst * globalRefill)"
proof -
  obtain g w' ok' where g: "bucket_take (global l) t globalBurst globalRefill = ((ok', w'), g)"
    by (metis prod.exhaust)
  have pos: "0 < globalRefill" "0 < globalBurst" by (simp_all add: limiter_consts)
  show ?thesis
  proof (cases ok')
    case True
    with g have "bucket_take (global l) t globalBurst globalRefill = ((True, w'), g)" by simp
    note tk = bucket_take_granted [OF pos this]
    have "global l' = g" using assms g True
      by (auto simp: allow_def Let_def split: prod.splits option.splits if_splits)
    with tk pos(1) show ?thesis by auto
  next
    case False
    with g have "bucket_take (global l) t globalBurst globalRefill = ((False, w'), g)" by simp
    then have "g = global l" using bucket_take_denied [OF pos] by blast
    with assms g False show ?thesis by (auto simp: allow_def)
  qed
qed

lemma limiter_run_allowed:
  assumes "from_time t0 es" "limiter_run l es = (oks, l')"
    "\<forall>e \<in> set es. event_time e \<le> t1" "t0 \<le> t1"
    "fullAt (global l) \<le> t1 + globalBurst * globalRefill"
  shows "int (allowed oks) * globalRefill + max (fullAt (global l)) t0
    \<le> t1 + globalBurst * globalRefill + int (successes es) * globalRefill"
  using assms
proof (induction es arbitrary: l t0 oks)
  case Nil
  then show ?case by (auto simp: allowed_def limiter_consts)
next
  case (Cons e es)
  show ?case
  proof (cases e)
    case (Attempt t ord key)
    obtain ok w l1 where a: "allow l t ord key = ((ok, w), l1)" by (metis prod.exhaust)
    obtain oks1 where r: "limiter_run l1 es = (oks1, l')" and oks: "oks = ok # oks1"
      using Cons.prems(2) a Attempt by (auto split: prod.splits)
    have t: "t0 \<le> t" "t \<le> t1" using Cons.prems Attempt by auto
    note g = allow_global [OF a]
    have g1: "fullAt (global l1) \<le> t1 + globalBurst * globalRefill"
      using g t Cons.prems(5) by (auto split: if_splits)
    have "int (allowed oks1) * globalRefill + max (fullAt (global l1)) t
        \<le> t1 + globalBurst * globalRefill + int (successes es) * globalRefill"
      using Cons.prems Attempt t g1 r by (intro Cons.IH) auto
    then show ?thesis using g t Attempt oks
      by (cases ok) (auto simp: allowed_def algebra_simps limiter_consts)
  next
    case (Success t key)
    have t: "t0 \<le> t" "t \<le> t1" using Cons.prems Success by auto
    let ?l = "succeed l t key"
    have g: "fullAt (global ?l) = max t (fullAt (global l) - globalRefill)"
      by (simp add: succeed_def give_back_def Let_def max_def split: option.splits)
    have "int (allowed oks) * globalRefill + max (fullAt (global ?l)) t
        \<le> t1 + globalBurst * globalRefill + int (successes es) * globalRefill"
      using Cons.prems Success t g by (intro Cons.IH) (auto simp: limiter_consts)
    then show ?thesis using g t Success by (auto simp: algebra_simps limiter_consts)
  qed
qed

lemma limiter_run_global_le:
  assumes "limiter_run l es = (oks, l')" "\<forall>e \<in> set es. event_time e \<le> t"
    "fullAt (global l) \<le> t + globalBurst * globalRefill"
  shows "fullAt (global l') \<le> t + globalBurst * globalRefill"
  using assms
proof (induction es arbitrary: l oks)
  case (Cons e es)
  show ?case
  proof (cases e)
    case (Attempt s ord key)
    obtain ok w l1 where a: "allow l s ord key = ((ok, w), l1)" by (metis prod.exhaust)
    obtain oks1 where r: "limiter_run l1 es = (oks1, l')"
      using Cons.prems(1) a Attempt by (auto split: prod.splits)
    have "fullAt (global l1) \<le> t + globalBurst * globalRefill"
      using allow_global [OF a] Cons.prems Attempt by (auto split: if_splits)
    with Cons r show ?thesis by auto
  next
    case (Success s key)
    have "fullAt (global (succeed l s key)) \<le> t + globalBurst * globalRefill"
      using Cons.prems Success
      by (auto simp: succeed_def give_back_def Let_def limiter_consts split: option.splits)
    with Cons Success show ?thesis by auto
  qed
qed simp

fun event_key :: "limiter_event \<Rightarrow> string" where
  "event_key (Attempt _ _ k) = k"
| "event_key (Success _ k) = k"

definition limiter_bounded :: "limiter \<Rightarrow> bool" where
  "limiter_bounded l \<longleftrightarrow> store_wf (byAddr l) \<and> length (byAddr l) \<le> maxLimiterKeys"

lemma limiter_bounded_update:
  assumes "limiter_bounded l" "k \<in> fst ` set (byAddr l)"
  shows "limiter_bounded (l\<lparr>byAddr := AList.update k b (byAddr l)\<rparr>)"
  using assms
  by (auto simp: limiter_bounded_def length_update_mem store_wf_update) (auto simp: store_wf_def
      AList.distinct_update dom_update image_iff)

lemma limiter_bounded_admit:
  assumes "limiter_bounded l" "k \<noteq> ''''"
  shows "limiter_bounded (l\<lparr>byAddr := admit (pruneLocked now ord (byAddr l)) k b\<rparr>)"
  using assms buckets.admit_wf [of "byAddr l" k "(now, ord)" b]
    buckets.admit_bounded [of "byAddr l" "(now, ord)" k b]
  by (simp add: limiter_bounded_def)

lemma allow_bounded:
  assumes "limiter_bounded l" "key \<noteq> ''''"
  shows "limiter_bounded (snd (allow l now ord key))"
proof -
  obtain ok w g where g: "bucket_take (global l) now globalBurst globalRefill = ((ok, w), g)"
    by (metis prod.exhaust)
  let ?l = "l\<lparr>global := g\<rparr>"
  have l: "limiter_bounded ?l" using assms(1) by (simp add: limiter_bounded_def)
  define f where "f = \<lparr>fullAt = now\<rparr>"
  define b where "b = (case map_of (byAddr l) key of Some b \<Rightarrow> b | None \<Rightarrow> f)"
  define l1 where "l1 = (case map_of (byAddr l) key of Some b \<Rightarrow> ?l
    | None \<Rightarrow> ?l\<lparr>byAddr := admit (pruneLocked now ord (byAddr ?l)) key f\<rparr>)"
  have l1: "limiter_bounded l1"
    using l limiter_bounded_admit [OF l assms(2)] by (simp add: l1_def split: option.splits)
  have key: "key \<in> fst ` set (byAddr l1)"
    by (auto simp: l1_def admit_def dom_update split: option.splits)
       (metis fst_conv image_eqI map_of_SomeD)
  obtain ok' w' b' where b': "bucket_take b now attemptBurst attemptRefill = ((ok', w'), b')"
    by (metis prod.exhaust)
  have "snd (allow l now ord key) =
      (if ok then l1\<lparr>byAddr := AList.update key b' (byAddr l1)\<rparr> else ?l)"
    using g b' by (cases "map_of (byAddr l) key"; cases ok; cases ok')
      (simp_all add: allow_def Let_def b_def l1_def f_def)
  with l limiter_bounded_update [OF l1 key] show ?thesis by simp
qed

lemma succeed_bounded: "limiter_bounded l \<Longrightarrow> limiter_bounded (succeed l now key)"
proof -
  assume l: "limiter_bounded l"
  have "limiter_bounded (case map_of (byAddr l) key of
                 None \<Rightarrow> l
               | Some b \<Rightarrow> l\<lparr>byAddr := AList.update key (give_back b now attemptRefill) (byAddr l)\<rparr>)"
    using l limiter_bounded_update [OF l]
    by (auto split: option.splits) (metis fst_conv image_eqI map_of_SomeD)
  then show ?thesis by (auto simp: succeed_def Let_def limiter_bounded_def)
qed

lemma limiter_run_bounded:
  assumes "limiter_bounded l" "\<forall>e \<in> set es. event_key e \<noteq> ''''"
  shows "limiter_bounded (snd (limiter_run l es))"
  using assms
proof (induction l es rule: limiter_run.induct)
  case (2 l t ord key es)
  then show ?case using allow_bounded [of l key t ord] by (auto split: prod.splits)
qed (simp_all add: succeed_bounded)

lemma from_time_suffix:
  assumes "from_time t (es1 @ es2)" "\<forall>e \<in> set es2. t0 \<le> event_time e"
  shows "from_time t0 es2"
  using assms(1)
proof (induction es1 arbitrary: t)
  case Nil
  with assms(2) show ?case by (cases es2) auto
qed auto

section \<open>Properties\<close>

text \<open>C12. Password guessing is rate limited whatever addresses it comes from: after any history,
  the attempts let through between two instants number at most the burst, plus one for every
  refill interval between the instants, plus the attempts given back as successful.\<close>

theorem attempts_bounded:
  assumes "limiter_run newAttemptLimiter es1 = (oks1, l1)" "limiter_run l1 es2 = (oks2, l2)"
    and "from_time zero_time (es1 @ es2)" "t0 \<le> t1" "zero_time \<le> t0"
    and "\<forall>e \<in> set es1. event_time e \<le> t0" "\<forall>e \<in> set es2. t0 \<le> event_time e \<and> event_time e \<le> t1"
  shows "int (allowed oks2) \<le> globalBurst + (t1 - t0) div globalRefill + int (successes es2)"
proof -
  have "fullAt (global l1) \<le> t0 + globalBurst * globalRefill"
    using assms(5) by (intro limiter_run_global_le [OF assms(1,6)])
      (simp add: newAttemptLimiter_def limiter_consts)
  moreover have "from_time t0 es2"
    using assms(7) by (intro from_time_suffix [OF assms(3)]) blast
  moreover have "fullAt (global l1) \<le> t1 + globalBurst * globalRefill"
    using calculation(1) assms(4) by linarith
  ultimately have "int (allowed oks2) * globalRefill + max (fullAt (global l1)) t0
    \<le> t1 + globalBurst * globalRefill + int (successes es2) * globalRefill"
    using assms(2,4,7) by (intro limiter_run_allowed) blast+
  then have "(int (allowed oks2) - globalBurst - int (successes es2)) * globalRefill \<le> t1 - t0"
    by (simp add: algebra_simps)
  then have "int (allowed oks2) - globalBurst - int (successes es2) \<le> (t1 - t0) div globalRefill"
    by (subst le_div_iff_mult_le) (simp_all add: limiter_consts)
  then show ?thesis by simp
qed

theorem attempts_bounded_witness:
  "int (allowed (fst (limiter_run (snd (limiter_run newAttemptLimiter [Attempt 0 id ''10.0.0.2'']))
      [Attempt 7 id ''10.0.0.3'', Success 8 ''10.0.0.3'', Attempt 9 id ''10.0.0.2''])))
    \<le> globalBurst + (9 - 7) div globalRefill + 1"
  using attempts_bounded [of "[Attempt 0 id ''10.0.0.2'']" _ _
      "[Attempt 7 id ''10.0.0.3'', Success 8 ''10.0.0.3'', Attempt 9 id ''10.0.0.2'']" _ _ 7 9,
      OF surjective_pairing surjective_pairing]
  by (simp add: zero_time_def second_def)

text \<open>
  A refusal says exactly how long to wait: the wait is positive, the same bucket grants
  the attempt at that moment, and refuses it at every moment before.\<close>

theorem retry_after_exact:
  assumes "0 < refill" "0 < burst" "bucket_take b now burst refill = ((False, w), b')"
  shows "0 < w \<and> fst (fst (bucket_take b' (now + w) burst refill)) \<and>
    (now \<le> t \<longrightarrow> t < now + w \<longrightarrow> \<not> fst (fst (bucket_take b' t burst refill)))"
  using bucket_take_denied [OF assms] assms(1,2) by (simp add: bucket_take_cases)

theorem retry_after_exact_witness:
  "fst (fst (bucket_take \<lparr>fullAt = 5 * attemptRefill\<rparr> (0 + attemptRefill) attemptBurst attemptRefill))
   \<and> \<not> fst (fst (bucket_take \<lparr>fullAt = 5 * attemptRefill\<rparr> 1 attemptBurst attemptRefill))"
  using retry_after_exact [of attemptRefill attemptBurst "\<lparr>fullAt = 5 * attemptRefill\<rparr>" 0
      attemptRefill "\<lparr>fullAt = 5 * attemptRefill\<rparr>" 1]
  by (simp add: bucket_take_def bucket_tokens_def limiter_consts second_def Let_def)

text \<open>
  The map of addresses never grows past its bound, whatever sequence of attempts and
  successes the panel sees from non-empty client keys.\<close>

theorem limiter_map_bounded:
  assumes "\<forall>e \<in> set es. event_key e \<noteq> ''''"
  shows "length (byAddr (snd (limiter_run newAttemptLimiter es))) \<le> maxLimiterKeys"
  using limiter_run_bounded [OF _ assms, of newAttemptLimiter]
  by (simp add: limiter_bounded_def newAttemptLimiter_def store_wf_def)

theorem limiter_map_bounded_witness:
  "length (byAddr (snd (limiter_run newAttemptLimiter
     [Attempt 0 id ''10.0.0.2'', Success 1 ''10.0.0.2'', Attempt 2 rev ''10.0.0.3'']))) \<le> maxLimiterKeys"
  by (rule limiter_map_bounded) simp

text \<open>
  Making room never frees an address that is closer to a lockout: an entry that is
  dropped either had its whole allowance back already or was penalised no more than every
  entry that is kept, and nothing is dropped while the map is below its bound.\<close>

theorem prune_drops_least_penalised:
  assumes "store_wf m" "(k, b) \<in> set m" "(k, b) \<notin> set (pruneLocked now ord m)"
  shows "maxLimiterKeys \<le> length m \<and>
    (fullAt b \<le> now \<or> (\<forall>(k', b') \<in> set (pruneLocked now ord m). fullAt b \<le> fullAt b'))"
proof (cases "length m < maxLimiterKeys \<or> fullAt b \<le> now")
  case True
  with assms(2,3) show ?thesis by (auto simp: pruneLocked_def)
next
  case False
  with assms evict_fullest_order [of "filter (\<lambda>(k, b). now < fullAt b) m" k b ord]
  show ?thesis by (auto simp: pruneLocked_def store_wf_filter)
qed

lemma map_of_repeats_wf: "store_wf (map (\<lambda>i. (replicate (Suc i) c, v)) [0..<n])"
  by (auto simp: store_wf_def comp_def distinct_map inj_on_def)

theorem prune_drops_least_penalised_witness:
  "\<exists>m. ((''x'', \<lparr>fullAt = 3\<rparr>) \<in> set m \<and> (''x'', \<lparr>fullAt = 3\<rparr>) \<notin> set (pruneLocked 5 id m)) \<and>
     maxLimiterKeys \<le> length m"
proof -
  let ?m = "map (\<lambda>i. (replicate (Suc i) CHR ''x'', \<lparr>fullAt = 3\<rparr>)) [0..<maxLimiterKeys]"
  have i: "(''x'', \<lparr>fullAt = 3\<rparr>) \<in> set ?m"
    by (auto simp: image_iff maxLimiterKeys_def intro: bexI [of _ 0])
  moreover have o: "(''x'', \<lparr>fullAt = 3\<rparr>) \<notin> set (pruneLocked 5 id ?m)"
    by (simp add: pruneLocked_def filter_map comp_def evict_fullest.simps maxLimiterKeys_def)
  ultimately show ?thesis
    using prune_drops_least_penalised [OF map_of_repeats_wf i o] by blast
qed

end
