(* ===== verification/Sha256.thy ===== *)
theory Sha256
  imports Gostr
begin

text \<open>
  SHA-256 (\<open>crypto/sha256\<close> of the standard library), which the sources use to key browser
  sessions and to tell apart commands that differ only in their standard input.
\<close>

text \<open>
  The constants are the first 32 bits of the fractional parts of the cube roots of the first 64
  primes, and of the square roots of the first 8: the integer root of the prime shifted left,
  taken modulo \<open>2 ^ 32\<close>.
\<close>

definition iroot :: "nat \<Rightarrow> int \<Rightarrow> int" where
  "iroot k n = fold (\<lambda>b acc. if (acc + 2 ^ b) ^ k \<le> n then acc + 2 ^ b else acc) (rev [0..<40]) 0"

definition small_primes :: "int list" where
  "small_primes = filter (\<lambda>n. list_all (\<lambda>d. n mod d \<noteq> 0) [2..n - 1]) [2..311]"

definition sha256_k :: "32 word list" where
  "sha256_k = map (\<lambda>p. word_of_int (iroot 3 (p * 2 ^ 96))) small_primes"

definition sha256_iv :: "32 word list" where
  "sha256_iv = map (\<lambda>p. word_of_int (iroot 2 (p * 2 ^ 64))) [2, 3, 5, 7, 11, 13, 17, 19]"

definition rotr :: "nat \<Rightarrow> 32 word \<Rightarrow> 32 word" where
  "rotr n w = drop_bit n w OR push_bit (32 - n) w"

definition ssig0 :: "32 word \<Rightarrow> 32 word" where
  "ssig0 w = rotr 7 w XOR rotr 18 w XOR drop_bit 3 w"

definition ssig1 :: "32 word \<Rightarrow> 32 word" where
  "ssig1 w = rotr 17 w XOR rotr 19 w XOR drop_bit 10 w"

definition bsig0 :: "32 word \<Rightarrow> 32 word" where
  "bsig0 w = rotr 2 w XOR rotr 13 w XOR rotr 22 w"

definition bsig1 :: "32 word \<Rightarrow> 32 word" where
  "bsig1 w = rotr 6 w XOR rotr 11 w XOR rotr 25 w"

definition byte_word :: "char \<Rightarrow> 32 word" where
  "byte_word c = word_of_int (of_char c)"

definition be_bytes :: "nat \<Rightarrow> int \<Rightarrow> string" where
  "be_bytes k n = map (\<lambda>i. char_of (n div 256 ^ (k - 1 - i))) [0..<k]"

definition sha256_pad :: "string \<Rightarrow> string" where
  "sha256_pad m = m @ CHR 0x80 # replicate ((119 - length m mod 64) mod 64) CHR 0x00
     @ be_bytes 8 (8 * int (length m))"

fun words_of :: "string \<Rightarrow> 32 word list" where
  "words_of (a # b # c # d # s) =
     (push_bit 24 (byte_word a) OR push_bit 16 (byte_word b) OR push_bit 8 (byte_word c) OR byte_word d)
     # words_of s"
| "words_of _ = []"

text \<open>The message schedule, newest word first.\<close>

definition sched_step :: "32 word list \<Rightarrow> 32 word list" where
  "sched_step ws = (ssig1 (ws ! 1) + ws ! 6 + ssig0 (ws ! 14) + ws ! 15) # ws"

definition schedule :: "32 word list \<Rightarrow> 32 word list" where
  "schedule block = rev ((sched_step ^^ 48) (rev block))"

fun sha256_round :: "32 word \<times> 32 word \<Rightarrow> 32 word list \<Rightarrow> 32 word list" where
  "sha256_round (k, w) [a, b, c, d, e, f, g, h] =
     (let t1 = h + bsig1 e + ((e AND f) XOR ((NOT e) AND g)) + k + w;
          t2 = bsig0 a + ((a AND b) XOR (a AND c) XOR (b AND c))
      in [t1 + t2, a, b, c, d + t1, e, f, g])"
| "sha256_round _ s = s"

definition sha256_block :: "32 word list \<Rightarrow> 32 word list \<Rightarrow> 32 word list" where
  "sha256_block h block = map2 (+) h (fold sha256_round (zip sha256_k (schedule block)) h)"

fun sha256_blocks :: "nat \<Rightarrow> 32 word list \<Rightarrow> 32 word list \<Rightarrow> 32 word list" where
  "sha256_blocks 0 h ws = h"
| "sha256_blocks (Suc n) h ws = sha256_blocks n (sha256_block h (take 16 ws)) (drop 16 ws)"

definition sha256 :: "string \<Rightarrow> string" where
  "sha256 m = (let ws = words_of (sha256_pad m)
     in concat (map (\<lambda>w. be_bytes 4 (uint w)) (sha256_blocks (length ws div 16) sha256_iv ws)))"

lemma length_sha256_round [simp]: "length (sha256_round kw s) = length s"
  by (cases "(kw, s)" rule: sha256_round.cases) (auto simp: Let_def)

lemma length_sha256_block [simp]: "length (sha256_block h b) = length h"
proof -
  have "length (fold sha256_round xs h) = length h" for xs
    by (induction xs arbitrary: h) simp_all
  then show ?thesis by (simp add: sha256_block_def)
qed

lemma length_sha256_blocks [simp]: "length (sha256_blocks n h ws) = length h"
  by (induction n arbitrary: h ws) simp_all

lemma length_sha256 [simp]: "length (sha256 m) = 32"
  by (simp add: sha256_def Let_def length_concat comp_def be_bytes_def sum_list_triv sha256_iv_def)

end
