(* ===== verification/Session.thy ===== *)
theory Session
  imports Bounded_Store Sha256
begin

text \<open>
  The browser sessions of the panel (\<open>internal/panel/session.go\<close>). A session is a record, the
  store a map from the SHA-256 of the token to the session. The clock and the two random
  tokens that \<open>create\<close> draws are arguments; drawing one may fail.
\<close>

definition sessionLifetime :: duration where "sessionLifetime = 12 * hour"
definition sessionIdle :: duration where "sessionIdle = 2 * hour"
definition maxSessions :: nat where "maxSessions = 64"

definition sessionCookie :: string where "sessionCookie = ''caspian_session''"

text \<open>The message a POST leaves for the page after it; \<open>'p\<close> is the panel's \<open>Problem\<close>.\<close>

record 'p session =
  csrf :: string
  created :: time
  lastSeen :: time
  flashProblem :: "'p option"
  flashNotice :: string

definition touch :: "time \<Rightarrow> 'p session \<Rightarrow> 'p session" where
  "touch now s = s\<lparr>lastSeen := now\<rparr>"

definition setFlash :: "'p option \<Rightarrow> string \<Rightarrow> 'p session \<Rightarrow> 'p session" where
  "setFlash p notice s = s\<lparr>flashProblem := p, flashNotice := notice\<rparr>"

definition flash :: "'p session \<Rightarrow> 'p option \<times> string" where
  "flash s = (flashProblem s, flashNotice s)"

definition clearFlash :: "'p session \<Rightarrow> 'p session" where
  "clearFlash s = s\<lparr>flashProblem := None, flashNotice := ''''\<rparr>"

type_synonym 'p sessions = "(string, 'p session) gomap"

definition newSessionStore :: "'p sessions" where
  "newSessionStore = []"

definition sessionKey :: "string \<Rightarrow> string" where
  "sessionKey token = hex (sha256 token)"

definition expired :: "time \<Rightarrow> 'p session \<Rightarrow> bool" where
  "expired now v \<longleftrightarrow> now - created v > sessionLifetime \<or> now - lastSeen v > sessionIdle"

definition pruneSessions :: "time \<Rightarrow> 'p sessions \<Rightarrow> 'p sessions" where
  "pruneSessions now m = filter (\<lambda>(k, v). \<not> expired now v) m"

definition oldest_step :: "string \<times> 'p session \<Rightarrow> string \<times> time \<Rightarrow> string \<times> time" where
  "oldest_step = (\<lambda>(k, v) (ok, ot).
     if ok = '''' \<or> lastSeen v < ot then (k, lastSeen v) else (ok, ot))"

definition evictOldest :: "(string, 'p session) range_order \<Rightarrow> 'p sessions \<Rightarrow> 'p sessions" where
  "evictOldest ord m =
     (let k = fst (fold oldest_step (range_over ord m) ('''', zero_time))
      in if k \<noteq> '''' then AList.delete k m else m)"

text \<open>What \<open>create\<close> does to the map before it stores the new session.\<close>

definition make_room :: "time \<times> (string, 'p session) range_order \<Rightarrow> 'p sessions \<Rightarrow> 'p sessions" where
  "make_room = (\<lambda>(now, ord) m.
     let m = pruneSessions now m
     in if maxSessions \<le> length m then evictOldest ord m else m)"

definition newSession :: "string \<Rightarrow> time \<Rightarrow> 'p session" where
  "newSession c now = \<lparr>csrf = c, created = now, lastSeen = now, flashProblem = None, flashNotice = ''''\<rparr>"

definition create ::
  "('e, string) result \<Rightarrow> ('e, string) result \<Rightarrow> time \<Rightarrow> (string, 'p session) range_order \<Rightarrow>
   'p sessions \<Rightarrow> ('e, string \<times> 'p session) result \<times> 'p sessions" where
  "create rnd1 rnd2 now ord m =
     (case rnd1 of Inl e \<Rightarrow> (Inl e, m)
      | Inr token \<Rightarrow>
          (case rnd2 of Inl e \<Rightarrow> (Inl e, m)
           | Inr c \<Rightarrow>
               let sess = newSession c now
               in (Inr (token, sess), admit (make_room (now, ord) m) (sessionKey token) sess)))"

definition lookup_session :: "string \<Rightarrow> time \<Rightarrow> 'p sessions \<Rightarrow> 'p session option \<times> 'p sessions" where
  "lookup_session token now m =
     (if token = '''' then (None, m)
      else let m = pruneSessions now m
           in (case map_of m (sessionKey token) of
                 None \<Rightarrow> (None, m)
               | Some sess \<Rightarrow>
                   let sess = touch now sess
                   in (Some sess, AList.update (sessionKey token) sess m)))"

definition destroy :: "string \<Rightarrow> 'p sessions \<Rightarrow> 'p sessions" where
  "destroy token m = (if token = '''' then m else AList.delete (sessionKey token) m)"

definition destroyAll :: "'p sessions \<Rightarrow> 'p sessions" where
  "destroyAll m = []"

definition checkCSRF :: "'p session option \<Rightarrow> string \<Rightarrow> bool" where
  "checkCSRF s got =
     (case s of None \<Rightarrow> False
      | Some s \<Rightarrow> if csrf s = '''' \<or> got = '''' then False else csrf s = got)"

datatype same_site = SameSiteDefault | SameSiteLax | SameSiteStrict | SameSiteNone

record cookie =
  cName :: string
  cValue :: string
  cPath :: string
  cHttpOnly :: bool
  cSecure :: bool
  cSameSite :: same_site
  cMaxAge :: int

definition newSessionCookie :: "string \<Rightarrow> string \<Rightarrow> bool \<Rightarrow> cookie" where
  "newSessionCookie name token secure =
     \<lparr>cName = name, cValue = token, cPath = ''/'', cHttpOnly = True, cSecure = secure,
      cSameSite = SameSiteStrict, cMaxAge = 0\<rparr>"

definition cookieName :: "bool \<Rightarrow> string" where
  "cookieName secure = (if secure then ''__Host-'' @ sessionCookie else sessionCookie)"

definition clearSessionCookie :: "string \<Rightarrow> bool \<Rightarrow> cookie" where
  "clearSessionCookie name secure = (newSessionCookie name '''' secure)\<lparr>cMaxAge := - 1\<rparr>"

section \<open>The store\<close>

lemma oldest_step_eq: "oldest_step = min_step lastSeen"
  by (auto simp: oldest_step_def min_step_def fun_eq_iff)

lemma evictOldest_eq:
  "evictOldest ord m = (let k = min_key lastSeen (range_over ord m)
     in if k \<noteq> '''' then AList.delete k m else m)"
  by (simp add: evictOldest_def min_key_def oldest_step_eq)

lemma sessionKey_nonempty [simp]: "sessionKey token \<noteq> ''''"
proof -
  have "length (sessionKey token) = 64" by (simp add: sessionKey_def)
  then show ?thesis by auto
qed

lemma evictOldest_subset: "set (evictOldest ord m) \<subseteq> set m"
  by (auto simp: evictOldest_eq Let_def set_delete)

lemma evictOldest_shorter:
  assumes "store_wf m" "m \<noteq> []"
  shows "length (evictOldest ord m) < length m"
proof -
  have "range_over ord m \<noteq> []" using assms(2) by simp
  moreover have "'''' \<notin> fst ` set (range_over ord m)" using assms(1) by (simp add: store_wf_def)
  ultimately obtain v where "(min_key lastSeen (range_over ord m), v) \<in> set (range_over ord m)"
    by (rule min_key_min)
  then have v: "(min_key lastSeen (range_over ord m), v) \<in> set m" by simp
  then have "min_key lastSeen (range_over ord m) \<noteq> ''''"
    using assms(1) by (auto simp: store_wf_def image_iff)
  moreover from v have "min_key lastSeen (range_over ord m) \<in> fst ` set m" by force
  ultimately show ?thesis by (simp add: evictOldest_eq Let_def length_delete_less)
qed

lemma sessions_room_subset: "set (make_room c m) \<subseteq> set m"
proof -
  obtain now ord where c: "c = (now, ord)" by (cases c)
  have "set (make_room c m) \<subseteq> set (pruneSessions now m)"
    using evictOldest_subset [of ord "pruneSessions now m"] by (simp add: make_room_def c Let_def)
  then show ?thesis by (auto simp: pruneSessions_def)
qed

lemma store_wf_prune: "store_wf m \<Longrightarrow> store_wf (pruneSessions now m)"
  by (simp add: pruneSessions_def store_wf_filter)

lemma sessions_room_wf: "store_wf m \<Longrightarrow> store_wf (make_room c m)"
  by (auto simp: make_room_def Let_def evictOldest_eq store_wf_prune store_wf_delete split: prod.splits)

lemma sessions_room_free:
  assumes "store_wf m" "length m \<le> maxSessions"
  shows "length (make_room c m) < maxSessions"
proof -
  obtain now ord where c: "c = (now, ord)" by fastforce
  have le: "length (pruneSessions now m) \<le> maxSessions"
    using assms(2) by (simp add: pruneSessions_def le_trans [OF length_filter_le])
  show ?thesis
  proof (cases "maxSessions \<le> length (pruneSessions now m)")
    case True
    then have "pruneSessions now m \<noteq> []" by (auto simp: maxSessions_def)
    with evictOldest_shorter [OF store_wf_prune [OF assms(1)] this, of ord] True le show ?thesis
      by (simp add: make_room_def c)
  qed (simp add: make_room_def c)
qed

interpretation session_map: evicting_store maxSessions make_room
  by unfold_locales (fact sessions_room_subset sessions_room_wf sessions_room_free)+

section \<open>Runs\<close>

text \<open>
  What a browser and the panel do to the store: sign in (with the token drawn), a request with
  a cookie, signing out, a password change. Next to the store a run keeps, for every key, the
  instant of the sign-in it stems from and of its last use.
\<close>

datatype 'p session_event =
    Login string string time "(string, 'p session) range_order"
  | Request string time
  | Logout string
  | PasswordChange

fun session_step :: "'p session_event \<Rightarrow> 'p sessions \<Rightarrow> 'p sessions" where
  "session_step (Login token c now ord) m =
     snd (create (Inr token :: (unit, string) result) (Inr c) now ord m)"
| "session_step (Request token now) m = snd (lookup_session token now m)"
| "session_step (Logout token) m = destroy token m"
| "session_step PasswordChange m = destroyAll m"

fun note_login :: "'p session_event \<Rightarrow> (string \<rightharpoonup> time \<times> time) \<Rightarrow> string \<rightharpoonup> time \<times> time" where
  "note_login (Login token c now ord) f = f(sessionKey token \<mapsto> (now, now))"
| "note_login (Request token now) f =
     (if token = '''' then f
      else f(sessionKey token := map_option (\<lambda>(t, u). (t, now)) (f (sessionKey token))))"
| "note_login (Logout token) f = (if token = '''' then f else f(sessionKey token := None))"
| "note_login PasswordChange f = Map.empty"

definition session_run :: "'p session_event list \<Rightarrow> 'p sessions" where
  "session_run es = fold session_step es newSessionStore"

definition logins :: "'p session_event list \<Rightarrow> string \<rightharpoonup> time \<times> time" where
  "logins es = fold note_login es Map.empty"

definition traced :: "'p sessions \<Rightarrow> (string \<rightharpoonup> time \<times> time) \<Rightarrow> bool" where
  "traced m f \<longleftrightarrow> store_wf m \<and> length m \<le> maxSessions \<and>
     (\<forall>k v. map_of m k = Some v \<longrightarrow> f k = Some (created v, lastSeen v))"

lemma map_of_prune:
  assumes "store_wf m"
  shows "map_of (pruneSessions now m) k =
    (case map_of m k of None \<Rightarrow> None | Some v \<Rightarrow> if expired now v then None else Some v)"
  using assms unfolding store_wf_def pruneSessions_def
  by (induction m) (auto split: option.splits simp: map_of_eq_None_iff)

lemma traced_prune: "traced m f \<Longrightarrow> traced (pruneSessions now m) f"
  by (auto simp: traced_def map_of_prune store_wf_prune split: option.splits if_splits)
     (simp add: pruneSessions_def le_trans [OF length_filter_le])

lemma traced_step:
  assumes "traced m f"
  shows "traced (session_step e m) (note_login e f)"
proof (cases e)
  case (Login token c now ord)
  let ?m = "admit (make_room (now, ord) m) (sessionKey token) (newSession c now)"
  have wf: "store_wf m" "length m \<le> maxSessions" using assms by (simp_all add: traced_def)
  have "f k = Some (created v, lastSeen v)" if "map_of ?m k = Some v" "k \<noteq> sessionKey token" for k v
    using that assms session_map.admit_keeps_or_drops [OF wf(1) that(2), of "(now, ord)" "newSession c now"]
    by (auto simp: traced_def)
  moreover have "map_of ?m (sessionKey token) = Some (newSession c now)"
    using wf by (simp add: session_map.admit_stored)
  ultimately show ?thesis
    using session_map.admit_wf [OF wf(1)] session_map.admit_bounded [OF wf] Login
    by (auto simp: traced_def create_def Let_def newSession_def)
next
  case (Request token now)
  let ?k = "sessionKey token"
  note p = traced_prune [OF assms, of now]
  show ?thesis
  proof (cases "token = '''' \<or> map_of (pruneSessions now m) ?k = None")
    case True
    then show ?thesis using Request assms p by (auto simp: lookup_session_def Let_def traced_def)
  next
    case False
    then obtain v where v: "map_of (pruneSessions now m) ?k = Some v" "token \<noteq> ''''" by auto
    then have "?k \<in> fst ` set (pruneSessions now m)" by (metis fst_conv image_eqI map_of_SomeD)
    with v p Request show ?thesis
      by (auto simp: lookup_session_def Let_def traced_def store_wf_update length_update_mem
          AList.update_conv' touch_def split: if_splits)
  qed
next
  case (Logout token)
  then show ?thesis using assms
    by (auto simp: traced_def destroy_def store_wf_delete AList.delete_conv' AList.map_of_delete
        le_trans [OF length_delete_le])
next
  case PasswordChange
  then show ?thesis by (simp add: traced_def destroyAll_def store_wf_def)
qed

lemma traced_run: "traced (session_run es) (logins es)"
proof -
  have "traced m f \<Longrightarrow> traced (fold session_step es m) (fold note_login es f)" for m :: "'a sessions" and f
    by (induction es arbitrary: m f) (simp_all add: traced_step)
  moreover have "traced newSessionStore Map.empty"
    by (simp add: newSessionStore_def traced_def store_wf_def)
  ultimately show ?thesis by (simp add: session_run_def logins_def)
qed

lemma lookup_someD:
  assumes "store_wf m" "lookup_session token now m = (Some s, m')"
  obtains v where "token \<noteq> ''''" "map_of m (sessionKey token) = Some v" "\<not> expired now v" "s = touch now v"
  using assms
  by (auto simp: lookup_session_def Let_def map_of_prune split: if_splits option.splits)

lemma set_admit_other:
  "store_wf m \<Longrightarrow> k' \<noteq> k \<Longrightarrow> (k', v') \<in> set (admit m k v) \<longleftrightarrow> (k', v') \<in> set m"
proof -
  assume "store_wf m" "k' \<noteq> k"
  moreover have "distinct (map fst (AList.update k v m))" if "distinct (map fst m)"
    using that by (rule AList.distinct_update)
  ultimately show ?thesis
    by (metis AList.update_conv' admit_def fun_upd_other map_of_eq_Some_iff store_wf_def)
qed

lemma admit_evicts_oldest:
  assumes wf: "store_wf m"
    and kv: "(k, v) \<in> set m" "k \<noteq> n" "(k, v) \<notin> set (admit (make_room (now, ord) m) n s)"
    and kv': "(k', v') \<in> set (admit (make_room (now, ord) m) n s)" "k' \<noteq> n"
  shows "expired now v \<or> lastSeen v \<le> lastSeen v'"
proof (cases "expired now v")
  case False
  let ?p = "pruneSessions now m"
  let ?k = "min_key lastSeen (range_over ord ?p)"
  have wfr: "store_wf (make_room (now, ord) m)" by (rule sessions_room_wf [OF wf])
  have out: "(k, v) \<notin> set (make_room (now, ord) m)" and in': "(k', v') \<in> set (make_room (now, ord) m)"
    using kv(2,3) kv' set_admit_other [OF wfr] by blast+
  have inp: "(k, v) \<in> set ?p" using kv(1) False by (simp add: pruneSessions_def)
  then have "make_room (now, ord) m = AList.delete ?k ?p"
    using out by (auto simp: make_room_def Let_def evictOldest_eq split: if_splits)
  with out in' inp have k: "k = ?k" and inp': "(k', v') \<in> set ?p" by (auto simp: set_delete)
  have "range_over ord ?p \<noteq> []" "'''' \<notin> fst ` set (range_over ord ?p)"
    using inp store_wf_prune [OF wf] by (auto simp: store_wf_def)
  then obtain w where w: "(?k, w) \<in> set (range_over ord ?p)"
    and min: "\<And>k' b'. (k', b') \<in> set (range_over ord ?p) \<Longrightarrow> lastSeen w \<le> lastSeen b'"
    using min_key_min [of _ lastSeen] by blast
  have "w = v"
    using w inp k store_wf_prune [OF wf, of now] unfolding store_wf_def
    by (metis eq_key_imp_eq_value set_range_over)
  with min [of k' v'] inp' show ?thesis by simp
qed simp

section \<open>Properties\<close>

text \<open>C26. A cookie is honoured only for a live sign-in: in every run of sign-ins, requests,
  sign-outs and password changes, a request that finds a session stems from a sign-in with that
  key at most twelve hours ago, last used at most two hours ago, with no sign-out of that key and
  no password change since.\<close>

theorem request_needs_live_login:
  assumes "lookup_session token now (session_run es) = (Some s, m')"
  shows "\<exists>t u. logins es (sessionKey token) = Some (t, u) \<and> created s = t \<and>
    now - t \<le> sessionLifetime \<and> now - u \<le> sessionIdle"
proof -
  have t: "traced (session_run es) (logins es)" by (rule traced_run)
  then have "store_wf (session_run es)" by (simp add: traced_def)
  then obtain v where "map_of (session_run es) (sessionKey token) = Some v" "\<not> expired now v" "s = touch now v"
    by (rule lookup_someD [OF _ assms])
  with t show ?thesis by (auto simp: traced_def expired_def touch_def)
qed

theorem request_needs_live_login_witness:
  "\<exists>t u. logins [Login ''tok'' ''csrf'' 5 id] (sessionKey ''tok'') = Some (t, u) \<and>
     (5 :: int) = t \<and> 7 - t \<le> sessionLifetime \<and> 7 - u \<le> sessionIdle"
  using request_needs_live_login [of "''tok''" 7 "[Login ''tok'' ''csrf'' 5 id]"
      "touch 7 (newSession ''csrf'' 5)" "[(sessionKey ''tok'', touch 7 (newSession ''csrf'' 5))]"]
  by (simp add: session_run_def newSessionStore_def create_def make_room_def pruneSessions_def maxSessions_def
      admit_def lookup_session_def expired_def newSession_def sessionLifetime_def sessionIdle_def hour_def
      second_def touch_def Let_def)

text \<open>
  The store never holds more than the maximum number of sessions, in every run.\<close>

theorem sessions_bounded: "length (session_run es) \<le> maxSessions"
  using traced_run [of es] by (simp add: traced_def)

text \<open>
  Signing in always succeeds once the random tokens are drawn, even into a full store:
  the new session answers requests until it has been idle too long, and of the others only
  expired ones and, if that frees no room, one least recently used is gone.\<close>

theorem login_admits:
  assumes "store_wf m" "length m \<le> maxSessions" "token \<noteq> ''''" "now \<le> t" "t - now \<le> sessionIdle"
  shows "\<exists>s m'. create (Inr token :: (unit, string) result) (Inr c) now ord m = (Inr (token, s), m') \<and>
     fst (lookup_session token t m') = Some (touch t (newSession c now)) \<and> length m' \<le> maxSessions \<and>
     (\<forall>k v. (k, v) \<in> set m \<and> k \<noteq> sessionKey token \<and> (k, v) \<notin> set m' \<longrightarrow>
        expired now v \<or> (\<forall>(k', v') \<in> set m'. k' \<noteq> sessionKey token \<longrightarrow> lastSeen v \<le> lastSeen v'))"
proof -
  let ?k = "sessionKey token"
  let ?m = "admit (make_room (now, ord) m) ?k (newSession c now)"
  have wf: "store_wf ?m" "length ?m \<le> maxSessions" "map_of ?m ?k = Some (newSession c now)"
    using session_map.admit_wf [OF assms(1)] session_map.admit_bounded [OF assms(1,2)]
      session_map.admit_stored [OF assms(1)] by simp_all
  have "fst (lookup_session token t ?m) = Some (touch t (newSession c now))"
    using wf assms(3-5) by (auto simp: lookup_session_def Let_def map_of_prune expired_def newSession_def
        sessionIdle_def sessionLifetime_def hour_def second_def)
  moreover have "expired now v \<or> lastSeen v \<le> lastSeen v'"
    if kv: "(k, v) \<in> set m" "k \<noteq> ?k" "(k, v) \<notin> set ?m" and kv': "(k', v') \<in> set ?m" "k' \<noteq> ?k"
    for k v k' v'
    using admit_evicts_oldest [OF assms(1) kv kv'] .
  ultimately show ?thesis using wf(2) by (auto simp: create_def Let_def)
qed

theorem login_admits_witness:
  "\<exists>s m'. create (Inr ''tok'' :: (unit, string) result) (Inr ''c'') 5 id
      [(''other'', newSession ''d'' 0)] = (Inr (''tok'', s), m') \<and>
     fst (lookup_session ''tok'' 6 m') = Some (touch 6 (newSession ''c'' 5)) \<and> length m' \<le> maxSessions"
  using login_admits [of "[(''other'', newSession ''d'' 0)]" "''tok''" 5 6 "''c''" id]
  by (auto simp: store_wf_def maxSessions_def sessionIdle_def hour_def second_def)

end
