(* ===== verification/Netip.thy ===== *)
theory Netip
  imports Gostr "HOL-Library.Char_ord"
begin

text \<open>
  What the sources use of the standard package \<open>net/netip\<close>: addresses of both families (an
  IPv6 one with its zone), the invalid zero address, and prefixes. Overlap, containment and
  masking follow the package; that two prefixes overlap exactly when they share an address is
  proved here and used by the choice of subnets.
\<close>

datatype addr = NoAddr | V4 "32 word" | V6 "128 word" string

definition IsValid :: "addr \<Rightarrow> bool" where
  "IsValid a \<longleftrightarrow> a \<noteq> NoAddr"

fun Is4 :: "addr \<Rightarrow> bool" where
  "Is4 (V4 _) = True"
| "Is4 _ = False"

fun Is6 :: "addr \<Rightarrow> bool" where
  "Is6 (V6 _ _) = True"
| "Is6 _ = False"

fun BitLen :: "addr \<Rightarrow> nat" where
  "BitLen NoAddr = 0"
| "BitLen (V4 _) = 32"
| "BitLen (V6 _ _) = 128"

fun has_zone :: "addr \<Rightarrow> bool" where
  "has_zone (V6 _ z) = (z \<noteq> '''')"
| "has_zone _ = False"

fun without_zone :: "addr \<Rightarrow> addr" where
  "without_zone (V6 w _) = V6 w ''''"
| "without_zone a = a"

fun Next_addr :: "addr \<Rightarrow> addr" where
  "Next_addr NoAddr = NoAddr"
| "Next_addr (V4 w) = (if w = - 1 then NoAddr else V4 (w + 1))"
| "Next_addr (V6 w z) = (if w = - 1 then NoAddr else V6 (w + 1) z)"

definition ip4 :: "nat \<Rightarrow> nat \<Rightarrow> nat \<Rightarrow> nat \<Rightarrow> addr" where
  "ip4 a b c d = V4 (word_of_int (((int a * 256 + int b) * 256 + int c) * 256 + int d))"

definition Is4In6 :: "addr \<Rightarrow> bool" where
  "Is4In6 a = (case a of V6 w _ \<Rightarrow> drop_bit 32 w = 0xffff | _ \<Rightarrow> False)"

definition Unmap :: "addr \<Rightarrow> addr" where
  "Unmap a = (case a of V6 w z \<Rightarrow> if Is4In6 a then V4 (ucast w) else a | _ \<Rightarrow> a)"

definition IsLoopback :: "addr \<Rightarrow> bool" where
  "IsLoopback a =
     (case (if Is4In6 a then Unmap a else a) of
        V4 w \<Rightarrow> drop_bit 24 w = 127
      | V6 w _ \<Rightarrow> w = 1
      | NoAddr \<Rightarrow> False)"

definition IsLinkLocalUnicast :: "addr \<Rightarrow> bool" where
  "IsLinkLocalUnicast a =
     (case (if Is4In6 a then Unmap a else a) of
        V4 w \<Rightarrow> drop_bit 16 w = 0xa9fe
      | V6 w _ \<Rightarrow> drop_bit 118 w = 0x3fa
      | NoAddr \<Rightarrow> False)"

section \<open>Prefixes\<close>

text \<open>The zero prefix has no address; \<^term>\<open>PrefixFrom\<close> of a length out of range is not valid.\<close>

record prefix =
  pAddr :: addr
  pBits :: int

definition zero_prefix :: prefix where
  "zero_prefix = \<lparr>pAddr = NoAddr, pBits = - 1\<rparr>"

definition PrefixFrom :: "addr \<Rightarrow> int \<Rightarrow> prefix" where
  "PrefixFrom a b =
     (let a = without_zone a
      in \<lparr>pAddr = a, pBits = (if IsValid a \<and> 0 \<le> b \<and> b \<le> int (BitLen a) then b else - 1)\<rparr>)"

definition valid_prefix :: "prefix \<Rightarrow> bool" where
  "valid_prefix p \<longleftrightarrow> 0 \<le> pBits p"

text \<open>What every prefix built by the package satisfies.\<close>

definition prefix_wf :: "prefix \<Rightarrow> bool" where
  "prefix_wf p \<longleftrightarrow> (valid_prefix p \<longrightarrow> IsValid (pAddr p) \<and> pBits p \<le> int (BitLen (pAddr p)) \<and> \<not> has_zone (pAddr p))"

text \<open>The address with all but its first \<open>k\<close> bits cleared, and the first \<open>k\<close> bits alone.\<close>

definition mask_word :: "nat \<Rightarrow> 'a::len word \<Rightarrow> 'a word" where
  "mask_word k w = push_bit (LENGTH('a) - k) (drop_bit (LENGTH('a) - k) w)"

definition net_word :: "nat \<Rightarrow> 'a::len word \<Rightarrow> 'a word" where
  "net_word k w = drop_bit (LENGTH('a) - k) w"

fun mask_addr :: "nat \<Rightarrow> addr \<Rightarrow> addr" where
  "mask_addr k (V4 w) = V4 (mask_word k w)"
| "mask_addr k (V6 w z) = V6 (mask_word k w) ''''"
| "mask_addr k NoAddr = NoAddr"

definition Masked :: "prefix \<Rightarrow> prefix" where
  "Masked p = (if valid_prefix p then p\<lparr>pAddr := mask_addr (nat (pBits p)) (pAddr p)\<rparr> else zero_prefix)"

definition prefix_overlaps :: "prefix \<Rightarrow> prefix \<Rightarrow> bool" where
  "prefix_overlaps p q =
     (if \<not> valid_prefix p \<or> \<not> valid_prefix q then False
      else if p = q then True
      else if Is4 (pAddr p) \<noteq> Is4 (pAddr q) then False
      else let k = min (pBits p) (pBits q)
           in if k = 0 then True else mask_addr (nat k) (pAddr p) = mask_addr (nat k) (pAddr q))"

definition Contains :: "prefix \<Rightarrow> addr \<Rightarrow> bool" where
  "Contains p a =
     (if \<not> valid_prefix p \<or> has_zone a then False
      else case (pAddr p, a) of
        (V4 v, V4 w) \<Rightarrow> drop_bit (32 - nat (pBits p)) (w XOR v) = 0
      | (V6 v _, V6 w _) \<Rightarrow> mask_word (nat (pBits p)) (w XOR v) = 0
      | _ \<Rightarrow> False)"

section \<open>Words\<close>

lemma net_word_mono:
  assumes "net_word k v = net_word k w" "j \<le> k"
  shows "net_word j v = net_word j w"
proof -
  have "net_word j x = drop_bit (k - j) (net_word k x)" if "k \<le> LENGTH('a)" for x :: "'a word"
    using that assms(2) by (simp add: net_word_def)
  moreover have "net_word j x = drop_bit (LENGTH('a) - j) x" for x :: "'a word" by (simp add: net_word_def)
  moreover have "v = w" if "\<not> k \<le> LENGTH('a)" using that assms(1) by (simp add: net_word_def)
  ultimately show ?thesis using assms(1) by metis
qed

lemma mask_word_eq_iff: "mask_word k v = mask_word k w \<longleftrightarrow> net_word k v = net_word k w"
  for v w :: "'a::len word"
proof -
  have "drop_bit n (push_bit n (drop_bit n x)) = drop_bit n x" for n and x :: "'a word"
    by (rule bit_eqI) (auto simp: bit_drop_bit_eq bit_push_bit_iff dest: bit_imp_le_length)
  then show ?thesis by (metis mask_word_def net_word_def)
qed

lemma net_word_mask [simp]: "net_word k (mask_word k w) = net_word k w"
proof -
  have "drop_bit n (push_bit n (drop_bit n x)) = drop_bit n x" for n and x :: "'a word"
    by (rule bit_eqI) (auto simp: bit_drop_bit_eq bit_push_bit_iff dest: bit_imp_le_length)
  then show ?thesis by (simp add: mask_word_def net_word_def)
qed

lemma mask_word_mask [simp]: "mask_word k (mask_word k w) = mask_word k w"
  by (simp add: mask_word_eq_iff)

lemma xor_eq_0_iff_eq: "v XOR w = 0 \<longleftrightarrow> v = w" for v w :: "'a::len word"
  by (auto simp: bit_eq_iff bit_xor_iff)

lemma net_word_xor: "net_word k (v XOR w) = 0 \<longleftrightarrow> net_word k v = net_word k w"
  by (simp add: net_word_def drop_bit_xor xor_eq_0_iff_eq)

lemma mask_word_xor: "mask_word k (v XOR w) = 0 \<longleftrightarrow> net_word k v = net_word k w"
proof -
  have "mask_word k (v XOR w) = mask_word k 0 \<longleftrightarrow> net_word k (v XOR w) = net_word k 0"
    by (rule mask_word_eq_iff)
  then show ?thesis by (simp add: mask_word_def net_word_xor) (simp add: net_word_def drop_bit_xor xor_eq_0_iff_eq)
qed

lemma net_word_0 [simp]: "net_word 0 w = 0"
  unfolding net_word_def by (rule bit_eqI) (auto simp: bit_drop_bit_eq dest: bit_imp_le_length)

section \<open>Sharing an address\<close>

fun same_net :: "nat \<Rightarrow> addr \<Rightarrow> addr \<Rightarrow> bool" where
  "same_net k (V4 v) (V4 w) \<longleftrightarrow> net_word k v = net_word k w"
| "same_net k (V6 v _) (V6 w _) \<longleftrightarrow> net_word k v = net_word k w"
| "same_net k _ _ \<longleftrightarrow> False"

lemma same_net_sym: "same_net k a b \<longleftrightarrow> same_net k b a"
  by (cases a; cases b) auto

lemma same_net_trans: "same_net k a b \<Longrightarrow> same_net k b c \<Longrightarrow> same_net k a c"
  by (cases a; cases b; cases c) auto

lemma same_net_mono: "same_net k a b \<Longrightarrow> j \<le> k \<Longrightarrow> same_net j a b"
  by (cases a; cases b) (auto dest: net_word_mono)

lemma same_net_refl [simp]: "same_net k a a \<longleftrightarrow> IsValid a"
  by (cases a) (auto simp: IsValid_def)

lemma same_net_mask [simp]:
  "same_net k (mask_addr k a) b \<longleftrightarrow> same_net k a b" "same_net k a (mask_addr k b) \<longleftrightarrow> same_net k a b"
  by (cases a; cases b; simp)+

lemma Contains_iff: "Contains p a \<longleftrightarrow> valid_prefix p \<and> \<not> has_zone a \<and> same_net (nat (pBits p)) (pAddr p) a"
  by (cases "pAddr p"; cases a)
     (auto simp: Contains_def IsValid_def mask_word_xor net_word_xor [unfolded net_word_def, where ?'a = 32, simplified]
       net_word_def [where ?'a = 32])

lemma overlaps_iff:
  assumes "prefix_wf p" "prefix_wf q" "valid_prefix p" "valid_prefix q"
  shows "prefix_overlaps p q \<longleftrightarrow> same_net (nat (min (pBits p) (pBits q))) (pAddr p) (pAddr q)"
proof (cases "p = q")
  case True
  with assms show ?thesis by (simp add: prefix_overlaps_def prefix_wf_def)
next
  case False
  with assms show ?thesis
    by (cases "pAddr p"; cases "pAddr q")
       (auto simp: prefix_overlaps_def prefix_wf_def IsValid_def Let_def mask_word_eq_iff min_def valid_prefix_def)
qed

text \<open>Two prefixes overlap exactly when some address is in both.\<close>

lemma overlaps_iff_common:
  assumes "prefix_wf p" "prefix_wf q"
  shows "prefix_overlaps p q \<longleftrightarrow> (\<exists>a. Contains p a \<and> Contains q a)"
proof (cases "valid_prefix p \<and> valid_prefix q")
  case False
  then show ?thesis by (auto simp: prefix_overlaps_def Contains_iff)
next
  case True
  then have v: "valid_prefix p" "valid_prefix q" by simp_all
  let ?k = "nat (min (pBits p) (pBits q))"
  have le: "?k \<le> nat (pBits p)" "?k \<le> nat (pBits q)" by auto
  show ?thesis unfolding overlaps_iff [OF assms v]
  proof
    assume s: "same_net ?k (pAddr p) (pAddr q)"
    have z: "\<not> has_zone (pAddr p)" "\<not> has_zone (pAddr q)" "IsValid (pAddr p)" "IsValid (pAddr q)"
      using assms v by (auto simp: prefix_wf_def)
    show "\<exists>a. Contains p a \<and> Contains q a"
    proof (cases "pBits p \<le> pBits q")
      case True
      with s z v show ?thesis by (intro exI [of _ "pAddr q"]) (simp add: Contains_iff min_def)
    next
      case False
      with s z v show ?thesis
        by (intro exI [of _ "pAddr p"]) (simp add: Contains_iff min_def same_net_sym)
    qed
  next
    assume "\<exists>a. Contains p a \<and> Contains q a"
    then obtain a where "same_net (nat (pBits p)) (pAddr p) a" "same_net (nat (pBits q)) (pAddr q) a"
      by (auto simp: Contains_iff)
    then show "same_net ?k (pAddr p) (pAddr q)"
      using le by (meson same_net_mono same_net_sym same_net_trans)
  qed
qed

lemma Contains_Masked [simp]: "valid_prefix p \<Longrightarrow> Contains (Masked p) a = Contains p a"
  by (simp add: Contains_iff Masked_def) (simp add: valid_prefix_def)

lemma Masked_wf: "prefix_wf p \<Longrightarrow> prefix_wf (Masked p)"
  by (cases "pAddr p") (auto simp: prefix_wf_def Masked_def valid_prefix_def IsValid_def zero_prefix_def)

lemma valid_Masked [simp]: "valid_prefix (Masked p) = valid_prefix p"
  by (simp add: Masked_def valid_prefix_def zero_prefix_def)

lemma PrefixFrom_wf: "prefix_wf (PrefixFrom a b)"
  by (cases a) (auto simp: prefix_wf_def PrefixFrom_def Let_def valid_prefix_def)

section \<open>Text\<close>

definition octets :: "32 word \<Rightarrow> nat list" where
  "octets w = map (\<lambda>i. unat (drop_bit (24 - 8 * i) w AND 255)) [0..<4]"

definition string4 :: "32 word \<Rightarrow> string" where
  "string4 w = join ''.'' (map nat_to_string (octets w))"

definition groups :: "128 word \<Rightarrow> nat list" where
  "groups w = map (\<lambda>i. unat (drop_bit (112 - 16 * i) w AND 0xffff)) [0..<8]"

fun hex_nat :: "nat \<Rightarrow> string" where
  "hex_nat n = (if n < 16 then [hex_digit n] else hex_nat (n div 16) @ [hex_digit (n mod 16)])"

declare hex_nat.simps [simp del]

text \<open>The first longest run of at least two zero groups, as its start and end.\<close>

definition zero_run :: "nat list \<Rightarrow> nat \<times> nat" where
  "zero_run gs = fold (\<lambda>i (s, e).
     let l = length (takeWhile ((=) 0) (drop i gs))
     in if 2 \<le> l \<and> e - s < l then (i, i + l) else (s, e)) [0..<8] (255, 255)"

definition string6 :: "128 word \<Rightarrow> string" where
  "string6 w =
     (let gs = groups w; (s, e) = zero_run gs; hs = map hex_nat gs
      in if s = 255 then join '':'' hs
         else join '':'' (take s hs) @ ''::'' @ join '':'' (drop e hs))"

fun addr_string :: "addr \<Rightarrow> string" where
  "addr_string NoAddr = ''invalid IP''"
| "addr_string (V4 w) = string4 w"
| "addr_string (V6 w z) =
     (if Is4In6 (V6 w z) then ''::ffff:'' @ string4 (ucast w) else string6 w)
     @ (if z = '''' then '''' else ''%'' @ z)"

definition prefix_string :: "prefix \<Rightarrow> string" where
  "prefix_string p =
     (if \<not> valid_prefix p then ''invalid Prefix''
      else addr_string (pAddr p) @ ''/'' @ int_to_string (pBits p))"

section \<open>Parsing\<close>

text \<open>\<open>netip.ParseAddr\<close>: four decimal fields without leading zeros, or the groups of an IPv6
  address with at most one ellipsis, an optional trailing IPv4 part and an optional zone.\<close>

definition parse_octet :: "string \<Rightarrow> nat option" where
  "parse_octet s =
     (if s = [] \<or> (1 < length s \<and> hd s = CHR ''0'') then None
      else case parse_nat s of Some n \<Rightarrow> if n \<le> 255 then Some n else None | None \<Rightarrow> None)"

definition parse4_fields :: "string \<Rightarrow> (nat \<times> nat \<times> nat \<times> nat) option" where
  "parse4_fields s =
     (case map parse_octet (split_char CHR ''.'' s) of
        [Some a, Some b, Some c, Some d] \<Rightarrow> Some (a, b, c, d)
      | _ \<Rightarrow> None)"

definition hex_value :: "char \<Rightarrow> nat option" where
  "hex_value c =
     (if is_digit c then Some (of_char c - 48)
      else if CHR ''a'' \<le> c \<and> c \<le> CHR ''f'' then Some (of_char c - 87)
      else if CHR ''A'' \<le> c \<and> c \<le> CHR ''F'' then Some (of_char c - 55)
      else None)"

definition hex_field :: "string \<Rightarrow> nat" where
  "hex_field s = fold (\<lambda>c acc. 16 * acc + (case hex_value c of Some d \<Rightarrow> d | None \<Rightarrow> 0)) s 0"

function parse6_loop :: "nat list \<Rightarrow> nat option \<Rightarrow> string \<Rightarrow> (nat list \<times> nat option \<times> string) option" where
  "parse6_loop gs ell s =
     (if 8 \<le> length gs then Some (gs, ell, s)
      else let ds = takeWhile (\<lambda>c. hex_value c \<noteq> None) s; rest = drop (length ds) s
      in if ds = [] \<or> 4 < length ds then None
      else if rest \<noteq> [] \<and> hd rest = CHR ''.'' then
        (if (ell = None \<and> length gs \<noteq> 6) \<or> 6 < length gs then None
         else case parse4_fields s of
           None \<Rightarrow> None
         | Some (a, b, c, d) \<Rightarrow> Some (gs @ [a * 256 + b, c * 256 + d], ell, ''''))
      else let gs = gs @ [hex_field ds]
      in case rest of
           [] \<Rightarrow> Some (gs, ell, '''')
         | c # rest1 \<Rightarrow>
             if c \<noteq> CHR '':'' then None
             else case rest1 of
               [] \<Rightarrow> None
             | c2 # rest2 \<Rightarrow>
                 if c2 = CHR '':'' then
                   (if ell \<noteq> None then None
                    else if rest2 = [] then Some (gs, Some (length gs), '''')
                    else parse6_loop gs (Some (length gs)) rest2)
                 else parse6_loop gs ell rest1)"
  by pat_completeness auto
termination
proof (relation "measure (\<lambda>(gs, ell, s). length s)")
  fix gs :: "nat list" and ell :: "nat option" and s ds rest gs' c rest1 c2 rest2
  assume "ds = takeWhile (\<lambda>c. hex_value c \<noteq> None) s" "rest = drop (length ds) s" "rest = c # rest1" "rest1 = c2 # rest2"
  then have "length (c # c2 # rest2) \<le> length s" and "rest1 = c2 # rest2"
    by (metis diff_le_self length_drop, simp)
  then show "((gs', Some (length gs'), rest2), (gs, ell, s)) \<in> measure (\<lambda>(gs, ell, s). length s)"
    and "((gs', ell, rest1), (gs, ell, s)) \<in> measure (\<lambda>(gs, ell, s). length s)"
    by simp_all
qed simp

declare parse6_loop.simps [simp del]

definition groups_word :: "nat list \<Rightarrow> 128 word" where
  "groups_word gs = fold (\<lambda>g w. push_bit 16 w OR word_of_int (int g)) gs 0"

definition expand6 :: "nat list \<Rightarrow> nat option \<Rightarrow> nat list option" where
  "expand6 gs ell =
     (if length gs < 8 then
        (case ell of None \<Rightarrow> None
         | Some e \<Rightarrow> Some (take e gs @ replicate (8 - length gs) 0 @ drop e gs))
      else if ell \<noteq> None then None else Some gs)"

definition parse6 :: "string \<Rightarrow> addr option" where
  "parse6 inp =
     (let s = takeWhile (\<lambda>c. c \<noteq> CHR ''%'') inp;
          zoned = CHR ''%'' \<in> set inp;
          zone = drop (Suc (length s)) inp
      in if zoned \<and> zone = '''' then None
         else let lead = has_prefix s ''::''; s = (if lead then drop 2 s else s)
         in if lead \<and> s = '''' then Some (V6 0 zone)
            else case parse6_loop [] (if lead then Some 0 else None) s of
              None \<Rightarrow> None
            | Some (gs, ell, rest) \<Rightarrow>
                if rest \<noteq> '''' then None
                else map_option (\<lambda>gs. V6 (groups_word gs) zone) (expand6 gs ell))"

definition ParseAddr :: "string \<Rightarrow> addr option" where
  "ParseAddr s =
     (case List.find (\<lambda>c. c = CHR ''.'' \<or> c = CHR '':'' \<or> c = CHR ''%'') s of
        None \<Rightarrow> None
      | Some c \<Rightarrow>
          if c = CHR ''.'' then map_option (\<lambda>(a, b, c, d). ip4 a b c d) (parse4_fields s)
          else if c = CHR '':'' then parse6 s
          else None)"

end
