(* ===== verification/Subnet.thy ===== *)
theory Subnet
  imports Netip
begin

text \<open>
  The choice of subnets and of the addresses on them (\<open>internal/netcfg/subnet.go\<close>).
\<close>

definition Overlaps :: "prefix \<Rightarrow> prefix \<Rightarrow> bool" where
  "Overlaps a b =
     (if \<not> valid_prefix a \<or> \<not> valid_prefix b then False
      else if Is4 (pAddr a) \<noteq> Is4 (pAddr b) then False
      else prefix_overlaps (Masked a) (Masked b))"

definition DefaultHotspotPool :: "prefix list" where
  "DefaultHotspotPool =
     [PrefixFrom (ip4 10 83 51 0) 24, PrefixFrom (ip4 10 174 29 0) 24,
      PrefixFrom (ip4 172 28 113 0) 24, PrefixFrom (ip4 172 19 207 0) 24,
      PrefixFrom (ip4 192 168 173 0) 24, PrefixFrom (ip4 192 168 221 0) 24,
      PrefixFrom (ip4 10 41 62 0) 24, PrefixFrom (ip4 10 216 7 0) 24]"

definition DefaultTunnelPool :: "prefix list" where
  "DefaultTunnelPool =
     [PrefixFrom (ip4 198 18 51 0) 30, PrefixFrom (ip4 198 18 83 0) 30, PrefixFrom (ip4 198 19 29 0) 30]"

datatype subnet_error =
    NoFreeSubnet nat nat
  | InvalidPrefix
  | TooSmallForGateway prefix
  | NoUsableHost prefix
  | NoSecondHost prefix

fun first_free :: "prefix list \<Rightarrow> prefix list \<Rightarrow> prefix option" where
  "first_free [] taken = None"
| "first_free (cand # pool) taken =
     (if list_ex (Overlaps cand) taken then first_free pool taken else Some (Masked cand))"

definition ChooseSubnet :: "prefix list \<Rightarrow> prefix list \<Rightarrow> (subnet_error, prefix) result" where
  "ChooseSubnet pool taken =
     (case first_free pool taken of
        Some p \<Rightarrow> Inr p
      | None \<Rightarrow> Inl (NoFreeSubnet (length pool) (length taken)))"

definition GatewayAddr :: "prefix \<Rightarrow> (subnet_error, addr) result" where
  "GatewayAddr p =
     (if \<not> valid_prefix p then Inl InvalidPrefix
      else if Is4 (pAddr p) \<and> pBits p > 30 then Inl (TooSmallForGateway p)
      else let a = Next_addr (pAddr (Masked p))
           in if \<not> IsValid a \<or> \<not> Contains p a then Inl (NoUsableHost p) else Inr a)"

definition PeerAddr :: "prefix \<Rightarrow> (subnet_error, addr) result" where
  "PeerAddr p =
     (case GatewayAddr p of
        Inl e \<Rightarrow> Inl e
      | Inr gw \<Rightarrow>
          let a = Next_addr gw
          in if \<not> IsValid a \<or> \<not> Contains p a then Inl (NoSecondHost p) else Inr a)"

lemma Overlaps_iff_common:
  assumes "prefix_wf a" "prefix_wf b"
  shows "Overlaps a b \<longleftrightarrow> (\<exists>x. Contains a x \<and> Contains b x)"
proof (cases "valid_prefix a \<and> valid_prefix b")
  case True
  then have "prefix_overlaps (Masked a) (Masked b) \<longleftrightarrow> (\<exists>x. Contains a x \<and> Contains b x)"
    using overlaps_iff_common [OF Masked_wf [OF assms(1)] Masked_wf [OF assms(2)]] by simp
  moreover have "Is4 (pAddr a) = Is4 (pAddr b)" if "Contains a x" "Contains b x" for x
    using that by (cases "pAddr a"; cases "pAddr b"; cases x) (auto simp: Contains_iff)
  ultimately show ?thesis using True by (auto simp: Overlaps_def)
next
  case False
  then show ?thesis by (auto simp: Overlaps_def Contains_iff)
qed

lemma first_free_Some:
  assumes "first_free pool taken = Some p"
  obtains xs c ys where "pool = xs @ c # ys" "p = Masked c" "\<not> list_ex (Overlaps c) taken"
    "\<forall>x \<in> set xs. list_ex (Overlaps x) taken"
  using assms
proof (induction pool arbitrary: thesis)
  case (Cons c pool)
  show ?case
  proof (cases "list_ex (Overlaps c) taken")
    case True
    with Cons.prems(2) Cons.IH obtain xs d ys where "pool = xs @ d # ys" "p = Masked d"
      "\<not> list_ex (Overlaps d) taken" "\<forall>x \<in> set xs. list_ex (Overlaps x) taken" by auto
    with True show ?thesis by (intro Cons.prems(1) [of "c # xs" d ys]) auto
  next
    case False
    with Cons.prems(2) show ?thesis by (intro Cons.prems(1) [of "[]" c pool]) auto
  qed
qed simp

lemma first_free_apart:
  assumes "\<forall>p \<in> set pool \<union> set taken. prefix_wf p" "first_free pool taken = Some p" "t \<in> set taken"
  shows "\<not> (Contains p a \<and> Contains t a)"
proof -
  obtain c where c: "c \<in> set pool" "p = Masked c" "\<not> list_ex (Overlaps c) taken"
    using first_free_Some [OF assms(2)] by (metis in_set_conv_decomp)
  have "\<not> Overlaps c t" "prefix_wf c" "prefix_wf t"
    using c assms(1,3) by (auto simp: list_ex_iff)
  then have no: "\<not> (Contains c a \<and> Contains t a)"
    using Overlaps_iff_common [of c t] by blast
  show ?thesis
  proof (cases "valid_prefix c")
    case True
    with no show ?thesis by (simp add: c(2))
  next
    case False
    then show ?thesis by (simp add: c(2) Contains_iff)
  qed
qed

lemma ChooseSubnet_apart:
  assumes "ChooseSubnet pool taken = Inr p" "\<forall>p \<in> set pool \<union> set taken. prefix_wf p" "t \<in> set taken"
  shows "\<not> (Contains p a \<and> Contains t a)"
  using assms first_free_apart by (auto simp: ChooseSubnet_def split: option.splits)

lemma ChooseSubnet_wf:
  assumes "ChooseSubnet pool taken = Inr p" "\<forall>p \<in> set pool. prefix_wf p"
  shows "prefix_wf p"
proof -
  have "first_free pool taken = Some p"
    using assms(1) by (simp add: ChooseSubnet_def split: option.splits)
  then obtain xs c ys where "pool = xs @ c # ys" "p = Masked c" by (rule first_free_Some)
  with assms(2) show ?thesis by (simp add: Masked_wf)
qed

lemma GatewayAddr_in: "GatewayAddr p = Inr a \<Longrightarrow> Contains p a"
  by (auto simp: GatewayAddr_def Let_def split: if_splits)

lemma PeerAddr_in: "PeerAddr p = Inr a \<Longrightarrow> Contains p a"
  by (auto simp: PeerAddr_def Let_def split: if_splits sum.splits)

lemma first_free_None: "first_free pool taken = None \<longleftrightarrow> (\<forall>c \<in> set pool. list_ex (Overlaps c) taken)"
  by (induction pool) auto

lemma mask_word_plus:
  fixes w :: "32 word"
  assumes "k \<le> 30" "c = 1 \<or> c = 2"
  shows "net_word k (mask_word k w + c) = net_word k w" "mask_word k w + c = mask_word k w OR c"
proof -
  have low: "bit c i \<Longrightarrow> i < 2" for i
    using assms(2) by (auto simp: bit_1_iff bit_numeral_rec split: nat.splits)
  have "mask_word k w AND c = 0"
    by (rule bit_eqI) (use low assms(1) in \<open>force simp: bit_and_iff mask_word_def bit_push_bit_iff\<close>)
  then show or: "mask_word k w + c = mask_word k w OR c" by (rule disjunctive_add_eq_or)
  have "drop_bit (32 - k) c = 0"
    by (rule bit_eqI) (use low assms(1) in \<open>force simp: bit_drop_bit_eq\<close>)
  then show "net_word k (mask_word k w + c) = net_word k w"
    using net_word_mask [of k w] by (simp add: or net_word_def drop_bit_or)
qed

section \<open>Properties\<close>

text \<open>
  The subnet that is chosen shares no address with any network the machine is on, is the
  network of a candidate of the pool, and every candidate before it was taken; the choice fails
  only if every candidate shares an address with a network in use.\<close>

theorem ChooseSubnet_disjoint:
  assumes "\<forall>p \<in> set pool \<union> set taken. prefix_wf p"
  shows "case ChooseSubnet pool taken of
      Inr p \<Rightarrow> (\<exists>xs c ys. pool = xs @ c # ys \<and> p = Masked c \<and>
          (\<forall>x \<in> set xs. \<exists>t \<in> set taken. \<exists>a. Contains x a \<and> Contains t a)) \<and>
          (\<forall>t \<in> set taken. \<forall>a. \<not> (Contains p a \<and> Contains t a))
    | Inl e \<Rightarrow> \<forall>c \<in> set pool. \<exists>t \<in> set taken. \<exists>a. Contains c a \<and> Contains t a"
proof (cases "first_free pool taken")
  case None
  then have "\<forall>c \<in> set pool. \<exists>t \<in> set taken. \<exists>a. Contains c a \<and> Contains t a"
    using assms by (auto simp: first_free_None list_ex_iff Overlaps_iff_common)
  with None show ?thesis by (simp add: ChooseSubnet_def)
next
  case (Some p)
  then obtain xs c ys where p: "pool = xs @ c # ys" "p = Masked c" "\<not> list_ex (Overlaps c) taken"
    "\<forall>x \<in> set xs. list_ex (Overlaps x) taken" by (rule first_free_Some)
  have "\<not> (Contains p a \<and> Contains t a)" if "t \<in> set taken" for t a
    using first_free_apart [OF _ Some that] assms by auto
  moreover have "\<forall>x \<in> set xs. \<exists>t \<in> set taken. \<exists>a. Contains x a \<and> Contains t a"
    using p(1,4) assms by (auto simp: list_ex_iff Overlaps_iff_common)
  ultimately show ?thesis using Some p by (auto simp: ChooseSubnet_def)
qed

theorem ChooseSubnet_disjoint_witness:
  "case ChooseSubnet DefaultHotspotPool [PrefixFrom (ip4 10 0 0 0) 8] of
      Inr p \<Rightarrow> \<forall>a. \<not> (Contains p a \<and> Contains (PrefixFrom (ip4 10 0 0 0) 8) a)
    | Inl e \<Rightarrow> \<forall>c \<in> set DefaultHotspotPool. \<exists>a. Contains c a \<and> Contains (PrefixFrom (ip4 10 0 0 0) 8) a"
  using ChooseSubnet_disjoint [of DefaultHotspotPool "[PrefixFrom (ip4 10 0 0 0) 8]"]
  by (auto simp: DefaultHotspotPool_def PrefixFrom_wf split: sum.splits)

text \<open>
  On every IPv4 subnet of up to thirty prefix bits the box and its peer get addresses of
  the subnet: both exist, are inside, differ from each other and from the network address.\<close>

theorem gateway_and_peer_inside:
  assumes "pAddr p = V4 w" "0 \<le> pBits p" "pBits p \<le> 30"
  shows "\<exists>gw peer. GatewayAddr p = Inr gw \<and> PeerAddr p = Inr peer \<and> Contains p gw \<and> Contains p peer \<and>
    distinct [pAddr (Masked p), gw, peer]"
proof -
  let ?k = "nat (pBits p)" and ?m = "mask_word (nat (pBits p)) w"
  have k: "?k \<le> 30" using assms(3) by simp
  note one = mask_word_plus [OF k, of 1 w] and two = mask_word_plus [OF k, of 2 w]
  have m: "pAddr (Masked p) = V4 ?m" using assms by (simp add: Masked_def valid_prefix_def)
  have c: "Contains p (V4 (?m + 1))" "Contains p (V4 (?m + 2))"
    using one(1) two(1) assms by (auto simp: Contains_iff valid_prefix_def)
  have top: "?m \<noteq> - 1" "?m + 1 \<noteq> - 1"
  proof -
    have b: "\<not> bit ?m 0" "\<not> bit ?m 1" using k by (simp_all add: mask_word_def bit_push_bit_iff)
    have all: "bit (- 1 :: 32 word) 1" by (simp add: bit_minus_1_iff)
    with b show "?m \<noteq> - 1" by metis
    have "\<not> bit (?m + 1) 1" using one(2) b by (simp add: bit_or_iff bit_1_iff)
    with all show "?m + 1 \<noteq> - 1" by metis
  qed
  have g: "GatewayAddr p = Inr (V4 (?m + 1))"
    using assms m c top by (simp add: GatewayAddr_def valid_prefix_def IsValid_def)
  then have "PeerAddr p = Inr (V4 (?m + 2))"
    using c top by (simp add: PeerAddr_def IsValid_def add.assoc)
  with g c m show ?thesis by (intro exI [of _ "V4 (?m + 1)"] exI [of _ "V4 (?m + 2)"]) simp
qed

theorem gateway_and_peer_inside_witness:
  "\<exists>gw peer. GatewayAddr (PrefixFrom (ip4 198 18 51 0) 30) = Inr gw \<and> PeerAddr (PrefixFrom (ip4 198 18 51 0) 30) = Inr peer \<and>
     Contains (PrefixFrom (ip4 198 18 51 0) 30) gw \<and> Contains (PrefixFrom (ip4 198 18 51 0) 30) peer"
  using gateway_and_peer_inside [of "PrefixFrom (ip4 198 18 51 0) 30" "word_of_int 3323081472"]
  by (auto simp: PrefixFrom_def ip4_def IsValid_def Let_def)

end
