(* ===== verification/Command.thy ===== *)
theory Command
  imports Gostr Sha256
begin

text \<open>
  Commands, how they are checked before they run, and how their outcome is read
  (\<open>internal/netcfg/command.go\<close>, \<open>idempotence.go\<close>, \<open>platform.go\<close>, \<open>recorder.go\<close>, and the
  \<open>Step\<close> of \<open>route.go\<close>). A runner is a function from a command and a world to a result, an
  optional error (its message) and the next world: the kernel and the tools behind it are a
  parameter of everything that runs commands. The recorder, which the program also uses for a
  dry run, is one such runner.
\<close>

section \<open>Platforms and the allowlist\<close>

type_synonym platform = string

definition PlatformLinux :: platform where "PlatformLinux = ''linux''"
definition PlatformDarwin :: platform where "PlatformDarwin = ''darwin''"
definition PlatformWindows :: platform where "PlatformWindows = ''windows''"

lemmas platform_defs = PlatformLinux_def PlatformDarwin_def PlatformWindows_def

definition BinIP :: string where "BinIP = ''ip''"
definition BinIw :: string where "BinIw = ''iw''"
definition BinNft :: string where "BinNft = ''nft''"
definition BinSysctl :: string where "BinSysctl = ''sysctl''"
definition BinNmcli :: string where "BinNmcli = ''nmcli''"
definition BinRoute :: string where "BinRoute = ''route''"
definition BinIfconfig :: string where "BinIfconfig = ''ifconfig''"
definition BinPfctl :: string where "BinPfctl = ''pfctl''"
definition BinNetworksetup :: string where "BinNetworksetup = ''networksetup''"
definition BinIPHelper :: string where "BinIPHelper = ''iphlpapi''"
definition BinWFP :: string where "BinWFP = ''wfp''"
definition BinWintun :: string where "BinWintun = ''wintun''"

lemmas bin_defs = BinIP_def BinIw_def BinNft_def BinSysctl_def BinNmcli_def BinRoute_def BinIfconfig_def
  BinPfctl_def BinNetworksetup_def BinIPHelper_def BinWFP_def BinWintun_def

definition allowedBinaries :: "string list" where
  "allowedBinaries = [BinIP, BinIw, BinNft, BinSysctl, BinNmcli]"

definition darwinAllowedBinaries :: "string list" where
  "darwinAllowedBinaries = [BinRoute, BinIfconfig, BinPfctl, BinSysctl, BinNetworksetup]"

definition windowsAllowedBinaries :: "string list" where
  "windowsAllowedBinaries = [BinIPHelper, BinWFP, BinWintun]"

text \<open>The \<open>AllowedBinaries\<close> of the backend that \<open>BackendFor\<close> selects.\<close>

definition BackendAllowed :: "platform \<Rightarrow> string list" where
  "BackendAllowed pl =
     (let pl = (if pl = '''' then PlatformLinux else pl)
      in if pl = PlatformLinux then allowedBinaries
         else if pl = PlatformDarwin then darwinAllowedBinaries
         else if pl = PlatformWindows then windowsAllowedBinaries
         else [])"

section \<open>Commands\<close>

record command =
  Path :: string
  Args :: "string list"
  Stdin :: string
  cmdWhy :: string

definition zero_command :: command where
  "zero_command = \<lparr>Path = '''', Args = [], Stdin = '''', cmdWhy = ''''\<rparr>"

definition mk_command :: "string \<Rightarrow> string list \<Rightarrow> string \<Rightarrow> command" where
  "mk_command p as why = \<lparr>Path = p, Args = as, Stdin = '''', cmdWhy = why\<rparr>"

definition IsZero :: "command \<Rightarrow> bool" where
  "IsZero c \<longleftrightarrow> Path c = '''' \<and> Args c = []"

datatype command_error = EmptyCommand | DisallowedBinary string | NulInArgument nat string

fun nul_argument :: "nat \<Rightarrow> string list \<Rightarrow> nat option" where
  "nul_argument i [] = None"
| "nul_argument i (a # as) = (if CHR 0x00 \<in> set a then Some i else nul_argument (Suc i) as)"

definition validate_with :: "string list \<Rightarrow> command \<Rightarrow> command_error option" where
  "validate_with allowed c =
     (if IsZero c then Some EmptyCommand
      else if Path c \<notin> set allowed then Some (DisallowedBinary (Path c))
      else map_option (\<lambda>i. NulInArgument i (Path c)) (nul_argument 0 (Args c)))"

definition ValidateCommand :: "command \<Rightarrow> command_error option" where
  "ValidateCommand c = validate_with allowedBinaries c"

definition ValidateCommandOn :: "platform \<Rightarrow> command \<Rightarrow> command_error option" where
  "ValidateCommandOn pl c = validate_with (BackendAllowed pl) c"

definition iface_char :: "char \<Rightarrow> bool" where
  "iface_char c \<longleftrightarrow> is_alnum c \<or> c \<in> set ''_.:-''"

definition ValidInterfaceName :: "string \<Rightarrow> bool" where
  "ValidInterfaceName n \<longleftrightarrow> 1 \<le> length n \<and> length n \<le> 15 \<and> list_all iface_char n"

definition windows_iface_char :: "char \<Rightarrow> bool" where
  "windows_iface_char c \<longleftrightarrow> is_alnum c \<or> c \<in> set '' _.()#*:-''"

definition ValidInterfaceNameOn :: "platform \<Rightarrow> string \<Rightarrow> bool" where
  "ValidInterfaceNameOn pl n =
     (if pl = PlatformWindows
      then 1 \<le> length n \<and> length n \<le> 255 \<and> list_all windows_iface_char n
      else ValidInterfaceName n)"

section \<open>Identity of a command\<close>

definition CommandLine :: "command \<Rightarrow> string" where
  "CommandLine c = (if Args c = [] then Path c else Path c @ '' '' @ join '' '' (Args c))"

definition RunnerKey :: "command \<Rightarrow> string" where
  "RunnerKey c =
     (let k = CommandLine c
      in if Stdin c = '''' then k else k @ '' <stdin:'' @ hex (take 8 (sha256 (Stdin c))) @ ''>'')"

section \<open>Reading outcomes\<close>

record cmd_result =
  Stdout :: string
  Stderr :: string
  ExitCode :: int

definition no_result :: cmd_result where
  "no_result = \<lparr>Stdout = '''', Stderr = '''', ExitCode = 0\<rparr>"

text \<open>A Go \<open>error\<close> is \<^term>\<open>None\<close> or \<^term>\<open>Some msg\<close>.\<close>

type_synonym goerror = "string option"
type_synonym 'w runner = "command \<Rightarrow> 'w \<Rightarrow> (cmd_result \<times> goerror) \<times> 'w"

record already_applied =
  Query :: command
  Satisfied :: "cmd_result \<Rightarrow> goerror \<Rightarrow> bool"

definition alreadyExistsMarkers :: "string list" where
  "alreadyExistsMarkers = [''file exists'', ''object exists'']"

definition notFoundMarkers :: "string list" where
  "notFoundMarkers = [''no such device'', ''no such file or directory'', ''no such process'',
     ''cannot find device'', ''cannot assign requested address'', ''not in table'']"

definition marked :: "string list \<Rightarrow> cmd_result \<Rightarrow> goerror \<Rightarrow> bool" where
  "marked ms res err =
     (case err of None \<Rightarrow> False
      | Some msg \<Rightarrow> list_ex (str_contains (to_lower (Stderr res @ '' '' @ msg))) ms)"

definition IsAlreadyExists :: "cmd_result \<Rightarrow> goerror \<Rightarrow> bool" where
  "IsAlreadyExists = marked alreadyExistsMarkers"

definition IsNotFound :: "cmd_result \<Rightarrow> goerror \<Rightarrow> bool" where
  "IsNotFound = marked notFoundMarkers"

definition ifacePresent :: "string \<Rightarrow> already_applied" where
  "ifacePresent name =
     \<lparr>Query = mk_command BinIP [''-br'', ''link'', ''show'', ''dev'', name]
        ''iw's refusal when the interface name is taken is not a wording this package has measured, so it asks instead of relying on the error'',
      Satisfied = (\<lambda>res err. err = None \<and> trim_space (Stdout res) \<noteq> '''')\<rparr>"

fun removes_args :: "string list \<Rightarrow> bool" where
  "removes_args [] = False"
| "removes_args (a # as) =
     (if a = ''del'' \<or> a = ''delete'' then True
      else if a = ''add'' \<or> a = ''replace'' \<or> a = ''set'' then False
      else removes_args as)"

definition commandRemoves :: "command \<Rightarrow> bool" where
  "commandRemoves c = removes_args (Args c)"

section \<open>Steps\<close>

definition OpSysctl :: string where "OpSysctl = ''sysctl''"
definition OpAddr :: string where "OpAddr = ''addr''"
definition OpLink :: string where "OpLink = ''link''"
definition OpRoute :: string where "OpRoute = ''route''"
definition OpRule :: string where "OpRule = ''rule''"
definition OpNft :: string where "OpNft = ''nft''"
definition OpProxy :: string where "OpProxy = ''proxy''"
definition OpCreateIface :: string where "OpCreateIface = ''iface''"
definition OpPf :: string where "OpPf = ''pf''"
definition OpWFP :: string where "OpWFP = ''wfp''"
definition OpWintun :: string where "OpWintun = ''wintun''"

lemmas op_defs = OpSysctl_def OpAddr_def OpLink_def OpRoute_def OpRule_def OpNft_def OpProxy_def
  OpCreateIface_def OpPf_def OpWFP_def OpWintun_def

record step =
  Op :: string
  Why :: string
  Do :: command
  Undo :: command
  Pre :: "already_applied option"

section \<open>The recorder\<close>

record recorder =
  cmds :: "command list"
  recPlatform :: platform
  Responses :: "(string, cmd_result) gomap"
  Errors :: "(string, goerror) gomap"
  Fallback :: "(command \<Rightarrow> cmd_result \<times> goerror) option"

definition NewRecordingRunner :: recorder where
  "NewRecordingRunner = \<lparr>cmds = [], recPlatform = '''', Responses = [], Errors = [], Fallback = None\<rparr>"

definition command_error_text :: "command_error \<Rightarrow> string" where
  "command_error_text e =
     (case e of EmptyCommand \<Rightarrow> ''netcfg: empty command''
      | DisallowedBinary p \<Rightarrow> ''netcfg: command names a binary that is not on the allowlist: '' @ go_quote p
      | NulInArgument i p \<Rightarrow> ''netcfg: argument '' @ nat_to_string i @ '' of '' @ go_quote p @ '' contains a NUL byte'')"

definition failed_result :: "string \<Rightarrow> cmd_result option \<Rightarrow> cmd_result" where
  "failed_result msg canned =
     (let res = \<lparr>Stdout = '''', Stderr = msg, ExitCode = 2\<rparr>
      in case canned of None \<Rightarrow> res
         | Some c \<Rightarrow>
             \<lparr>Stdout = Stdout c,
              Stderr = (if Stderr c \<noteq> '''' then Stderr c else Stderr res),
              ExitCode = (if ExitCode c \<noteq> 0 then ExitCode c else ExitCode res)\<rparr>)"

definition recorder_run :: "recorder runner" where
  "recorder_run c r =
     (case ValidateCommandOn (recPlatform r) c of
        Some e \<Rightarrow> ((no_result, Some (command_error_text e)), r)
      | None \<Rightarrow>
          let r = r\<lparr>cmds := cmds r @ [c]\<rparr>;
              k = RunnerKey c
          in case map_of (Errors r) k of
               Some (Some msg) \<Rightarrow> ((failed_result msg (map_of (Responses r) k), Some msg), r)
             | _ \<Rightarrow>
                 (case map_of (Responses r) k of
                    Some res \<Rightarrow> ((res, None), r)
                  | None \<Rightarrow>
                      (case Fallback r of
                         Some f \<Rightarrow> (f c, r)
                       | None \<Rightarrow> ((no_result, None), r))))"

definition recorder_Lines :: "recorder \<Rightarrow> string list" where
  "recorder_Lines r = map CommandLine (cmds r)"

definition recorder_Reset :: "recorder \<Rightarrow> recorder" where
  "recorder_Reset r = r\<lparr>cmds := []\<rparr>"

definition recorder_SetError :: "string \<Rightarrow> goerror \<Rightarrow> recorder \<Rightarrow> recorder" where
  "recorder_SetError key err r = r\<lparr>Errors := AList.update key err (Errors r)\<rparr>"

definition recorder_SetOutput :: "string \<Rightarrow> string \<Rightarrow> recorder \<Rightarrow> recorder" where
  "recorder_SetOutput key out r =
     r\<lparr>Responses := AList.update key \<lparr>Stdout = out, Stderr = '''', ExitCode = 0\<rparr> (Responses r)\<rparr>"

definition recorder_SetFailure :: "string \<Rightarrow> int \<Rightarrow> string \<Rightarrow> recorder \<Rightarrow> recorder" where
  "recorder_SetFailure key code err r =
     recorder_SetError key (Some (''exit status '' @ int_to_string code))
       (r\<lparr>Responses := AList.update key \<lparr>Stdout = '''', Stderr = err, ExitCode = code\<rparr> (Responses r)\<rparr>)"

definition FailingRunner :: "string \<Rightarrow> 'w runner" where
  "FailingRunner msg c w = ((no_result, Some (msg @ '' (refused '' @ Path c @ '')'')), w)"

section \<open>The regulatory domain\<close>

definition IsUpperAlpha2 :: "string \<Rightarrow> bool" where
  "IsUpperAlpha2 s \<longleftrightarrow> length s = 2 \<and> list_all is_upper s"

definition country_line :: "string \<Rightarrow> string option" where
  "country_line raw =
     (let line = trim_space raw
      in if \<not> has_prefix line ''country '' then None
         else let rest = drop 8 line
              in if CHR '':'' \<notin> set rest then None
                 else let cc = trim_space (takeWhile (\<lambda>c. c \<noteq> CHR '':'') rest)
                      in if length cc \<noteq> 2 \<or> cc = ''00'' \<or> \<not> IsUpperAlpha2 cc then None else Some cc)"

fun first_some :: "('a \<Rightarrow> 'b option) \<Rightarrow> 'a list \<Rightarrow> 'b option" where
  "first_some f [] = None"
| "first_some f (x # xs) = (case f x of Some y \<Rightarrow> Some y | None \<Rightarrow> first_some f xs)"

definition ParseRegDomain :: "string \<Rightarrow> string option" where
  "ParseRegDomain out = first_some country_line (lines_of out)"

definition RegulatoryDomain :: "'w runner \<Rightarrow> 'w \<Rightarrow> string option \<times> 'w" where
  "RegulatoryDomain run w =
     (case run (mk_command BinIw [''reg'', ''get'']
         ''the regulatory domain, which hostapd needs before it will beacon on any channel'') w of
        ((res, None), w') \<Rightarrow> (ParseRegDomain (Stdout res), w')
      | ((res, Some _), w') \<Rightarrow> (None, w'))"

end
