(* ===== verification/Facts.thy ===== *)
theory Facts
  imports Subnet Command
begin

text \<open>
  What detection learned about the machine (\<open>internal/netcfg/facts.go\<close>): links, default routes,
  wireless interfaces and radios, with the questions the planner asks of them. The transmit
  power of a frequency, which nothing reads, is left out.
\<close>

section \<open>Data\<close>

record link =
  lName :: string
  lState :: string
  lPrefixes :: "prefix list"
  lBus :: string

record default_route =
  dFamily :: int
  dGateway :: addr
  dDev :: string
  dSrc :: addr
  dProto :: string
  dMetric :: int
  dLinkDown :: bool
  dOnLink :: bool

datatype interface_manager = ManagedByUnknown | ManagedByNetworkManager | ManagedByNothing

record wireless_iface =
  wName :: string
  wPhy :: string
  wType :: string
  wSSID :: string
  wChannel :: int
  wFreqMHz :: int
  wMAC :: string
  wManager :: interface_manager
  wAssociated :: bool
  wLinkKnown :: bool

record frequency =
  fMHz :: int
  fChannel :: int
  fNoIR :: bool
  fDisabled :: bool
  fRadar :: bool

record band =
  bNumber :: int
  bFrequencies :: "frequency list"

record combo_limit =
  clMax :: int
  clTypes :: "string list"

record combination =
  cRaw :: string
  cLimits :: "combo_limit list"
  cTotal :: int
  cChannels :: int
  cNotes :: "string list"

record phy =
  phyName :: string
  phyIndex :: int
  phyModes :: "string list"
  phyCommands :: "string list"
  phyCombinations :: "combination list"
  phyBands :: "band list"

record system_socks_state =
  ssService :: string
  ssEnabled :: bool
  ssServer :: string
  ssPort :: nat
  ssAuthenticated :: bool
  ssBypassDomains :: "string list"

record facts =
  Links :: "link list"
  Routes :: "default_route list"
  Wireless :: "wireless_iface list"
  Phys :: "phy list"
  factsSOCKS :: "system_socks_state list"
  SystemSOCKSKnown :: bool
  factsNMPresent :: bool
  factsSysctl :: "(string, string) gomap"

definition equal_fold :: "string \<Rightarrow> string \<Rightarrow> bool" where
  "equal_fold s t \<longleftrightarrow> to_lower s = to_lower t"

section \<open>Interfaces\<close>

definition link_IsLoopback :: "link \<Rightarrow> bool" where
  "link_IsLoopback l \<longleftrightarrow> lName l = ''lo'' \<or> list_ex (\<lambda>p. IsLoopback (pAddr p)) (lPrefixes l)"

definition IsAccessPoint :: "wireless_iface \<Rightarrow> bool" where
  "IsAccessPoint w \<longleftrightarrow> equal_fold (wType w) ''AP''"

definition StationLink :: "wireless_iface \<Rightarrow> bool" where
  "StationLink w =
     (if IsAccessPoint w then False
      else if wLinkKnown w then wAssociated w
      else wSSID w \<noteq> '''')"

definition InUse :: "wireless_iface \<Rightarrow> bool" where
  "InUse w = (if IsAccessPoint w then wSSID w \<noteq> '''' else StationLink w)"

section \<open>Radios\<close>

definition Usable :: "frequency \<Rightarrow> bool" where
  "Usable f \<longleftrightarrow> \<not> fDisabled f \<and> \<not> fNoIR f \<and> \<not> fRadar f"

type_synonym radio_band = string

definition BandAuto :: radio_band where "BandAuto = ''''"
definition Band2GHz :: radio_band where "Band2GHz = ''2.4GHz''"
definition Band5GHz :: radio_band where "Band5GHz = ''5GHz''"

lemmas band_defs = BandAuto_def Band2GHz_def Band5GHz_def

definition BandOf :: "int \<Rightarrow> radio_band" where
  "BandOf mhz =
     (if 2400 \<le> mhz \<and> mhz \<le> 2500 then Band2GHz
      else if 4900 \<le> mhz \<and> mhz \<le> 5895 then Band5GHz
      else BandAuto)"

definition phy_frequencies :: "phy \<Rightarrow> frequency list" where
  "phy_frequencies p = concat (map bFrequencies (phyBands p))"

definition BandOfChannel :: "phy \<Rightarrow> int \<Rightarrow> radio_band" where
  "BandOfChannel p ch =
     (case List.find (\<lambda>f. fChannel f = ch) (phy_frequencies p) of
        Some f \<Rightarrow> BandOf (fMHz f)
      | None \<Rightarrow> BandAuto)"

definition UsableChannelsIn :: "phy \<Rightarrow> radio_band \<Rightarrow> int list" where
  "UsableChannelsIn p b =
     sort (map fChannel (filter (\<lambda>f. \<not> (\<not> Usable f \<or> fChannel f \<le> 0) \<and> \<not> (b \<noteq> BandAuto \<and> BandOf (fMHz f) \<noteq> b))
       (phy_frequencies p)))"

definition UsableChannels :: "phy \<Rightarrow> int list" where
  "UsableChannels p = UsableChannelsIn p BandAuto"

definition limit_Has :: "combo_limit \<Rightarrow> string \<Rightarrow> bool" where
  "limit_Has c t \<longleftrightarrow> list_ex (\<lambda>have. equal_fold have t) (clTypes c)"

text \<open>
  The backtracking of \<open>Allows\<close>: \<open>rem\<close> is what is left of each group. The inner loop over the
  groups tries one group after the other and puts the unit back when the rest cannot be placed.
\<close>

function (sequential) assign :: "combo_limit list \<Rightarrow> string list \<Rightarrow> int list \<Rightarrow> bool"
  and try_groups :: "combo_limit list \<Rightarrow> string \<Rightarrow> string list \<Rightarrow> int list \<Rightarrow> nat \<Rightarrow> bool" where
  "assign ls [] rem = True"
| "assign ls (t # ts) rem = try_groups ls t ts rem 0"
| "try_groups ls t ts rem g =
     (if g \<ge> length ls then False
      else if rem ! g \<le> 0 \<or> \<not> limit_Has (ls ! g) t then try_groups ls t ts rem (Suc g)
      else if assign ls ts (rem[g := rem ! g - 1]) then True
      else try_groups ls t ts rem (Suc g))"
  by pat_completeness auto
termination
  by (relation "measures [\<lambda>x. case x of Inl (ls, ts, rem) \<Rightarrow> 2 * length ts | Inr (ls, t, ts, rem, g) \<Rightarrow> Suc (2 * length ts),
      \<lambda>x. case x of Inl (ls, ts, rem) \<Rightarrow> 0 | Inr (ls, t, ts, rem, g) \<Rightarrow> length ls - g]") auto

declare try_groups.simps [simp del]

definition Allows :: "combination \<Rightarrow> string list \<Rightarrow> bool" where
  "Allows c types =
     (if types = [] then True
      else if cTotal c > 0 \<and> int (length types) > cTotal c then False
      else assign (cLimits c) types (map clMax (cLimits c)))"

definition SupportsAP :: "phy \<Rightarrow> bool" where
  "SupportsAP p \<longleftrightarrow> list_ex (\<lambda>m. equal_fold m ''AP'') (phyModes p)"

definition APWithStation :: "phy \<Rightarrow> combination option" where
  "APWithStation p = List.find (\<lambda>c. Allows c [''managed'', ''AP'']) (phyCombinations p)"

definition DeclaresAPWithStation :: "phy \<Rightarrow> bool" where
  "DeclaresAPWithStation p \<longleftrightarrow> APWithStation p \<noteq> None"

section \<open>Questions to the facts\<close>

definition LinkByName :: "facts \<Rightarrow> string \<Rightarrow> link option" where
  "LinkByName f n = List.find (\<lambda>l. lName l = n) (Links f)"

definition WirelessByName :: "facts \<Rightarrow> string \<Rightarrow> wireless_iface option" where
  "WirelessByName f n = List.find (\<lambda>w. wName w = n) (Wireless f)"

definition PhyByName :: "facts \<Rightarrow> string \<Rightarrow> phy option" where
  "PhyByName f n = List.find (\<lambda>p. phyName p = n) (Phys f)"

definition IsWireless :: "facts \<Rightarrow> string \<Rightarrow> bool" where
  "IsWireless f n \<longleftrightarrow> WirelessByName f n \<noteq> None"

definition better_route :: "int \<Rightarrow> default_route \<Rightarrow> default_route option \<Rightarrow> default_route option" where
  "better_route fam r best =
     (if dFamily r \<noteq> fam \<or> dLinkDown r \<or> dDev r = '''' then best
      else case best of
        None \<Rightarrow> Some r
      | Some b \<Rightarrow> if dMetric r < dMetric b then Some r else Some b)"

definition PrimaryDefault :: "facts \<Rightarrow> default_route option" where
  "PrimaryDefault f = fold (better_route 4) (Routes f) None"

definition DefaultV6 :: "facts \<Rightarrow> default_route option" where
  "DefaultV6 f = fold (better_route 6) (Routes f) None"

definition OccupiedPrefixes :: "facts \<Rightarrow> prefix list" where
  "OccupiedPrefixes f =
     concat (map (\<lambda>l. map Masked (lPrefixes l)) (Links f)) @
     map (\<lambda>r. PrefixFrom (dGateway r) (int (BitLen (dGateway r)))) (filter (\<lambda>r. IsValid (dGateway r)) (Routes f))"

section \<open>Placing interfaces in groups\<close>

text \<open>A placement gives every interface a group that covers its type, within what is left of
  each group.\<close>

definition placement :: "combo_limit list \<Rightarrow> string list \<Rightarrow> int list \<Rightarrow> nat list \<Rightarrow> bool" where
  "placement ls ts rem gs \<longleftrightarrow> length gs = length ts \<and>
     (\<forall>i < length ts. gs ! i < length ls \<and> limit_Has (ls ! (gs ! i)) (ts ! i)) \<and>
     (\<forall>g \<in> set gs. int (count_list gs g) \<le> rem ! g)"

lemma placement_Cons:
  assumes "length rem = length ls"
  shows "placement ls (t # ts) rem (g # gs) \<longleftrightarrow>
    g < length ls \<and> limit_Has (ls ! g) t \<and> 0 < rem ! g \<and> placement ls ts (rem[g := rem ! g - 1]) gs"
proof -
  have idx: "(\<forall>i < length (t # ts). (g # gs) ! i < length ls \<and> limit_Has (ls ! ((g # gs) ! i)) ((t # ts) ! i)) \<longleftrightarrow>
      g < length ls \<and> limit_Has (ls ! g) t \<and> (\<forall>i < length ts. gs ! i < length ls \<and> limit_Has (ls ! (gs ! i)) (ts ! i))"
    by (auto simp: less_Suc_eq_0_disj)
  have cnt: "(\<forall>h \<in> set (g # gs). int (count_list (g # gs) h) \<le> rem ! h) \<longleftrightarrow>
      0 < rem ! g \<and> (\<forall>h \<in> set gs. int (count_list gs h) \<le> rem[g := rem ! g - 1] ! h)"
    if "g < length ls"
  proof (cases "g \<in> set gs")
    case True
    then have "0 < count_list gs g" by (simp add: count_list_0_iff zero_less_iff_neq_zero)
    with True that assms show ?thesis by (force simp: nth_list_update)
  next
    case False
    then have "count_list gs g = 0" by (simp add: count_list_0_iff)
    with False that assms show ?thesis by (auto simp: nth_list_update)
  qed
  show ?thesis
  proof (cases "g < length ls")
    case True
    show ?thesis unfolding placement_def idx cnt [OF True] by auto
  next
    case False
    then show ?thesis unfolding placement_def idx by blast
  qed
qed

lemma assign_iff_aux:
  "length rem = length ls \<Longrightarrow> assign ls ts rem \<longleftrightarrow> (\<exists>gs. placement ls ts rem gs)"
  "length rem = length ls \<Longrightarrow> try_groups ls t ts rem g \<longleftrightarrow> (\<exists>h gs. g \<le> h \<and> placement ls (t # ts) rem (h # gs))"
proof (induction ls ts rem and ls t ts rem g rule: assign_try_groups.induct)
  case (1 ls rem)
  then show ?case by (auto simp: placement_def intro: exI [of _ "[]"])
next
  case (2 ls t ts rem)
  have "(\<exists>gs. placement ls (t # ts) rem gs) \<longleftrightarrow> (\<exists>h gs. placement ls (t # ts) rem (h # gs))"
    by (metis placement_def length_Suc_conv list.size(4) add.right_neutral add_Suc_right)
  with 2 show ?case by simp
next
  case (3 ls t ts rem g)
  have next_g: "(\<exists>h gs. g \<le> h \<and> placement ls (t # ts) rem (h # gs)) \<longleftrightarrow>
      (\<exists>gs. placement ls (t # ts) rem (g # gs)) \<or> (\<exists>h gs. Suc g \<le> h \<and> placement ls (t # ts) rem (h # gs))"
    by (metis Suc_leD le_eq_less_or_eq less_eq_Suc_le)
  show ?case
  proof (cases "length ls \<le> g")
    case True
    then show ?thesis by (subst try_groups.simps) (auto simp: placement_Cons [OF 3(4)])
  next
    case False
    then show ?thesis using 3 unfolding next_g
      by (subst try_groups.simps) (auto simp: placement_Cons)
  qed
qed

section \<open>The default route\<close>

definition usable_route :: "int \<Rightarrow> default_route \<Rightarrow> bool" where
  "usable_route fam r \<longleftrightarrow> dFamily r = fam \<and> \<not> dLinkDown r \<and> dDev r \<noteq> ''''"

definition first_best :: "int \<Rightarrow> default_route list \<Rightarrow> default_route option \<Rightarrow> bool" where
  "first_best fam rs best \<longleftrightarrow>
     (case best of
        None \<Rightarrow> \<forall>r \<in> set rs. \<not> usable_route fam r
      | Some b \<Rightarrow> usable_route fam b \<and> (\<exists>xs ys. rs = xs @ b # ys \<and>
          (\<forall>r \<in> set xs. usable_route fam r \<longrightarrow> dMetric b < dMetric r) \<and>
          (\<forall>r \<in> set ys. usable_route fam r \<longrightarrow> dMetric b \<le> dMetric r)))"

lemma first_best_step:
  assumes "first_best fam rs best"
  shows "first_best fam (rs @ [r]) (better_route fam r best)"
proof (cases "usable_route fam r")
  case False
  then have "better_route fam r best = best" by (auto simp: better_route_def usable_route_def)
  with assms False show ?thesis by (fastforce simp: first_best_def split: option.splits)
next
  case r: True
  show ?thesis
  proof (cases best)
    case None
    with assms r have "better_route fam r best = Some r" "\<forall>x \<in> set rs. \<not> usable_route fam x"
      by (auto simp: first_best_def better_route_def usable_route_def)
    with r show ?thesis
      by (simp add: first_best_def) (rule exI [of _ rs], rule exI [of _ "[]"], simp)
  next
    case (Some b)
    with assms obtain xs ys where b: "usable_route fam b" "rs = xs @ b # ys"
      "\<forall>r \<in> set xs. usable_route fam r \<longrightarrow> dMetric b < dMetric r"
      "\<forall>r \<in> set ys. usable_route fam r \<longrightarrow> dMetric b \<le> dMetric r" by (auto simp: first_best_def)
    show ?thesis
    proof (cases "dMetric r < dMetric b")
      case True
      then have "better_route fam r best = Some r" using r Some by (auto simp: better_route_def usable_route_def)
      with True b r show ?thesis
        by (simp add: first_best_def) (rule exI [of _ "xs @ b # ys"], rule exI [of _ "[]"], fastforce)
    next
      case False
      then have "better_route fam r best = Some b" using r Some by (auto simp: better_route_def usable_route_def)
      with False b show ?thesis
        by (simp add: first_best_def) (rule exI [of _ xs], rule exI [of _ "ys @ [r]"], auto)
    qed
  qed
qed

lemma fold_better_route: "first_best fam rs (fold (better_route fam) rs None)"
proof (induction rs rule: rev_induct)
  case Nil
  then show ?case by (simp add: first_best_def)
qed (simp add: first_best_step)

section \<open>Properties\<close>

text \<open>C30. Whether interfaces may coexist is decided exactly: the search succeeds if and only if
  the total allows it and the interfaces can be placed in groups that cover their types without
  any group exceeding its maximum.\<close>

theorem Allows_iff_placement:
  "Allows c types \<longleftrightarrow> types = [] \<or> \<not> (cTotal c > 0 \<and> int (length types) > cTotal c) \<and>
     (\<exists>gs. length gs = length types \<and>
        (\<forall>i < length types. gs ! i < length (cLimits c) \<and> limit_Has (cLimits c ! (gs ! i)) (types ! i)) \<and>
        (\<forall>g \<in> set gs. int (count_list gs g) \<le> clMax (cLimits c ! g)))"
proof -
  have "(\<forall>g \<in> set gs. int (count_list gs g) \<le> map clMax (cLimits c) ! g) \<longleftrightarrow>
      (\<forall>g \<in> set gs. int (count_list gs g) \<le> clMax (cLimits c ! g))"
    if "length gs = length types" "\<forall>i < length types. gs ! i < length (cLimits c)" for gs
  proof -
    have "g < length (cLimits c)" if "g \<in> set gs" for g
      using that \<open>length gs = length types\<close> \<open>\<forall>i < length types. gs ! i < length (cLimits c)\<close>
      by (metis in_set_conv_nth)
    then show ?thesis by (simp cong: ball_cong)
  qed
  then show ?thesis
    unfolding Allows_def using assign_iff_aux(1) [of "map clMax (cLimits c)" "cLimits c" types]
    by (auto simp: placement_def)
qed

definition pi5_combination :: combination where
  "pi5_combination = \<lparr>cRaw = '''', cLimits = [\<lparr>clMax = 1, clTypes = [''managed'']\<rparr>, \<lparr>clMax = 1, clTypes = [''AP'']\<rparr>,
     \<lparr>clMax = 1, clTypes = [''P2P-client'']\<rparr>, \<lparr>clMax = 1, clTypes = [''P2P-device'']\<rparr>],
     cTotal = 4, cChannels = 1, cNotes = []\<rparr>"

theorem Allows_iff_placement_witness: "Allows pi5_combination [''managed'', ''AP'']"
  unfolding Allows_iff_placement
  by (rule disjI2, intro conjI exI [of _ "[0, 1]"])
     (auto simp: pi5_combination_def limit_Has_def equal_fold_def less_Suc_eq numeral_2_eq_2)

text \<open>
  The uplink is the interface the kernel will use: the default route chosen is an IPv4 one
  whose link is up, no such route has a lower metric, and none before it has the same; there is
  none only if no route qualifies.\<close>

theorem PrimaryDefault_is_best:
  "case PrimaryDefault f of
     None \<Rightarrow> \<forall>r \<in> set (Routes f). \<not> (dFamily r = 4 \<and> \<not> dLinkDown r \<and> dDev r \<noteq> '''')
   | Some b \<Rightarrow> dFamily b = 4 \<and> \<not> dLinkDown b \<and> dDev b \<noteq> '''' \<and> (\<exists>xs ys. Routes f = xs @ b # ys \<and>
       (\<forall>r \<in> set xs. dFamily r = 4 \<and> \<not> dLinkDown r \<and> dDev r \<noteq> '''' \<longrightarrow> dMetric b < dMetric r) \<and>
       (\<forall>r \<in> set ys. dFamily r = 4 \<and> \<not> dLinkDown r \<and> dDev r \<noteq> '''' \<longrightarrow> dMetric b \<le> dMetric r))"
  using fold_better_route [of 4 "Routes f"]
  by (simp add: PrimaryDefault_def first_best_def usable_route_def split: option.splits)

definition sample_route :: "string \<Rightarrow> int \<Rightarrow> bool \<Rightarrow> default_route" where
  "sample_route dev metric down = \<lparr>dFamily = 4, dGateway = ip4 192 168 1 1, dDev = dev, dSrc = NoAddr, dProto = ''dhcp'',
     dMetric = metric, dLinkDown = down, dOnLink = False\<rparr>"

definition sample_routes :: facts where
  "sample_routes = \<lparr>Links = [], Routes = [sample_route ''eth1'' 50 True, sample_route ''wlan0'' 600 False, sample_route ''eth0'' 100 False],
     Wireless = [], Phys = [], factsSOCKS = [], SystemSOCKSKnown = False, factsNMPresent = False, factsSysctl = []\<rparr>"

theorem PrimaryDefault_is_best_witness:
  "PrimaryDefault sample_routes = Some (sample_route ''eth0'' 100 False) \<and>
   (\<exists>xs ys. Routes sample_routes = xs @ sample_route ''eth0'' 100 False # ys \<and>
     (\<forall>r \<in> set xs. dFamily r = 4 \<and> \<not> dLinkDown r \<and> dDev r \<noteq> '''' \<longrightarrow> 100 < dMetric r))"
proof -
  have "PrimaryDefault sample_routes = Some (sample_route ''eth0'' 100 False)"
    by (simp add: PrimaryDefault_def sample_routes_def sample_route_def better_route_def)
  with PrimaryDefault_is_best [of sample_routes] show ?thesis by (force simp: sample_route_def)
qed

end
