(* ===== verification/Plan.thy ===== *)
theory Plan
  imports Facts
begin

text \<open>
  Deciding which interface does what (\<open>internal/netcfg/plan.go\<close>, with the proxy state of
  \<open>system_socks.go\<close>). The plan under construction is threaded through the functions as a
  record; a refusal is a value of \<open>plan_error\<close>, one constructor for each refusal of the code,
  and a note to the operator a value of \<open>plan_note\<close>, one constructor for each sentence.
\<close>

section \<open>Options and plans\<close>

datatype mode = ModeUnset | ModeWiredUplink | ModeWirelessUplink
datatype route_strategy = StrategyPolicy | StrategySplitDefault
datatype egress_policy = EgressRestricted | EgressOpen
datatype forward_state = ForwardNormal | ForwardCut
datatype ipv6_policy = IPv6Block | IPv6Forward

record socks_options =
  soEnabled :: bool
  soListen :: string
  soPort :: nat

record options =
  oPlatform :: platform
  TunName :: string
  HotspotPool :: "prefix list"
  TunnelPool :: "prefix list"
  oHotspotSubnet :: prefix
  UplinkOverride :: string
  HotspotOverride :: string
  HotspotBand :: radio_band
  APIfaceName :: string
  Table :: int
  RulePrio :: int
  FwMark :: "32 word"
  DNSPort :: int
  PanelPort :: int
  oSystemSOCKS :: socks_options
  Strategy :: route_strategy
  IPv6 :: ipv6_policy
  Egress :: egress_policy
  ClientIsolation :: bool
  MasqueradeToTunnel :: bool
  RPFilter :: int

definition defaultAPIfaceName :: string where
  "defaultAPIfaceName = ''ap0''"

definition DefaultOptions :: options where
  "DefaultOptions = \<lparr>oPlatform = '''', TunName = ''xray0'', HotspotPool = DefaultHotspotPool,
     TunnelPool = DefaultTunnelPool, oHotspotSubnet = zero_prefix, UplinkOverride = '''', HotspotOverride = '''',
     HotspotBand = BandAuto, APIfaceName = defaultAPIfaceName, Table = 8410, RulePrio = 8410, FwMark = 0x20da,
     DNSPort = 53, PanelPort = 8088, oSystemSOCKS = \<lparr>soEnabled = False, soListen = '''', soPort = 0\<rparr>,
     Strategy = StrategyPolicy, IPv6 = IPv6Block, Egress = EgressRestricted, ClientIsolation = True,
     MasqueradeToTunnel = False, RPFilter = 2\<rparr>"

datatype plan_note =
    SubnetOverlapsByHand prefix prefix
  | ServerUnpinnable addr
  | ConnectionEnds string string string
  | ChannelPinnedNote string int bool string string
  | NoUsableChannelNote string
  | SecondInterfaceRefused string string

record plan =
  Platform :: platform
  Mode :: mode
  Uplink :: string
  UplinkGateway :: addr
  UplinkOnLink :: bool
  UplinkV6Gw :: addr
  UplinkV6Dev :: string
  Hotspot :: string
  HotspotPhy :: string
  HotspotSubnet :: prefix
  HotspotGateway :: addr
  HotspotIsVirtual :: bool
  HotspotParent :: string
  HotspotFallback :: string
  HotspotTakenOver :: bool
  HotspotManager :: interface_manager
  NetworkManagerPresent :: bool
  HotspotStationPrefixes :: "prefix list"
  Channel :: int
  ChannelPinned :: bool
  UsableChannel :: "int list"
  Tun :: string
  TunSubnet :: prefix
  TunAddr :: addr
  TunPeer :: addr
  ServerAddr :: "addr list"
  UnpinnableServers :: "addr list"
  SystemSOCKS :: "system_socks_state list"
  Opts :: options
  Notes :: "plan_note list"

definition new_plan :: "facts \<Rightarrow> options \<Rightarrow> plan" where
  "new_plan f opt = \<lparr>Platform = oPlatform opt, Mode = ModeUnset, Uplink = '''', UplinkGateway = NoAddr, UplinkOnLink = False,
     UplinkV6Gw = NoAddr, UplinkV6Dev = '''', Hotspot = '''', HotspotPhy = '''', HotspotSubnet = zero_prefix,
     HotspotGateway = NoAddr, HotspotIsVirtual = False, HotspotParent = '''', HotspotFallback = '''',
     HotspotTakenOver = False, HotspotManager = ManagedByUnknown, NetworkManagerPresent = factsNMPresent f,
     HotspotStationPrefixes = [], Channel = 0, ChannelPinned = False, UsableChannel = [], Tun = TunName opt,
     TunSubnet = zero_prefix, TunAddr = NoAddr, TunPeer = NoAddr, ServerAddr = [], UnpinnableServers = [],
     SystemSOCKS = [], Opts = opt, Notes = []\<rparr>"

datatype plan_error =
    BadTunName string
  | SocksWrongPlatform string
  | SocksBadListen string
  | SocksPortZero
  | SocksStateUnknown
  | SocksNoServices
  | SocksUnnamedService
  | SocksAuthenticated string
  | SocksInconsistent string
  | UplinkOverrideWithoutRoute string
  | NoUplink
  | SubnetFailed subnet_error
  | NoAPCapableInterface
  | OverrideNotAPCapable string
  | OnlyRadioCarriesUplink
  | EveryRadioBusy
  | HotspotNotReleased string string
  | BandUnavailable string radio_band
  | BandPinnedElsewhere string int radio_band radio_band string string
  | BadHotspotName string
  | BadAPName string
  | RadioCannotShareUplink string
  | ServerFamilyUnreachable nat
  | NoServerAddress
  | AlreadyExistingInterface string
  | NoTakeoverCandidate string
  | FallbackNotWireless string
  | FallbackJoinedUnowned string string
  | FallbackOwnerUnknown string interface_manager

type_synonym planned = "(plan_error, plan) result"

section \<open>The proxy state of macOS\<close>

fun socks_states :: "system_socks_state list \<Rightarrow> (plan_error, system_socks_state list) result" where
  "socks_states [] = Inr []"
| "socks_states (st # sts) =
     (if ssService st = '''' then Inl SocksUnnamedService
      else if ssAuthenticated st then Inl (SocksAuthenticated (ssService st))
      else if (ssServer st \<noteq> '''') \<noteq> (ssPort st \<noteq> 0) \<or> (ssEnabled st \<and> \<not> ssServer st \<noteq> '''')
        then Inl (SocksInconsistent (ssService st))
      else case socks_states sts of Inl e \<Rightarrow> Inl e | Inr r \<Rightarrow> Inr (st # r))"

definition systemSOCKSForPlan :: "facts \<Rightarrow> options \<Rightarrow> (plan_error, system_socks_state list) result" where
  "systemSOCKSForPlan f opt =
     (if oPlatform opt \<noteq> PlatformDarwin then Inl (SocksWrongPlatform (oPlatform opt))
      else if (case ParseAddr (soListen (oSystemSOCKS opt)) of None \<Rightarrow> True | Some a \<Rightarrow> \<not> IsLoopback a)
        then Inl (SocksBadListen (soListen (oSystemSOCKS opt)))
      else if soPort (oSystemSOCKS opt) = 0 then Inl SocksPortZero
      else if \<not> SystemSOCKSKnown f then Inl SocksStateUnknown
      else if factsSOCKS f = [] then Inl SocksNoServices
      else socks_states (factsSOCKS f))"

section \<open>Candidates\<close>

definition zero_wireless :: wireless_iface where
  "zero_wireless = \<lparr>wName = '''', wPhy = '''', wType = '''', wSSID = '''', wChannel = 0, wFreqMHz = 0, wMAC = '''',
     wManager = ManagedByUnknown, wAssociated = False, wLinkKnown = False\<rparr>"

record ap_candidate =
  cPhy :: phy
  cIface :: wireless_iface
  cStation :: wireless_iface
  cBus :: string

definition candidate_iface :: "facts \<Rightarrow> string \<Rightarrow> wireless_iface \<Rightarrow> ap_candidate \<Rightarrow> ap_candidate" where
  "candidate_iface f uplink w c =
     (if wPhy w \<noteq> phyName (cPhy c) then c
      else let c = (if wName (cIface c) = ''''
                    then c\<lparr>cIface := w, cBus := (case LinkByName f (wName w) of Some l \<Rightarrow> lBus l | None \<Rightarrow> cBus c)\<rparr>
                    else c)
           in if wName w = uplink then c\<lparr>cStation := w\<rparr>
              else if StationLink w \<and> wName (cStation c) = '''' then c\<lparr>cStation := w\<rparr>
              else c)"

definition candidate :: "facts \<Rightarrow> string \<Rightarrow> phy \<Rightarrow> ap_candidate" where
  "candidate f uplink p =
     fold (candidate_iface f uplink) (Wireless f)
       \<lparr>cPhy = p, cIface = zero_wireless, cStation = zero_wireless, cBus = ''''\<rparr>"

definition apCandidates :: "facts \<Rightarrow> string \<Rightarrow> ap_candidate list" where
  "apCandidates f uplink = map (candidate f uplink) (filter SupportsAP (Phys f))"

definition zero_candidate :: ap_candidate where
  "zero_candidate = \<lparr>cPhy = \<lparr>phyName = '''', phyIndex = 0, phyModes = [], phyCommands = [], phyCombinations = [], phyBands = []\<rparr>,
     cIface = zero_wireless, cStation = zero_wireless, cBus = ''''\<rparr>"

definition usb_over :: "ap_candidate \<Rightarrow> ap_candidate \<Rightarrow> ap_candidate" where
  "usb_over c best = (if cBus c = ''usb'' \<and> cBus best \<noteq> ''usb'' then c else best)"

definition preferUSB :: "ap_candidate list \<Rightarrow> ap_candidate" where
  "preferUSB cands = (case cands of [] \<Rightarrow> zero_candidate | c # _ \<Rightarrow> fold usb_over cands c)"

section \<open>Channels\<close>

definition chooseChannel :: "phy \<Rightarrow> radio_band \<Rightarrow> plan \<Rightarrow> planned" where
  "chooseChannel ph b p =
     (if b = BandAuto then
        (case UsableChannelsIn ph Band2GHz of
           ch # _ \<Rightarrow> Inr (p\<lparr>Channel := ch\<rparr>)
         | [] \<Rightarrow> Inr (case UsableChannel p of ch # _ \<Rightarrow> p\<lparr>Channel := ch\<rparr> | [] \<Rightarrow> p))
      else (case UsableChannelsIn ph b of
           [] \<Rightarrow> Inl (BandUnavailable (phyName ph) b)
         | ch # _ \<Rightarrow> Inr (p\<lparr>Channel := ch\<rparr>)))"

definition pinned_band :: "phy \<Rightarrow> wireless_iface \<Rightarrow> int \<Rightarrow> radio_band" where
  "pinned_band ph station ch =
     (let b = BandOfChannel ph ch
      in if b = BandAuto \<and> wFreqMHz station > 0 then BandOf (wFreqMHz station) else b)"

definition refuseBandAgainstPin :: "phy \<Rightarrow> wireless_iface \<Rightarrow> radio_band \<Rightarrow> plan \<Rightarrow> planned" where
  "refuseBandAgainstPin ph station b p =
     (if b = BandAuto then Inr p
      else let pinned = pinned_band ph station (Channel p)
           in if pinned = b then Inr p
              else Inl (BandPinnedElsewhere (phyName ph) (Channel p) pinned b (wSSID station) (wName station)))"

section \<open>Taking an interface for the access point\<close>

definition takeOver :: "ap_candidate \<Rightarrow> options \<Rightarrow> plan \<Rightarrow> planned" where
  "takeOver c opt p =
     (let w = cStation c
      in if \<not> ValidInterfaceName (wName w) then Inl (BadHotspotName (wName w))
         else case chooseChannel (cPhy c) (HotspotBand opt)
                (p\<lparr>Hotspot := wName w, HotspotIsVirtual := False, HotspotTakenOver := True, HotspotParent := '''',
                   HotspotFallback := '''', HotspotManager := wManager w, ChannelPinned := False\<rparr>) of
           Inl e \<Rightarrow> Inl e
         | Inr p \<Rightarrow> Inr (p\<lparr>Notes := Notes p @ [ConnectionEnds (phyName (cPhy c)) (wSSID w) (wName w)]\<rparr>))"

definition ap_name :: "options \<Rightarrow> string" where
  "ap_name opt = (if APIfaceName opt = '''' then defaultAPIfaceName else APIfaceName opt)"

text \<open>The branch for a radio that carries a station link and has to keep it.\<close>

definition name_beside :: "ap_candidate \<Rightarrow> options \<Rightarrow> plan \<Rightarrow> planned" where
  "name_beside c opt p =
     (let w = cStation c
      in if oPlatform opt = PlatformWindows then
           (if \<not> ValidInterfaceNameOn (oPlatform opt) (wName w) then Inl (BadHotspotName (wName w))
            else Inr (p\<lparr>Hotspot := wName w, HotspotManager := wManager w\<rparr>))
         else if \<not> ValidInterfaceName (ap_name opt) then Inl (BadAPName (ap_name opt))
         else let p = p\<lparr>Hotspot := ap_name opt, HotspotIsVirtual := True, HotspotParent := wName w,
                        HotspotManager := ManagedByUnknown\<rparr>
              in Inr (if wName w \<noteq> Uplink p then p\<lparr>HotspotFallback := wName w\<rparr> else p))"

definition beside_station :: "ap_candidate \<Rightarrow> options \<Rightarrow> plan \<Rightarrow> planned" where
  "beside_station c opt p =
     (case name_beside c opt p of
        Inl e \<Rightarrow> Inl e
      | Inr p \<Rightarrow>
          (case APWithStation (cPhy c) of
             None \<Rightarrow> Inl (RadioCannotShareUplink (phyName (cPhy c)))
           | Some combo \<Rightarrow>
               if cChannels combo = 1 \<and> StationLink (cStation c) then
                 (case refuseBandAgainstPin (cPhy c) (cStation c) (HotspotBand opt)
                         (p\<lparr>Channel := wChannel (cStation c), ChannelPinned := True\<rparr>) of
                    Inl e \<Rightarrow> Inl e
                  | Inr p \<Rightarrow> Inr (p\<lparr>Notes := Notes p @
                      [ChannelPinnedNote (phyName (cPhy c)) (wChannel (cStation c)) (wName (cStation c) = Uplink p)
                         (wSSID (cStation c)) (wName (cStation c))]\<rparr>))
               else chooseChannel (cPhy c) (HotspotBand opt) p))"

definition on_free_iface :: "ap_candidate \<Rightarrow> options \<Rightarrow> plan \<Rightarrow> planned" where
  "on_free_iface c opt p =
     (if \<not> ValidInterfaceNameOn (oPlatform opt) (wName (cIface c)) then Inl (BadHotspotName (wName (cIface c)))
      else chooseChannel (cPhy c) (HotspotBand opt)
             (p\<lparr>Hotspot := wName (cIface c), HotspotManager := wManager (cIface c)\<rparr>))"

definition on_bare_radio :: "ap_candidate \<Rightarrow> options \<Rightarrow> plan \<Rightarrow> planned" where
  "on_bare_radio c opt p =
     (if \<not> ValidInterfaceName (ap_name opt) then Inl (BadAPName (ap_name opt))
      else chooseChannel (cPhy c) (HotspotBand opt)
             (p\<lparr>Hotspot := ap_name opt, HotspotIsVirtual := True, HotspotManager := ManagedByUnknown\<rparr>))"

definition acceptHotspot :: "ap_candidate \<Rightarrow> options \<Rightarrow> plan \<Rightarrow> planned" where
  "acceptHotspot c opt p =
     (let p = p\<lparr>HotspotPhy := phyName (cPhy c), UsableChannel := UsableChannels (cPhy c)\<rparr>;
          st = wName (cStation c)
      in case (if st \<noteq> '''' \<and> \<not> DeclaresAPWithStation (cPhy c) \<and> st \<noteq> Uplink p then takeOver c opt p
               else if st \<noteq> '''' then beside_station c opt p
               else if wName (cIface c) \<noteq> '''' then on_free_iface c opt p
               else on_bare_radio c opt p) of
           Inl e \<Rightarrow> Inl e
         | Inr p \<Rightarrow>
             Inr (if Channel p = 0 \<and> UsableChannel p = []
                  then p\<lparr>Notes := Notes p @ [NoUsableChannelNote (phyName (cPhy c))]\<rparr> else p))"

section \<open>Choosing the radio\<close>

definition blockedRefusal :: "ap_candidate \<Rightarrow> plan_error" where
  "blockedRefusal c = HotspotNotReleased (phyName (cPhy c)) (wName (cStation c))"

text \<open>The four groups of candidates, in the order the loop fills them.\<close>

definition free_cands :: "ap_candidate list \<Rightarrow> ap_candidate list" where
  "free_cands = filter (\<lambda>c. wName (cStation c) = '''')"

definition shared_cands :: "ap_candidate list \<Rightarrow> ap_candidate list" where
  "shared_cands = filter (\<lambda>c. wName (cStation c) \<noteq> '''' \<and> DeclaresAPWithStation (cPhy c))"

definition takeoverable_cands :: "string \<Rightarrow> ap_candidate list \<Rightarrow> ap_candidate list" where
  "takeoverable_cands uplink =
     filter (\<lambda>c. wName (cStation c) \<noteq> '''' \<and> \<not> DeclaresAPWithStation (cPhy c) \<and> wName (cStation c) \<noteq> uplink)"

definition blocked_cands :: "string \<Rightarrow> ap_candidate list \<Rightarrow> ap_candidate list" where
  "blocked_cands uplink =
     filter (\<lambda>c. wName (cStation c) \<noteq> '''' \<and> \<not> DeclaresAPWithStation (cPhy c) \<and> wName (cStation c) = uplink)"

definition last_resort_step :: "string \<Rightarrow> ap_candidate \<Rightarrow> ap_candidate \<Rightarrow> ap_candidate" where
  "last_resort_step uplink c best =
     (let bestIsUplink = (wName (cStation best) = uplink); cIsUplink = (wName (cStation c) = uplink)
      in if bestIsUplink \<and> \<not> cIsUplink then c
         else if cIsUplink \<and> \<not> bestIsUplink then best
         else usb_over c best)"

definition chooseHotspot :: "facts \<Rightarrow> options \<Rightarrow> plan \<Rightarrow> planned" where
  "chooseHotspot f opt p =
     (let p = p\<lparr>Mode := (if WirelessByName f (Uplink p) \<noteq> None then ModeWirelessUplink else ModeWiredUplink)\<rparr>;
          up = Uplink p;
          cands = apCandidates f up;
          free = free_cands cands; shared = shared_cands cands;
          takeoverable = takeoverable_cands up cands; blocked = blocked_cands up cands;
          sharedNotUplink = filter (\<lambda>c. wName (cStation c) \<noteq> up) shared
      in if cands = [] then Inl NoAPCapableInterface
         else if HotspotOverride opt \<noteq> '''' then
           (case List.find (\<lambda>c. wName (cIface c) = HotspotOverride opt \<or> phyName (cPhy c) = HotspotOverride opt) cands of
              Some c \<Rightarrow> acceptHotspot c opt p
            | None \<Rightarrow> Inl (OverrideNotAPCapable (HotspotOverride opt)))
         else if free \<noteq> [] then acceptHotspot (preferUSB free) opt p
         else if sharedNotUplink \<noteq> [] then acceptHotspot (preferUSB sharedNotUplink) opt p
         else if takeoverable \<noteq> [] then acceptHotspot (preferUSB takeoverable) opt p
         else if shared \<noteq> [] then
           (let best = fold (last_resort_step up) shared (hd shared)
            in case (if wName (cStation best) = up then List.find (\<lambda>c. wName (cStation c) \<noteq> up) blocked else None) of
                 Some c \<Rightarrow> Inl (blockedRefusal c)
               | None \<Rightarrow> acceptHotspot best opt p)
         else (case List.find (\<lambda>c. wName (cStation c) \<noteq> up) blocked of
                 Some c \<Rightarrow> Inl (blockedRefusal c)
               | None \<Rightarrow>
                   if list_ex (\<lambda>c. wName (cStation c) = up) cands then Inl OnlyRadioCarriesUplink
                   else Inl EveryRadioBusy))"

section \<open>The plan\<close>

definition foreignPrefixes :: "facts \<Rightarrow> string \<Rightarrow> prefix \<Rightarrow> prefix list" where
  "foreignPrefixes f name hotspot =
     (case LinkByName f name of
        None \<Rightarrow> []
      | Some l \<Rightarrow> filter (\<lambda>pfx. \<not> (IsLinkLocalUnicast (pAddr pfx) \<or> IsLoopback (pAddr pfx)) \<and>
                              \<not> (valid_prefix hotspot \<and> Contains hotspot (pAddr pfx))) (lPrefixes l))"

definition canPin :: "plan \<Rightarrow> addr \<Rightarrow> bool" where
  "canPin p s = (if \<not> Is6 s then Uplink p \<noteq> '''' else IsValid (UplinkV6Gw p) \<or> UplinkV6Dev p \<noteq> '''')"

definition PinnedServers :: "plan \<Rightarrow> addr list" where
  "PinnedServers p = filter (\<lambda>s. canPin p s \<and> \<not> (Platform p = PlatformWindows \<and> Is6 s)) (ServerAddr p)"

definition effective_options :: "options \<Rightarrow> options" where
  "effective_options opt =
     (let opt = (if TunName opt = '''' then DefaultOptions else opt);
          opt = (if HotspotPool opt = [] then opt\<lparr>HotspotPool := DefaultHotspotPool\<rparr> else opt)
      in if TunnelPool opt = [] then opt\<lparr>TunnelPool := DefaultTunnelPool\<rparr> else opt)"

definition choose_uplink :: "facts \<Rightarrow> options \<Rightarrow> (plan_error, default_route) result" where
  "choose_uplink f opt =
     (if UplinkOverride opt \<noteq> '''' then
        (case List.find (\<lambda>r. dDev r = UplinkOverride opt \<and> dFamily r = 4) (Routes f) of
           Some r \<Rightarrow> Inr r
         | None \<Rightarrow> Inl (UplinkOverrideWithoutRoute (UplinkOverride opt)))
      else (case PrimaryDefault f of Some r \<Rightarrow> Inr r | None \<Rightarrow> Inl NoUplink))"

definition with_uplink :: "facts \<Rightarrow> default_route \<Rightarrow> plan \<Rightarrow> plan" where
  "with_uplink f r p =
     (let p = p\<lparr>Uplink := dDev r, UplinkGateway := dGateway r, UplinkOnLink := dOnLink r\<rparr>
      in case DefaultV6 f of
           Some v6 \<Rightarrow> p\<lparr>UplinkV6Gw := dGateway v6, UplinkV6Dev := dDev v6\<rparr>
         | None \<Rightarrow> p)"

definition plan_hotspot_subnet :: "facts \<Rightarrow> options \<Rightarrow> plan \<Rightarrow> planned" where
  "plan_hotspot_subnet f opt p =
     (let taken = OccupiedPrefixes f
      in if valid_prefix (oHotspotSubnet opt) then
           (let s = Masked (oHotspotSubnet opt)
            in Inr (p\<lparr>HotspotSubnet := s,
                 Notes := Notes p @ map (SubnetOverlapsByHand s) (filter (Overlaps s) taken)\<rparr>))
         else (case ChooseSubnet (HotspotPool opt) taken of
                 Inl e \<Rightarrow> Inl (SubnetFailed e)
               | Inr s \<Rightarrow> Inr (p\<lparr>HotspotSubnet := s\<rparr>)))"

definition plan_addresses :: "facts \<Rightarrow> options \<Rightarrow> plan \<Rightarrow> planned" where
  "plan_addresses f opt p =
     (case plan_hotspot_subnet f opt p of Inl e \<Rightarrow> Inl e | Inr p \<Rightarrow>
      (case GatewayAddr (HotspotSubnet p) of Inl e \<Rightarrow> Inl (SubnetFailed e) | Inr gw \<Rightarrow>
       (let p = p\<lparr>HotspotGateway := gw\<rparr>;
            p = (if Hotspot p \<noteq> '''' \<and> \<not> HotspotIsVirtual p
                 then p\<lparr>HotspotStationPrefixes := foreignPrefixes f (Hotspot p) (HotspotSubnet p)\<rparr> else p)
        in (case ChooseSubnet (TunnelPool opt) (OccupiedPrefixes f @ [HotspotSubnet p]) of
              Inl e \<Rightarrow> Inl (SubnetFailed e)
            | Inr ts \<Rightarrow>
             (case GatewayAddr ts of Inl e \<Rightarrow> Inl (SubnetFailed e) | Inr ta \<Rightarrow>
              (case PeerAddr ts of Inl e \<Rightarrow> Inl (SubnetFailed e) | Inr tp \<Rightarrow>
                 Inr (p\<lparr>TunSubnet := ts, TunAddr := ta, TunPeer := tp\<rparr>)))))))"

definition plan_servers :: "addr list \<Rightarrow> plan \<Rightarrow> planned" where
  "plan_servers servers p =
     (let p = p\<lparr>ServerAddr := map Unmap (filter IsValid servers)\<rparr>;
          un = filter (\<lambda>s. \<not> canPin p s) (ServerAddr p);
          p = p\<lparr>UnpinnableServers := un, Notes := Notes p @ map ServerUnpinnable un\<rparr>
      in if ServerAddr p \<noteq> [] \<and> length un = length (ServerAddr p) then Inl (ServerFamilyUnreachable (length (ServerAddr p)))
         else if ServerAddr p = [] then Inl NoServerAddress
         else Inr p)"

definition plan_socks :: "facts \<Rightarrow> options \<Rightarrow> plan \<Rightarrow> planned" where
  "plan_socks f opt p =
     (if soEnabled (oSystemSOCKS opt)
      then (case systemSOCKSForPlan f opt of Inl e \<Rightarrow> Inl e | Inr st \<Rightarrow> Inr (p\<lparr>SystemSOCKS := st\<rparr>))
      else Inr p)"

definition PlanNetwork :: "facts \<Rightarrow> addr list \<Rightarrow> options \<Rightarrow> planned" where
  "PlanNetwork f servers opt =
     (let opt = effective_options opt
      in if \<not> ValidInterfaceNameOn (oPlatform opt) (TunName opt) then Inl (BadTunName (TunName opt))
         else case plan_socks f opt (new_plan f opt) of Inl e \<Rightarrow> Inl e | Inr p \<Rightarrow>
         (case choose_uplink f opt of Inl e \<Rightarrow> Inl e | Inr r \<Rightarrow>
          (case chooseHotspot f opt (with_uplink f r p) of Inl e \<Rightarrow> Inl e | Inr p \<Rightarrow>
           (case plan_addresses f opt p of Inl e \<Rightarrow> Inl e | Inr p \<Rightarrow> plan_servers servers p))))"

section \<open>The fallback when a second interface is refused\<close>

definition channels_phrase :: string where
  "channels_phrase = ''#channels <= 1''"

text \<open>
  Whether the sentence of a note contains the phrase. Only the pinning note has it in its fixed text; in
  the others it can only come from an embedded name, since no fixed text continues or begins the phrase.
\<close>

fun note_mentions_channels :: "plan_note \<Rightarrow> bool" where
  "note_mentions_channels (SubnetOverlapsByHand _ _) \<longleftrightarrow> False"
| "note_mentions_channels (ServerUnpinnable a) \<longleftrightarrow> str_contains (addr_string a) channels_phrase"
| "note_mentions_channels (ConnectionEnds ph ssid n) \<longleftrightarrow>
     str_contains ph channels_phrase \<or> str_contains ssid channels_phrase \<or> str_contains n channels_phrase"
| "note_mentions_channels (ChannelPinnedNote _ _ _ _ _) \<longleftrightarrow> True"
| "note_mentions_channels (NoUsableChannelNote ph) \<longleftrightarrow> str_contains ph channels_phrase"
| "note_mentions_channels (SecondInterfaceRefused h u) \<longleftrightarrow> str_contains h channels_phrase \<or> str_contains u channels_phrase"

definition fallback_in_use :: "facts \<Rightarrow> wireless_iface \<Rightarrow> bool" where
  "fallback_in_use f w =
     (case LinkByName f (wName w) of
        Some l \<Rightarrow> \<not> equal_fold (lState l) ''DOWN'' \<and> InUse w
      | None \<Rightarrow> InUse w)"

definition taken_over_plan :: "facts \<Rightarrow> wireless_iface \<Rightarrow> plan \<Rightarrow> plan" where
  "taken_over_plan f w p =
     p\<lparr>Hotspot := HotspotFallback p, HotspotIsVirtual := False, HotspotParent := '''', HotspotTakenOver := True,
       HotspotManager := wManager w,
       HotspotStationPrefixes :=
         (case LinkByName f (wName w) of
            None \<Rightarrow> []
          | Some l \<Rightarrow> filter (\<lambda>pfx. \<not> (IsLinkLocalUnicast (pAddr pfx) \<or> IsLoopback (pAddr pfx))) (lPrefixes l)),
       ChannelPinned := False,
       Channel := (case UsableChannel p of [] \<Rightarrow> 0 | ch # _ \<Rightarrow> ch),
       Notes := filter (\<lambda>n. \<not> note_mentions_channels n) (Notes p) @
         [SecondInterfaceRefused (HotspotFallback p) (Uplink p)]\<rparr>"

definition HotspotTakeover :: "facts \<Rightarrow> plan \<Rightarrow> planned" where
  "HotspotTakeover f p =
     (if \<not> HotspotIsVirtual p then Inl (AlreadyExistingInterface (Hotspot p))
      else if HotspotFallback p = '''' then Inl (NoTakeoverCandidate (Uplink p))
      else case WirelessByName f (HotspotFallback p) of
        None \<Rightarrow> Inl (FallbackNotWireless (HotspotFallback p))
      | Some w \<Rightarrow>
          (case wManager w of
             ManagedByNetworkManager \<Rightarrow> Inr (taken_over_plan f w p)
           | ManagedByNothing \<Rightarrow>
               if fallback_in_use f w then Inl (FallbackJoinedUnowned (wName w) (wSSID w))
               else Inr (taken_over_plan f w p)
           | ManagedByUnknown \<Rightarrow> Inl (FallbackOwnerUnknown (wName w) (wManager w))))"

section \<open>The sentence the panel shows\<close>

definition explain_hotspot :: "plan \<Rightarrow> string" where
  "explain_hotspot p =
     (if HotspotTakenOver p then '' Hotspot: WiFi on '' @ Hotspot p @ '' ('' @ HotspotPhy p @ '')''
      else if HotspotIsVirtual p \<and> HotspotParent p \<noteq> ''''
        then '' Hotspot: WiFi on '' @ Hotspot p @ '', a second connection on the same radio as '' @ HotspotParent p @
               '' ('' @ HotspotPhy p @ '')''
      else '' Hotspot: WiFi on '' @ Hotspot p @ '' ('' @ HotspotPhy p @ '')'')"

definition explain_channel :: "plan \<Rightarrow> string" where
  "explain_channel p =
     (if Channel p > 0 then
        '', channel '' @ int_to_string (Channel p) @
        (if ChannelPinned p \<and> HotspotParent p = Uplink p then '', fixed by the radio to match the internet connection''
         else if ChannelPinned p
           then '', fixed by the radio to match the WiFi connection already on '' @ HotspotParent p
         else '''')
      else '''')"

definition Explain :: "plan \<Rightarrow> string" where
  "Explain p =
     (if Mode p = ModeWiredUplink then ''Internet: wired connection on '' @ Uplink p @ ''.''
      else ''Internet: WiFi on '' @ Uplink p @ ''.'') @
     explain_hotspot p @ explain_channel p @ ''.'' @
     (if HotspotTakenOver p
      then '' To do that, '' @ Hotspot p @ '' has to be disconnected from the WiFi network it is on now.''
      else '''') @
     '' Devices on the hotspot can reach only the services this box offers them;'' @
     '' how you reach this machine from '' @ Uplink p @ '' is not changed.'' @
     (if Egress (Opts p) = EgressRestricted
      then '' While the hotspot is on, programs on this box cannot reach the internet'' @
           '' directly, so updating its software will not work until you switch it off.''
      else '''')"

section \<open>The part of a plan that can go stale\<close>

record uplink_state =
  uInterface :: string
  uGateway :: addr
  uOnLink :: bool

definition UplinkState :: "plan \<Rightarrow> uplink_state" where
  "UplinkState p = \<lparr>uInterface = Uplink p, uGateway = UplinkGateway p, uOnLink = UplinkOnLink p\<rparr>"

definition WithUplink :: "plan \<Rightarrow> uplink_state \<Rightarrow> plan" where
  "WithUplink p u = p\<lparr>Uplink := uInterface u, UplinkGateway := uGateway u, UplinkOnLink := uOnLink u\<rparr>"

definition uplink_is_zero :: "uplink_state \<Rightarrow> bool" where
  "uplink_is_zero u \<longleftrightarrow> uInterface u = '''' \<and> \<not> IsValid (uGateway u)"

definition uplink_string :: "uplink_state \<Rightarrow> string" where
  "uplink_string u =
     (if uplink_is_zero u then ''no uplink''
      else if uOnLink u \<or> \<not> IsValid (uGateway u) then uInterface u @ '' (no gateway)''
      else uInterface u @ '' via '' @ addr_string (uGateway u))"

definition uplink_equal :: "uplink_state \<Rightarrow> uplink_state \<Rightarrow> bool" where
  "uplink_equal u v \<longleftrightarrow> uInterface u = uInterface v \<and> uGateway u = uGateway v \<and> uOnLink u = uOnLink v"

definition UplinkChanged :: "uplink_state \<Rightarrow> uplink_state \<Rightarrow> bool \<times> string" where
  "UplinkChanged old now =
     (if uplink_equal old now then (False, '''')
      else if uplink_is_zero now then (True, ''uplink lost (was '' @ uplink_string old @ '')'')
      else if uplink_is_zero old then (True, ''uplink appeared: '' @ uplink_string now)
      else if uInterface old \<noteq> uInterface now
        then (True, ''uplink moved from '' @ uInterface old @ '' to '' @ uInterface now)
      else (True, ''gateway on '' @ uInterface now @ '' changed from '' @ addr_string (uGateway old) @
              '' to '' @ addr_string (uGateway now)))"

end
