(* ===== verification/Nft.thy ===== *)
theory Nft
  imports Plan
begin

text \<open>
  The nftables ruleset (\<open>internal/netcfg/nftables.go\<close>). A chain is a list of items: a comment line, a blank
  line or a rule; a rule is a list of matches, a verdict and a comment. \<open>RulesetFor\<close> renders them to the text that
  is fed to \<open>nft -f -\<close>, byte for byte as the code writes it. The rules of the chains are what the properties
  speak about.
\<close>

section \<open>Rules and their text\<close>

datatype nft_family = Fam4 | Fam6
datatype ct_state = CtNew | CtEstablished | CtRelated | CtInvalid

datatype nft_match =
    IifName string
  | OifName string
  | CtState "ct_state list"
  | NfProto nft_family
  | UdpDport int
  | UdpSport int
  | TcpDport int
  | IpSaddrIn prefix
  | IpDaddrIn prefix
  | IpDaddr addr
  | Ip6Daddr addr
  | IcmpEchoRequest
  | Icmp6Type "string list"

datatype nft_verdict = Accept | Drop | RejectTcpReset | RedirectTo int | Masquerade

datatype nft_rule = Rule (rMatches: "nft_match list") (rVerdict: nft_verdict) (rComment: string)

datatype nft_item = Rem string | Gap | RuleLine nft_rule

record nft_chain =
  nName :: string
  nHook :: string
  nPolicy :: nft_verdict
  nItems :: "nft_item list"

fun family_text :: "nft_family \<Rightarrow> string" where
  "family_text Fam4 = ''ipv4''"
| "family_text Fam6 = ''ipv6''"

fun ct_text :: "ct_state \<Rightarrow> string" where
  "ct_text CtNew = ''new''"
| "ct_text CtEstablished = ''established''"
| "ct_text CtRelated = ''related''"
| "ct_text CtInvalid = ''invalid''"

fun match_text :: "nft_match \<Rightarrow> string" where
  "match_text (IifName n) = ''iifname '' @ go_quote n"
| "match_text (OifName n) = ''oifname '' @ go_quote n"
| "match_text (CtState ss) = ''ct state '' @ join '','' (map ct_text ss)"
| "match_text (NfProto f) = ''meta nfproto '' @ family_text f"
| "match_text (UdpDport n) = ''udp dport '' @ int_to_string n"
| "match_text (UdpSport n) = ''udp sport '' @ int_to_string n"
| "match_text (TcpDport n) = ''tcp dport '' @ int_to_string n"
| "match_text (IpSaddrIn p) = ''ip saddr '' @ prefix_string p"
| "match_text (IpDaddrIn p) = ''ip daddr '' @ prefix_string p"
| "match_text (IpDaddr a) = ''ip daddr '' @ addr_string a"
| "match_text (Ip6Daddr a) = ''ip6 daddr '' @ addr_string a"
| "match_text IcmpEchoRequest = ''icmp type echo-request''"
| "match_text (Icmp6Type ts) =
     ''icmpv6 type '' @ (case ts of [t] \<Rightarrow> t | _ \<Rightarrow> ''{ '' @ join '', '' ts @ '' }'')"

fun verdict_text :: "nft_verdict \<Rightarrow> string" where
  "verdict_text Accept = ''accept''"
| "verdict_text Drop = ''drop''"
| "verdict_text RejectTcpReset = ''reject with tcp reset''"
| "verdict_text (RedirectTo n) = ''redirect to :'' @ int_to_string n"
| "verdict_text Masquerade = ''masquerade''"

fun rule_text :: "nft_rule \<Rightarrow> string" where
  "rule_text (Rule ms v c) =
     join '' '' (map match_text ms @ [verdict_text v]) @ (if c = '''' then '''' else '' comment '' @ dquoted c)"

fun item_text :: "nft_item \<Rightarrow> string" where
  "item_text (Rem s) = [tab, tab] @ ''#'' @ (if s = '''' then '''' else '' '' @ s) @ [newline]"
| "item_text Gap = [newline]"
| "item_text (RuleLine r) = [tab, tab] @ rule_text r @ [newline]"

definition chain_text :: "nft_chain \<Rightarrow> string" where
  "chain_text c =
     tab # ''chain '' @ nName c @ '' {'' @ [newline, tab, tab] @ ''type '' @ nHook c @ ''; policy '' @
     verdict_text (nPolicy c) @ '';'' @ [newline, newline] @ concat (map item_text (nItems c)) @ tab # ''}'' @ [newline]"

fun item_rules :: "nft_item list \<Rightarrow> nft_rule list" where
  "item_rules [] = []"
| "item_rules (RuleLine r # is) = r # item_rules is"
| "item_rules (_ # is) = item_rules is"

section \<open>The chains\<close>

definition input_items :: "plan \<Rightarrow> nft_item list" where
  \<open>input_items p =
    [
      Rem ''THE POLICY IS ACCEPT, DELIBERATELY, AND THIS IS THE PART TO READ'',
      Rem ''BEFORE CHANGING ANYTHING IN THIS CHAIN.'',
      Rem '''',
      Rem ''This appliance controls FORWARDED client traffic. It does not decide'',
      Rem ''what the owner may run on their own machine, and it does not close'',
      Rem ''their administrative access to it.'',
      Rem '''',
      Rem ''An earlier version had policy drop and accepted nothing arriving on'',
      Rem ((Uplink p) @ ''. Measured on the target on 2026-08-30: the moment it loaded,''),
      Rem ''every NEW inbound connection to the box was dropped and SSH stopped'',
      Rem ''answering. Existing connections kept working, because of the'',
      Rem ''conntrack rule that used to sit here, so the box looked healthy from'',
      Rem ''the session that was already open while being unreachable to every'',
      Rem ''new one. On a headless machine in another room that is indistinguishable'',
      Rem ''from a crash, and the remaining recovery is a power cycle and a card'',
      Rem ''reader.'',
      Rem '''',
      Rem ''Accepting here does NOT weaken a host firewall the owner installs.'',
      Rem ''Every base chain registered at this hook is traversed, so a drop in'',
      Rem ''their own table still drops. This policy only stops THIS program'',
      Rem ''from installing a host firewall nobody asked it for.'',
      Rem '''',
      Rem ''What is still guarded is the hotspot, where the untrusted devices'',
      Rem ''are. A joined device reaches the services this box offers it and'',
      Rem ''nothing else.'',
      Gap,
      Rem ''Before the conntrack check, so loopback is never subject to a'',
      Rem ''conntrack edge case.'',
      RuleLine (Rule [IifName ''lo''] Accept ''''),
      RuleLine (Rule [CtState [CtInvalid]] Drop ''malformed or out-of-state, not new inbound''),
      Gap,
      Rem ''The tunnel device. Redundant under an accept policy and kept'',
      Rem ''explicit: the design calls for an INPUT permit for it, and it is'',
      Rem ''what would carry the engine's own traffic if this policy were ever'',
      Rem ''tightened.'',
      RuleLine (Rule [IifName (Tun p)] Accept ''tunnel: a router's own traffic is INPUT, not FORWARD''),
      Gap,
      Rem ''The hotspot side, and the only place this chain restricts anything.'',
      Rem ''These are the services the box actually serves to joined devices.'',
      RuleLine (Rule [IifName (Hotspot p), CtState [CtEstablished, CtRelated]] Accept ''''),
      RuleLine (Rule [IifName (Hotspot p), UdpDport 67] Accept ''DHCP server for clients''),
      RuleLine (Rule [IifName (Hotspot p), UdpDport (DNSPort (Opts p))] Accept ''client DNS, after the prerouting redirect''),
      RuleLine (Rule [IifName (Hotspot p), TcpDport (DNSPort (Opts p))] Accept ''client DNS over TCP''),
      RuleLine (Rule [IifName (Hotspot p), TcpDport (PanelPort (Opts p))] Accept ''panel''),
      RuleLine (Rule [NfProto Fam4, IifName (Hotspot p), IcmpEchoRequest] Accept ''''),
      RuleLine (Rule [IifName (Hotspot p)] Drop ''a joined device reaches nothing else on this box'')]\<close>

definition leak_block_items :: "plan \<Rightarrow> nft_item list" where
  \<open>leak_block_items p =
    [
      Rem ''THE LEAK BLOCK, and the reason this whole file exists.'',
      Rem ''When the tunnel device disappears the kernel withdraws every route'',
      Rem ''through it and client traffic falls back to the main table and out of'',
      Rem (''the uplink, so '' @ dquoted ''the engine stopped'' @ '' leaks by default instead of''),
      Rem ''stopping. This rule names only the hotspot and the uplink, so the'',
      Rem ''tunnel's absence cannot affect it, and it is first so that nothing'',
      Rem ''added below can precede it.'',
      RuleLine (Rule [IifName (Hotspot p), OifName (Uplink p)] Drop ''fail-closed: client traffic never leaves by the uplink''),
      Gap]\<close>

definition ipv6_block_items :: "plan \<Rightarrow> nft_item list" where
  \<open>ipv6_block_items p =
    [
      Rem ''There is no IPv6 tunnel. A client with a working IPv6 path prefers'',
      Rem ''it over IPv4 and would bypass the tunnel entirely.'',
      RuleLine (Rule [NfProto Fam6, IifName (Hotspot p)] Drop ''no IPv6 tunnel: clients get no IPv6''),
      RuleLine (Rule [NfProto Fam6, OifName (Hotspot p)] Drop ''''),
      Gap]\<close>

definition dns_bypass_items :: "plan \<Rightarrow> nft_item list" where
  \<open>dns_bypass_items p =
    [
      Rem ''DNS over TLS and DNS over QUIC would carry a client's queries past the'',
      Rem ''resolver on this box. Rejecting 853 makes a client fall back to port'',
      Rem ''53, which prerouting redirects. DNS over HTTPS on 443 is not'',
      Rem ''distinguishable from other HTTPS and is carried through the tunnel'',
      Rem ''like anything else, which is a limit of this design and not an'',
      Rem ''oversight.'',
      RuleLine (Rule [IifName (Hotspot p), TcpDport 853] RejectTcpReset ''DNS over TLS''),
      RuleLine (Rule [IifName (Hotspot p), UdpDport 853] Drop ''DNS over QUIC''),
      Gap]\<close>

definition isolation_items :: "plan \<Rightarrow> nft_item list" where
  \<open>isolation_items p =
    [
      RuleLine (Rule [IifName (Hotspot p), OifName (Hotspot p)] Drop ''client isolation''),
      Gap]\<close>

definition cut_items :: "plan \<Rightarrow> nft_item list" where
  \<open>cut_items p =
    [
      Rem ''CLIENT TRAFFIC IS CUT.'',
      Rem '''',
      Rem ''The user asked for client traffic to stop without switching the'',
      Rem ''appliance off, which would take the hotspot down and disconnect'',
      Rem ''every joined device including the one they are holding.'',
      Rem '''',
      Rem ''This rule is explicit rather than left to the policy above, so an'',
      Rem (''operator reading '' @ dquoted ''nft list ruleset'' @ '' sees a reason and not an''),
      Rem ''absence. The hotspot, DHCP, DNS and the panel keep working: all of'',
      Rem ''those are INPUT to this box and its OUTPUT replies, and none of'',
      Rem ''them is FORWARD.'',
      Rem '''',
      Rem ''Nothing persists this. The ruleset is regenerated on every start,'',
      Rem ''so a restart returns to forwarding.'',
      RuleLine (Rule [IifName (Hotspot p)] Drop ''client traffic cut by the user'')]\<close>

definition forward_accept_items :: "plan \<Rightarrow> nft_item list" where
  \<open>forward_accept_items p =
    [
      Rem ''The only way out for a client, and the only way back in. Both name'',
      Rem ''the tunnel, so both stop matching when it is gone, leaving the policy'',
      Rem ''above to drop everything.'',
      RuleLine (Rule [NfProto Fam4, IifName (Hotspot p), OifName (Tun p), IpSaddrIn (HotspotSubnet p)] Accept ''''),
      RuleLine (Rule [NfProto Fam4, IifName (Tun p), OifName (Hotspot p), IpDaddrIn (HotspotSubnet p)] Accept '''')]\<close>

definition ipv6_forward_items :: "plan \<Rightarrow> nft_item list" where
  \<open>ipv6_forward_items p =
    [
      Rem ''IPv6Forward emits no accept here: there is no v6 prefix to'',
      Rem ''constrain one to, so the drop policy above stands for IPv6.'']\<close>

definition open_output_items :: "plan \<Rightarrow> nft_item list" where
  \<open>open_output_items p =
    [
      Rem ''Stated explicitly, and accept rather than drop. The box's own traffic'',
      Rem ''is outside the fail-closed guarantee, because the engine has to reach'',
      Rem ''the server through the uplink for the tunnel to exist at all. The'',
      Rem ''promise this ruleset makes covers forwarded client traffic only.'',
      Rem '''',
      Rem ''This is EgressOpen, which is not the default. It exists as the way'',
      Rem ''back for a user on a network nobody thought about, without a rebuild.'',
      RuleLine (Rule [OifName (Tun p)] Accept ''tunnel: a router's own traffic is OUTPUT, not FORWARD''),
      Gap,
      Rem ''Never advertise an IPv6 prefix to clients while there is no IPv6'',
      Rem ''tunnel: an autoconfigured client would prefer v6 and bypass it.'',
      RuleLine (Rule [OifName (Hotspot p), Icmp6Type [''nd-router-advert'']] Drop '''')]\<close>

definition restricted_output_head :: "plan \<Rightarrow> nft_item list" where
  \<open>restricted_output_head p =
    [
      Rem ''THE KILL SWITCH COVERS THIS BOX TOO.'',
      Rem '''',
      Rem ''Everything the Pi sends that is not named below is dropped while the'',
      Rem (''appliance is on. That includes apt: '' @ dquoted ''apt update'' @ '' from a shell on this''),
      Rem ''box will fail until the appliance is switched off. That cost is known'',
      Rem ''and was accepted; it is not a fault to be worked around by widening'',
      Rem ''this list.'',
      Rem '''',
      Rem ''Residual worth knowing: DNS below is a hole. Anything on this box can'',
      Rem ''still reach the network on port 53, and the server's hostname is'',
      Rem ''resolved in the clear on the local network before any tunnel exists.'',
      Rem ''Neither is a leak of client traffic and neither is made worse here.'',
      Gap,
      Rem ''FIRST, and it has to be first. Every outbound reply to an inbound'',
      Rem ''connection is here, including the administrator's SSH session. A drop'',
      Rem ''policy without this line kills that session the moment it loads.'',
      RuleLine (Rule [CtState [CtEstablished, CtRelated]] Accept ''''),
      RuleLine (Rule [OifName ''lo''] Accept ''''),
      RuleLine (Rule [OifName (Tun p)] Accept ''tunnel: a router's own traffic is OUTPUT, not FORWARD''),
      Gap,
      Rem ''Never advertise an IPv6 prefix to clients while there is no IPv6'',
      Rem ''tunnel. Redundant under the drop policy above and kept explicit'',
      Rem ''because it is load-bearing if that policy is ever loosened.'',
      RuleLine (Rule [OifName (Hotspot p), Icmp6Type [''nd-router-advert'']] Drop ''''),
      Gap,
      Rem ''DHCP, in BOTH directions, and the asymmetry with DNS below is the'',
      Rem ''point rather than an oversight.'',
      Rem '''',
      Rem ''As a CLIENT: measured on the target, NetworkManager holds a DHCP'',
      Rem ''socket per interface. Blocking this costs the box its address at the'',
      Rem ''next renewal, hours after the rule loads, with nothing to connect the'',
      Rem ''two events.'',
      Rem '''',
      Rem ''As a SERVER on the hotspot: these replies are NOT covered by the'',
      Rem ''established rule above, because a DHCP reply goes to a broadcast'',
      Rem ''address or to a client that has no address yet, so the request and the'',
      Rem ''reply share no tuple for conntrack to match. Without this line the'',
      Rem ''hotspot beacons, devices associate, and not one of them gets an'',
      Rem ''address, which looks like a broken radio rather than a firewall.'',
      Rem '''',
      Rem ''DNS needs no such line: a client's query creates the conntrack entry'',
      Rem ''and the answer matches its reply direction. That is the difference.'',
      RuleLine (Rule [UdpSport 68, UdpDport 67] Accept ''DHCP client: renew this box's own lease''),
      RuleLine (Rule [UdpSport 67, UdpDport 68] Accept ''DHCP server: answer joined devices''),
      Gap,
      Rem ''systemd-timesyncd. Measured active on the target with NTP=yes. A'',
      Rem ''drifted clock fails REALITY and TLS in a way that reads as a rejected'',
      Rem ''configuration, so the symptom points at the user's config rather than'',
      Rem ''at this rule.'',
      RuleLine (Rule [UdpDport 123] Accept ''NTP''),
      Gap,
      Rem ''DNS. The box resolves the server's hostname, and timesyncd resolves'',
      Rem ''its pool names. See the residual in the header.'',
      RuleLine (Rule [UdpDport 53] Accept ''''),
      RuleLine (Rule [TcpDport 53] Accept ''''),
      Gap,
      Rem ''The engine's own connection to the server, by ADDRESS and not by'',
      Rem ''port. Some transports are UDP on 443, so a TCP-only permit would'',
      Rem ''break them silently. This is the same address the plan pins a host'',
      Rem ''route to, for the same reason: it is the one connection that must'',
      Rem ''reach the uplink directly or there is no tunnel at all.'']\<close>

definition restricted_output_tail :: "plan \<Rightarrow> nft_item list" where
  \<open>restricted_output_tail p =
    [
      Rem ''IPv6 does not work at all without neighbour discovery, and an inet'',
      Rem ''table's output chain filters IPv6. Blocking this breaks the box's'',
      Rem ''own IPv6 silently. It costs nothing: these are link-local and cannot'',
      Rem ''carry a client's traffic. Router advertisement is deliberately not in'',
      Rem ''the set; the rule above drops it on the hotspot.'',
      RuleLine (Rule [NfProto Fam6, Icmp6Type [''nd-neighbor-solicit'', ''nd-neighbor-advert'', ''nd-router-solicit'', ''destination-unreachable'', ''packet-too-big'', ''time-exceeded'', ''parameter-problem'']] Accept ''''),
      Gap,
      Rem ''Deliberately absent: mDNS and the IGMP membership reports avahi sends'',
      Rem ''for 224.0.0.251. avahi will not reach the network. Nothing this'',
      Rem ''product does needs it, and that is a decision rather than an'',
      Rem ''oversight.'']\<close>

definition prerouting_items :: "plan \<Rightarrow> nft_item list" where
  \<open>prerouting_items p =
    [
      Rem ''Redirected, not merely permitted. A client with a resolver hardcoded'',
      Rem ''into it must be answered by this box rather than allowed out to reach'',
      Rem ''the one it was told to use: redirect rewrites the destination address'',
      Rem ''to this box, so the query is answered here whatever it was aimed at.'',
      RuleLine (Rule [IifName (Hotspot p), UdpDport 53] (RedirectTo (DNSPort (Opts p))) ''''),
      RuleLine (Rule [IifName (Hotspot p), TcpDport 53] (RedirectTo (DNSPort (Opts p))) '''')]\<close>

definition masquerade_items :: "plan \<Rightarrow> nft_item list" where
  \<open>masquerade_items p =
    [
      RuleLine (Rule [OifName (Tun p)] Masquerade ''enabled by configuration'')]\<close>

definition no_masquerade_items :: "plan \<Rightarrow> nft_item list" where
  \<open>no_masquerade_items p =
    [
      Rem ''Deliberately empty.'',
      Rem (''No masquerade towards '' @ (Uplink p) @ '': source NAT there is the leak this whole''),
      Rem ''ruleset exists to prevent, and it is the single line that would'',
      Rem ''quietly turn the appliance into an ordinary router.'',
      Rem (''No masquerade towards '' @ (Tun p) @ '' either: that device is a userspace netstack''),
      Rem ''which terminates TCP and UDP flows and dials out itself, so a'',
      Rem ''client's source address never reaches the wire and there is nothing'',
      Rem ''to translate. Options.MasqueradeToTunnel turns it on for the case'',
      Rem ''where the tunnel is a real layer 3 interface.'']\<close>

definition server_items :: "plan \<Rightarrow> nft_item list" where
  "server_items p =
     (if ServerAddr p = [] then [Rem ''(no server address in this plan)''] else []) @
     map (\<lambda>sa. RuleLine (Rule [if Is6 sa then Ip6Daddr sa else IpDaddr sa] Accept ''the proxy server'')) (ServerAddr p) @
     [Gap]"

definition writeRestrictedOutput :: "plan \<Rightarrow> nft_chain" where
  "writeRestrictedOutput p = \<lparr>nName = ''output'', nHook = ''filter hook output priority filter'', nPolicy = Drop,
     nItems = restricted_output_head p @ server_items p @ restricted_output_tail p\<rparr>"

definition input_chain :: "plan \<Rightarrow> nft_chain" where
  "input_chain p = \<lparr>nName = ''input'', nHook = ''filter hook input priority filter'', nPolicy = Accept,
     nItems = input_items p\<rparr>"

definition forward_chain :: "plan \<Rightarrow> forward_state \<Rightarrow> nft_chain" where
  "forward_chain p st = \<lparr>nName = ''forward'', nHook = ''filter hook forward priority filter'', nPolicy = Drop,
     nItems = leak_block_items p @
       (if IPv6 (Opts p) = IPv6Block then ipv6_block_items p else []) @
       dns_bypass_items p @
       (if ClientIsolation (Opts p) then isolation_items p else []) @
       [RuleLine (Rule [CtState [CtInvalid]] Drop ''''), Gap] @
       (if st = ForwardCut then cut_items p
        else forward_accept_items p @ (if IPv6 (Opts p) = IPv6Forward then ipv6_forward_items p else []))\<rparr>"

definition output_chain :: "plan \<Rightarrow> nft_chain" where
  "output_chain p =
     (if Egress (Opts p) = EgressOpen
      then \<lparr>nName = ''output'', nHook = ''filter hook output priority filter'', nPolicy = Accept, nItems = open_output_items p\<rparr>
      else writeRestrictedOutput p)"

definition prerouting_chain :: "plan \<Rightarrow> nft_chain" where
  "prerouting_chain p = \<lparr>nName = ''prerouting'', nHook = ''nat hook prerouting priority dstnat'', nPolicy = Accept,
     nItems = prerouting_items p\<rparr>"

definition postrouting_chain :: "plan \<Rightarrow> nft_chain" where
  "postrouting_chain p = \<lparr>nName = ''postrouting'', nHook = ''nat hook postrouting priority srcnat'', nPolicy = Accept,
     nItems = (if MasqueradeToTunnel (Opts p) then masquerade_items p else no_masquerade_items p)\<rparr>"

definition ruleset_chains :: "plan \<Rightarrow> forward_state \<Rightarrow> nft_chain list" where
  "ruleset_chains p st = [input_chain p, forward_chain p st, output_chain p, prerouting_chain p, postrouting_chain p]"

section \<open>The whole text\<close>

definition TableName :: string where "TableName = ''caspian''"

definition text_lines :: "string list \<Rightarrow> string" where
  "text_lines ls = concat (map (\<lambda>l. l @ [newline]) ls)"

definition ruleset_header :: "plan \<Rightarrow> forward_state \<Rightarrow> string list" where
  \<open>ruleset_header p st =
     [''# Caspian-BYOC generated firewall ruleset. Do not edit by hand:'',
      ''# it is regenerated and replaced atomically on every start.'',
      ''#'',
      ''# uplink='' @ Uplink p @ '' hotspot='' @ Hotspot p @ '' tunnel='' @ Tun p @ '' hotspot-subnet='' @ prefix_string (HotspotSubnet p),
      ''# egress='' @ (if Egress (Opts p) = EgressOpen then ''open'' else ''restricted'') @
        '' forward='' @ (if st = ForwardCut then ''CUT by the user'' else ''normal'')] @
     (if Egress (Opts p) = EgressRestricted
      then [''#'',
        ''# egress=restricted means this box's OWN outbound traffic is dropped'',
        ''# unless the output chain names it. '' @ dquoted ''apt update'' @ '' from a shell here will'',
        ''# fail while the appliance is on. That is intended and was accepted.'']
      else []) @
     [''#'',
      ''# Every interface match below is by NAME and never by index. Index matching'',
      ''# is resolved when the ruleset loads, so a ruleset naming '' @ Tun p @ '' by index cannot'',
      ''# be loaded while the tunnel is down, and that is exactly when it has to be'',
      ''# in force. Name matching is resolved per packet and loads with no tunnel.'',
      '''',
      ''table inet '' @ TableName,
      ''delete table inet '' @ TableName,
      '''',
      ''table inet '' @ TableName @ '' {'']\<close>

definition RulesetFor :: "plan \<Rightarrow> forward_state \<Rightarrow> string" where
  "RulesetFor p st =
     text_lines (ruleset_header p st) @ join [newline] (map chain_text (ruleset_chains p st)) @ ''}'' @ [newline]"

definition Ruleset :: "plan \<Rightarrow> string" where
  "Ruleset p = RulesetFor p ForwardNormal"

definition RulesetTeardown :: "plan \<Rightarrow> string" where
  "RulesetTeardown p = text_lines
     [''# Caspian-BYOC firewall teardown. The bare declaration makes the delete'',
      ''# idempotent: it creates the table if it is absent so that removing it'',
      ''# always succeeds, including on a machine where nothing was ever loaded.'',
      ''table inet '' @ TableName, ''delete table inet '' @ TableName]"

end
