(* ===== verification/Route.thy ===== *)
theory Route
  imports Nft
begin

text \<open>
  The commands a plan turns into on Linux (\<open>internal/netcfg/route.go\<close>, with the cut and restore steps of
  \<open>nftables.go\<close>): every step carries its inverse, and the two lists are applied before and after the engine
  starts. What detection read of the kernel's knobs is the map \<open>current\<close>.
\<close>

definition ipCmd :: "string \<Rightarrow> string list \<Rightarrow> command" where
  "ipCmd why args = mk_command BinIP args why"

definition mk_step :: "string \<Rightarrow> string \<Rightarrow> command \<Rightarrow> command \<Rightarrow> step" where
  "mk_step op why d u = \<lparr>Op = op, Why = why, Do = d, Undo = u, Pre = None\<rparr>"

section \<open>Kernel knobs\<close>

definition sysctlStep :: "string \<Rightarrow> string \<Rightarrow> (string, string) gomap \<Rightarrow> string \<Rightarrow> step" where
  "sysctlStep knob value current why =
     (let do_cmd = mk_command BinSysctl [''-w'', knob @ ''='' @ value] why
      in case map_of current knob of
           Some prev \<Rightarrow> mk_step OpSysctl why do_cmd
             (mk_command BinSysctl [''-w'', knob @ ''='' @ prev] ''restore the value read before the change'')
         | None \<Rightarrow> mk_step OpSysctl
             (why @ '' (no previous value was read for '' @ knob @ '', so this change has no recorded inverse)'')
             do_cmd zero_command)"

definition rpWhy :: string where
  "rpWhy = ''loosen reverse-path filtering; with two routing tables the return path is asymmetric '' @
     ''and the strict filter drops replies as martians, which presents as a tunnel that connects and carries nothing''"

definition SysctlSteps :: "plan \<Rightarrow> (string, string) gomap \<Rightarrow> step list" where
  "SysctlSteps p current =
     (let rp = int_to_string (RPFilter (Opts p))
      in [sysctlStep ''net.ipv4.ip_forward'' ''1'' current
            ''a box that shares its connection is a router, and a router forwards'',
          sysctlStep ''net.ipv4.conf.all.rp_filter'' rp current
            (rpWhy @ '' (the kernel uses the maximum of conf.all and the per-interface value, and loose is the '' @
             ''larger value, so setting conf.all pins every interface to loose on its own)''),
          sysctlStep ''net.ipv4.conf.default.rp_filter'' rp current
            (rpWhy @ '' (conf.default is what a newly created interface starts with, kept as redundancy in case conf.all is lowered later)'')] @
         (case IPv6 (Opts p) of
            IPv6Block \<Rightarrow> [sysctlStep ''net.ipv6.conf.all.forwarding'' ''0'' current
              ''there is no IPv6 tunnel, so forwarded IPv6 would leave outside the tunnel'']
          | IPv6Forward \<Rightarrow> [sysctlStep ''net.ipv6.conf.all.forwarding'' ''1'' current
              ''IPv6 is carried, so the box must forward it'']))"

definition BaseSysctlKnobs :: "string list" where
  "BaseSysctlKnobs = [''net.ipv4.ip_forward'', ''net.ipv4.conf.all.rp_filter'', ''net.ipv4.conf.default.rp_filter'',
     ''net.ipv6.conf.all.forwarding'']"

section \<open>Host routes to the servers\<close>

definition pinnedRouteMetric :: int where "pinnedRouteMetric = 5"

definition hostRouteArgs :: "plan \<Rightarrow> string \<Rightarrow> addr \<Rightarrow> string list" where
  "hostRouteArgs p verb s =
     (let bits = (if Is6 s then 128 else 32);
          gw = (if Is6 s then UplinkV6Gw p else UplinkGateway p);
          dev = (if Is6 s then (if UplinkV6Dev p = '''' then Uplink p else UplinkV6Dev p) else Uplink p);
          onlink = (if Is6 s then \<not> IsValid gw else UplinkOnLink p)
      in (if Is6 s then [''-6'', ''route'', verb] else [''route'', verb]) @
         [prefix_string (PrefixFrom s bits)] @
         (if \<not> onlink \<and> IsValid gw then [''via'', addr_string gw] else []) @
         [''dev'', dev] @
         (if verb = ''add'' then [''proto'', ''static''] else []) @
         [''metric'', int_to_string pinnedRouteMetric])"

definition serverRouteWhy :: string where
  "serverRouteWhy = ''pin the route to the proxy server through the real gateway, so the engine's own connection '' @
     ''to it does not match the default route through the tunnel and loop through itself''"

definition ServerRouteSteps :: "plan \<Rightarrow> step list" where
  "ServerRouteSteps p =
     map (\<lambda>s. mk_step OpRoute serverRouteWhy (ipCmd serverRouteWhy (hostRouteArgs p ''add'' s))
            (ipCmd ''remove the pinned host route'' (hostRouteArgs p ''del'' s)))
       (filter (canPin p) (ServerAddr p))"

section \<open>The hotspot interface\<close>

definition VirtualIfaceSteps :: "plan \<Rightarrow> step list" where
  "VirtualIfaceSteps p =
     (if \<not> HotspotIsVirtual p \<or> Hotspot p = '''' \<or> HotspotPhy p = '''' then []
      else let why = ''create an interface for the access point on '' @ HotspotPhy p @ '' rather than reconfiguring the '' @
                 ''one already there, which would drop the network that interface is connected to'';
               relWhy = ''release '' @ Hotspot p @ '' from NetworkManager, which claims a wifi device the moment it appears '' @
                 ''and flushes the address off it''
           in [(mk_step OpCreateIface why
                 (mk_command BinIw [''phy'', HotspotPhy p, ''interface'', ''add'', Hotspot p, ''type'', ''__ap''] why)
                 (mk_command BinIw [''dev'', Hotspot p, ''del''] ''remove the interface created for the access point''))
                 \<lparr>Pre := Some (ifacePresent (Hotspot p))\<rparr>] @
              (if NetworkManagerPresent p
               then [mk_step OpLink relWhy (mk_command BinNmcli [''device'', ''set'', Hotspot p, ''managed'', ''no''] relWhy) zero_command]
               else []))"

definition release_from_manager :: "plan \<Rightarrow> step" where
  "release_from_manager p =
     (let why = ''release '' @ Hotspot p @ '' from NetworkManager, which otherwise reconnects it to the network it was '' @
            ''joined to while the access point is meant to be running on it''
      in mk_step OpLink why (mk_command BinNmcli [''device'', ''set'', Hotspot p, ''managed'', ''no''] why)
           (mk_command BinNmcli [''device'', ''set'', Hotspot p, ''managed'', ''yes'']
              ''give the interface back, or this box never rejoins the user's WiFi again''))"

definition strip_prefix :: "plan \<Rightarrow> prefix \<Rightarrow> step" where
  "strip_prefix p pfx =
     (let why = ''take '' @ prefix_string pfx @ '' off '' @ Hotspot p @ '': it belongs to the network this interface was joined '' @
            ''to, and leaving it gives anything bound here a path onto that network''
      in mk_step OpAddr why (ipCmd why [''address'', ''del'', prefix_string pfx, ''dev'', Hotspot p])
           (ipCmd ''put the station address back'' [''address'', ''add'', prefix_string pfx, ''dev'', Hotspot p]))"

definition retype_steps :: "plan \<Rightarrow> step list" where
  "retype_steps p =
     (let downWhy = ''the interface type cannot be changed while the interface is up'';
          typeWhy = ''put '' @ Hotspot p @ '' into access point mode before anything is asked to serve on it, so the state '' @
            ''can be read back rather than assumed from a process being alive''
      in [mk_step OpLink downWhy (ipCmd downWhy [''link'', ''set'', ''dev'', Hotspot p, ''down''])
            (ipCmd ''bring the interface back up'' [''link'', ''set'', ''dev'', Hotspot p, ''up'']),
          mk_step OpCreateIface typeWhy (mk_command BinIw [''dev'', Hotspot p, ''set'', ''type'', ''__ap''] typeWhy)
            (mk_command BinIw [''dev'', Hotspot p, ''set'', ''type'', ''managed''] ''put the interface back to a station'')])"

definition HotspotReleaseSteps :: "plan \<Rightarrow> step list" where
  "HotspotReleaseSteps p =
     (if Hotspot p = '''' then []
      else (if HotspotManager p = ManagedByNetworkManager then [release_from_manager p] else []) @
           map (strip_prefix p) (HotspotStationPrefixes p) @
           (if \<not> HotspotTakenOver p then [] else retype_steps p))"

definition HotspotAddrSteps :: "plan \<Rightarrow> step list" where
  "HotspotAddrSteps p =
     (if Hotspot p = '''' \<or> \<not> valid_prefix (HotspotSubnet p) then []
      else let addr = prefix_string (PrefixFrom (HotspotGateway p) (pBits (HotspotSubnet p)));
               addWhy = ''the box is the default gateway for its clients, so it holds the first address on the hotspot subnet''
           in [mk_step OpLink ''the access point cannot start on a down interface''
                 (ipCmd ''bring the hotspot interface up'' [''link'', ''set'', ''dev'', Hotspot p, ''up'']) zero_command,
               mk_step OpAddr addWhy (ipCmd addWhy [''address'', ''add'', addr, ''dev'', Hotspot p])
                 (ipCmd ''take the hotspot address back off'' [''address'', ''del'', addr, ''dev'', Hotspot p])])"

section \<open>The tunnel\<close>

definition TunnelAddrSteps :: "plan \<Rightarrow> step list" where
  "TunnelAddrSteps p =
     (if \<not> valid_prefix (TunSubnet p) then []
      else let addr = prefix_string (PrefixFrom (TunAddr p) (pBits (TunSubnet p)));
               why = ''the tunnel device is created with no address at all, and an interface with no address '' @
                 ''cannot be the target of a route''
           in [mk_step OpAddr why (ipCmd why [''address'', ''add'', addr, ''dev'', Tun p])
                 (ipCmd ''take the tunnel address back off'' [''address'', ''del'', addr, ''dev'', Tun p])])"

definition halfWhy :: string where
  "halfWhy = ''send everything through the tunnel using two half defaults, which are more specific '' @
     ''than the uplink's default route and so do not have to replace it''"

definition subnetWhy :: string where
  "subnetWhy = ''keep traffic between two hotspot clients on the hotspot: without this route the rule '' @
     ''below sends it to the tunnel table, whose only route is the default, and client-to-client '' @
     ''traffic disappears into the tunnel''"

definition defWhy :: string where
  "defWhy = ''the tunnel is the default route for everything that selects the tunnel table''"

definition ruleWhy :: string where
  "ruleWhy = ''send traffic from hotspot clients to the tunnel table, leaving the box's own traffic '' @
     ''on the main table, which is what lets the engine reach the server at all''"

definition markWhy :: string where
  "markWhy = ''select the tunnel table for traffic carrying this mark. NOTHING IN THIS PROGRAM SETS '' @
     ''THE MARK as of 2026-08-30, so this rule currently matches nothing; the box's own traffic, '' @
     ''including the engine's socket to the server, stays on the main table''"

definition half_step :: "plan \<Rightarrow> string \<Rightarrow> step" where
  "half_step p half = mk_step OpRoute halfWhy (ipCmd halfWhy [''route'', ''add'', half, ''dev'', Tun p, ''proto'', ''static''])
     (ipCmd ''remove the half default'' [''route'', ''del'', half, ''dev'', Tun p])"

definition TunnelRouteSteps :: "plan \<Rightarrow> step list" where
  "TunnelRouteSteps p =
     (let table = int_to_string (Table (Opts p)); prio = int_to_string (RulePrio (Opts p));
          markPrio = int_to_string (RulePrio (Opts p) - 1); mark = ''0x'' @ hex_nat (unat (FwMark (Opts p)));
          sub = prefix_string (HotspotSubnet p)
      in if Strategy (Opts p) = StrategySplitDefault then map (half_step p) [''0.0.0.0/1'', ''128.0.0.0/1'']
         else [mk_step OpRoute subnetWhy (ipCmd subnetWhy [''route'', ''add'', sub, ''dev'', Hotspot p, ''scope'', ''link'', ''table'', table])
                 (ipCmd ''remove the hotspot subnet route from the tunnel table'' [''route'', ''del'', sub, ''dev'', Hotspot p, ''table'', table]),
               mk_step OpRoute defWhy (ipCmd defWhy [''route'', ''add'', ''default'', ''dev'', Tun p, ''proto'', ''static'', ''table'', table])
                 (ipCmd ''remove the tunnel default route'' [''route'', ''del'', ''default'', ''dev'', Tun p, ''table'', table]),
               mk_step OpRule ruleWhy (ipCmd ruleWhy [''rule'', ''add'', ''from'', sub, ''lookup'', table, ''priority'', prio])
                 (ipCmd ''remove the hotspot policy rule'' [''rule'', ''del'', ''from'', sub, ''lookup'', table, ''priority'', prio]),
               mk_step OpRule markWhy (ipCmd markWhy [''rule'', ''add'', ''fwmark'', mark, ''lookup'', table, ''priority'', markPrio])
                 (ipCmd ''remove the fwmark policy rule'' [''rule'', ''del'', ''fwmark'', mark, ''lookup'', table, ''priority'', markPrio])])"

section \<open>The firewall and the whole lists\<close>

definition nft_load :: "string \<Rightarrow> string \<Rightarrow> command" where
  "nft_load text why = \<lparr>Path = BinNft, Args = [''-f'', ''-''], Stdin = text, cmdWhy = why\<rparr>"

definition nft_step :: "plan \<Rightarrow> forward_state \<Rightarrow> string \<Rightarrow> step" where
  "nft_step p st why = mk_step OpNft why (nft_load (RulesetFor p st) why) (nft_load (RulesetTeardown p) ''remove the generated tables'')"

definition FirewallStep :: "plan \<Rightarrow> step" where
  "FirewallStep p = nft_step p ForwardNormal
     ''install the fail-closed ruleset, which must be in force before anything can be forwarded''"

definition linuxCutStep :: "plan \<Rightarrow> step" where
  "linuxCutStep p = nft_step p ForwardCut
     (''cut forwarded client traffic without taking the hotspot down, so a joined device stays '' @
      ''joined and can still reach the panel to turn it back on'')"

definition linuxRestoreStep :: "plan \<Rightarrow> step" where
  "linuxRestoreStep p = nft_step p ForwardNormal ''resume forwarding client traffic through the tunnel''"

definition linuxPreEngineSteps :: "plan \<Rightarrow> (string, string) gomap \<Rightarrow> step list" where
  "linuxPreEngineSteps p current =
     [FirewallStep p] @ SysctlSteps p current @ VirtualIfaceSteps p @ HotspotReleaseSteps p @ HotspotAddrSteps p @
     ServerRouteSteps p"

definition linuxPostEngineSteps :: "plan \<Rightarrow> (string, string) gomap \<Rightarrow> step list" where
  "linuxPostEngineSteps p current = TunnelAddrSteps p @ TunnelRouteSteps p"

section \<open>Moving to another uplink\<close>

definition rederive_undo :: "step \<Rightarrow> step" where
  "rederive_undo s = \<lparr>Op = Op s,
     Why = ''remove the host route pinned through the previous gateway, which no longer reaches the server'',
     Do = Undo s, Undo = Do s, Pre = None\<rparr>"

definition RederiveForUplink :: "plan \<Rightarrow> uplink_state \<Rightarrow> step list \<times> step list \<times> step \<times> plan" where
  "RederiveForUplink p u =
     (let q = WithUplink p u
      in (map rederive_undo (filter (\<lambda>s. \<not> IsZero (Undo s)) (rev (ServerRouteSteps p))), ServerRouteSteps q, FirewallStep q, q))"

end
