(* ===== verification/SimKernel.thy ===== *)
theory SimKernel
  imports Route "HOL-Library.List_Lexorder" "HOL-Library.Char_ord"
begin

text \<open>
  The machine that answers the way a Linux kernel answers (\<open>internal/netcfg/simulated_kernel.go\<close>). A Go map
  of booleans is the list of the keys that are true, a map of maps of booleans the list of its true pairs.
  The order of one \<open>range\<close> over a map is the parameter \<open>ord\<close>. The runner that answers what the kernel does
  not model is the field \<open>Reads\<close>, a function of the command.
\<close>

section \<open>State\<close>

record sim_rule =
  srPriority :: string
  srSelector :: string

record sim_kernel =
  kAddrs :: "(string \<times> string) list"
  kRoutes :: "(string \<times> string) list"
  kRules :: "sim_rule list"
  kSysctl :: "(string, string) gomap"
  kIfaces :: "string list"
  kUnmanaged :: "string list"
  kIftype :: "(string, string) gomap"
  kMacs :: "(string, string) gomap"
  kAssoc :: "(string, string) gomap"
  kUp :: "string list"
  kIfacePhy :: "(string, string) gomap"
  kNft :: nat
  kRuleset :: string
  kCmds :: "command list"
  Reads :: "(command \<Rightarrow> cmd_result \<times> goerror) option"
  RefuseSetType :: string
  InheritsParentMAC :: bool
  RefuseLinkUp :: string
  RefuseIfaceAdd :: string

definition SimIwDriverRefuses :: string where
  "SimIwDriverRefuses = ''command failed: Input/output error (-5)''"

definition set_true :: "'a \<Rightarrow> 'a list \<Rightarrow> 'a list" where
  "set_true x xs = (if x \<in> set xs then xs else xs @ [x])"

definition set_flag :: "'a \<Rightarrow> bool \<Rightarrow> 'a list \<Rightarrow> 'a list" where
  "set_flag x b xs = (if b then set_true x xs else removeAll x xs)"

definition lookup_string :: "(string, string) gomap \<Rightarrow> string \<Rightarrow> string" where
  "lookup_string m k = (case map_of m k of None \<Rightarrow> '''' | Some v \<Rightarrow> v)"

definition add_iface :: "string \<Rightarrow> sim_kernel \<Rightarrow> sim_kernel" where
  "add_iface n k = k\<lparr>kIfaces := set_true n (kIfaces k), kIftype := AList.update n ''managed'' (kIftype k),
     kUp := set_true n (kUp k)\<rparr>"

definition NewSimulatedKernel :: "string list \<Rightarrow> sim_kernel" where
  "NewSimulatedKernel existingIfaces = fold add_iface existingIfaces
     \<lparr>kAddrs = [], kRoutes = [], kRules = [], kSysctl = [], kIfaces = [], kUnmanaged = [], kIftype = [], kMacs = [],
      kAssoc = [], kUp = [], kIfacePhy = [], kNft = 0, kRuleset = '''', kCmds = [], Reads = None, RefuseSetType = '''',
      InheritsParentMAC = False, RefuseLinkUp = '''', RefuseIfaceAdd = ''''\<rparr>"

datatype preload = PreAddr string string | PreRoute string string | PreRule string string | PreSysctl string string
  | PreIface string | PreMac string string | PreAssoc string string | PreIfacePhy string string

fun Preload :: "preload \<Rightarrow> sim_kernel \<Rightarrow> sim_kernel" where
  "Preload (PreAddr a b) k = k\<lparr>kAddrs := set_true (a, b) (kAddrs k)\<rparr>"
| "Preload (PreRoute a b) k = k\<lparr>kRoutes := set_true (a, b) (kRoutes k)\<rparr>"
| "Preload (PreRule a b) k = k\<lparr>kRules := kRules k @ [\<lparr>srPriority = a, srSelector = b\<rparr>]\<rparr>"
| "Preload (PreSysctl a b) k = k\<lparr>kSysctl := AList.update a b (kSysctl k)\<rparr>"
| "Preload (PreIface a) k = add_iface a k"
| "Preload (PreMac a b) k = k\<lparr>kMacs := AList.update a b (kMacs k)\<rparr>"
| "Preload (PreAssoc a b) k = k\<lparr>kAssoc := AList.update a b (kAssoc k)\<rparr>"
| "Preload (PreIfacePhy a b) k = k\<lparr>kIfacePhy := AList.update a b (kIfacePhy k)\<rparr>"

definition Snapshot :: "sim_kernel \<Rightarrow> string list" where
  "Snapshot k = sort
     (map (\<lambda>(dev, p). ''addr '' @ dev @ '' '' @ p) (kAddrs k) @
      map (\<lambda>(table, p). ''route '' @ table @ '' '' @ p) (kRoutes k) @
      map (\<lambda>r. ''rule '' @ srPriority r @ '' '' @ srSelector r) (kRules k) @
      map (\<lambda>(kn, v). ''sysctl '' @ kn @ ''='' @ v) (kSysctl k) @
      map (\<lambda>n. ''iface '' @ n) (kIfaces k) @
      map (\<lambda>n. ''unmanaged '' @ n) (kUnmanaged k) @
      map (\<lambda>(n, t). ''iftype '' @ n @ ''='' @ t) (kIftype k))"

definition kernel_Rules :: "sim_kernel \<Rightarrow> string list" where
  "kernel_Rules k = map (\<lambda>r. srPriority r @ '': '' @ srSelector r) (kRules k)"

definition kernel_Lines :: "sim_kernel \<Rightarrow> string list" where
  "kernel_Lines k = map CommandLine (kCmds k)"

section \<open>Answers\<close>

type_synonym answer = "(cmd_result \<times> goerror) \<times> sim_kernel"

definition simExists :: string where "simExists = ''RTNETLINK answers: File exists''"
definition simNoEntry :: string where "simNoEntry = ''RTNETLINK answers: No such file or directory''"
definition simNoDev :: string where "simNoDev = ''Cannot find device''"
definition simIwExists :: string where "simIwExists = ''command failed: Invalid exchange (-52)''"
definition simIwNoDev :: string where "simIwNoDev = ''command failed: No such device (-19)''"

definition simFail :: "string \<Rightarrow> sim_kernel \<Rightarrow> answer" where
  "simFail msg k = ((\<lparr>Stdout = '''', Stderr = msg, ExitCode = 2\<rparr>, Some msg), k)"

definition sim_ok :: "sim_kernel \<Rightarrow> answer" where
  "sim_ok k = ((no_result, None), k)"

definition sim_says :: "string \<Rightarrow> sim_kernel \<Rightarrow> answer" where
  "sim_says out k = ((no_result\<lparr>Stdout := out\<rparr>, None), k)"

definition sim_defer :: "command \<Rightarrow> sim_kernel \<Rightarrow> answer" where
  "sim_defer c k = (case Reads k of Some f \<Rightarrow> (f c, k) | None \<Rightarrow> sim_ok k)"

fun argAfter :: "string list \<Rightarrow> string \<Rightarrow> string" where
  "argAfter (a # b # rest) key = (if a = key then b else argAfter (b # rest) key)"
| "argAfter _ key = ''''"

section \<open>Commands\<close>

definition runNft :: "command \<Rightarrow> sim_kernel \<Rightarrow> answer" where
  "runNft c k =
     (if 2 \<le> length (Args c) \<and> hd (Args c) = ''list'' then
        (if kRuleset k = ''''
         then let msg = ''Error: No such file or directory''
              in ((\<lparr>Stdout = '''', Stderr = msg, ExitCode = 1\<rparr>, Some msg), k)
         else sim_says (kRuleset k) k)
      else sim_ok (k\<lparr>kNft := kNft k + 1,
             kRuleset := (if str_contains (Stdin c) ''firewall teardown'' then '''' else Stdin c)\<rparr>))"

definition runSysctl :: "command \<Rightarrow> sim_kernel \<Rightarrow> answer" where
  "runSysctl c k =
     (if 2 \<le> length (Args c) \<and> Args c ! 0 = ''-w'' then
        (let kv = Args c ! 1
         in if CHR ''='' \<notin> set kv then simFail ''sysctl: malformed setting'' k
            else sim_ok (k\<lparr>kSysctl := AList.update (takeWhile (\<lambda>x. x \<noteq> CHR ''='') kv)
                   (tl (dropWhile (\<lambda>x. x \<noteq> CHR ''='') kv)) (kSysctl k)\<rparr>))
      else
        let out = concat (map (\<lambda>a. case map_of (kSysctl k) a of Some v \<Rightarrow> a @ '' = '' @ v @ [newline] | None \<Rightarrow> '''')
                    (filter (\<lambda>a. \<not> has_prefix a ''-'') (Args c)))
        in if out \<noteq> '''' then sim_says out k else sim_defer c k)"

definition runNmcli :: "command \<Rightarrow> sim_kernel \<Rightarrow> answer" where
  "runNmcli c k =
     (let a = Args c
      in if 5 \<le> length a \<and> a ! 0 = ''device'' \<and> a ! 1 = ''set'' \<and> a ! 3 = ''managed'' then
           (if a ! 2 \<notin> set (kIfaces k) then simFail (''Error: Device '' @ [CHR 0x27] @ a ! 2 @ [CHR 0x27] @ '' not found.'') k
            else sim_ok (k\<lparr>kUnmanaged := set_flag (a ! 2) (a ! 4 = ''no'') (kUnmanaged k)\<rparr>))
         else if 2 \<le> length a \<and> a ! (length a - 2) = ''device'' \<and> a ! (length a - 1) = ''status'' then
           sim_says (concat (map (\<lambda>n. n @ '':'' @ (if n \<in> set (kUnmanaged k) then ''unmanaged'' else ''connected'') @ [newline])
             (sort (kIfaces k)))) k
         else sim_ok k)"

definition iw_add :: "(string, string) range_order \<Rightarrow> string list \<Rightarrow> sim_kernel \<Rightarrow> sim_kernel" where
  "iw_add ord a k =
     (let name = a ! 4;
          k = k\<lparr>kIfaces := kIfaces k @ [name], kIftype := AList.update name (a ! 6) (kIftype k),
                kIfacePhy := AList.update name (a ! 1) (kIfacePhy k)\<rparr>
      in if InheritsParentMAC k then
           (case List.find (\<lambda>(other, phy). other \<noteq> name \<and> phy = a ! 1 \<and> lookup_string (kMacs k) other \<noteq> '''') (range_over ord (kIfacePhy k)) of
              None \<Rightarrow> k
            | Some (other, phy) \<Rightarrow> k\<lparr>kMacs := AList.update name (lookup_string (kMacs k) other) (kMacs k)\<rparr>)
         else k)"

definition iw_del :: "string \<Rightarrow> sim_kernel \<Rightarrow> sim_kernel" where
  "iw_del name k = k\<lparr>kIfaces := removeAll name (kIfaces k), kIftype := AList.delete name (kIftype k),
     kMacs := AList.delete name (kMacs k), kAssoc := AList.delete name (kAssoc k), kUp := removeAll name (kUp k),
     kIfacePhy := AList.delete name (kIfacePhy k), kUnmanaged := removeAll name (kUnmanaged k)\<rparr>"

definition iw_link_text :: "string \<Rightarrow> string \<Rightarrow> string" where
  "iw_link_text name ssid =
     (if ssid = '''' then ''Not connected.'' @ [newline]
      else ''Connected to 12:34:56:78:9a:bc (on '' @ name @ '')'' @ [newline, tab] @ ''SSID: '' @ ssid @ [newline, tab] @ ''freq: 2457'' @ [newline])"

text \<open>The type of the new interface is the argument after \<open>type\<close>; the source panics on a command without one.\<close>

definition runIw :: "(string, string) range_order \<Rightarrow> command \<Rightarrow> sim_kernel \<Rightarrow> answer" where
  "runIw ord c k =
     (let a = Args c
      in if length a = 3 \<and> a ! 0 = ''dev'' \<and> a ! 2 = ''link'' then
           (if a ! 1 \<notin> set (kIfaces k) then simFail simIwNoDev k
            else sim_says (iw_link_text (a ! 1) (lookup_string (kAssoc k) (a ! 1))) k)
         else if 5 \<le> length a \<and> a ! 0 = ''dev'' \<and> a ! 2 = ''set'' \<and> a ! 3 = ''type'' then
           (if RefuseSetType k \<noteq> '''' then simFail (RefuseSetType k) k
            else if a ! 1 \<notin> set (kIfaces k) then simFail simIwNoDev k
            else sim_ok (k\<lparr>kIftype := AList.update (a ! 1) (a ! 4) (kIftype k)\<rparr>))
         else if 5 \<le> length a \<and> a ! 0 = ''phy'' \<and> a ! 2 = ''interface'' \<and> a ! 3 = ''add'' then
           (if RefuseIfaceAdd k \<noteq> '''' then simFail (RefuseIfaceAdd k) k
            else if a ! 4 \<in> set (kIfaces k) then simFail simIwExists k
            else sim_ok (iw_add ord a k))
         else if 3 \<le> length a \<and> a ! 0 = ''dev'' \<and> a ! 2 = ''del'' then
           (if a ! 1 \<notin> set (kIfaces k) then simFail simIwNoDev k else sim_ok (iw_del (a ! 1) k))
         else sim_defer c k)"

definition runLinkUp :: "string \<Rightarrow> sim_kernel \<Rightarrow> answer" where
  "runLinkUp name k =
     (if name \<notin> set (kIfaces k) then simFail simNoDev k
      else if lookup_string (kMacs k) name \<noteq> '''' \<and>
              list_ex (\<lambda>(other, m). other \<noteq> name \<and> m = lookup_string (kMacs k) name \<and> other \<in> set (kUp k)) (kMacs k)
        then simFail ''RTNETLINK answers: Name not unique on network'' k
      else if RefuseLinkUp k \<noteq> '''' \<and> lookup_string (kIfacePhy k) name \<noteq> '''' \<and>
              list_ex (\<lambda>(other, phy). other \<noteq> name \<and> phy = lookup_string (kIfacePhy k) name \<and> other \<in> set (kUp k)) (kIfacePhy k)
        then simFail (RefuseLinkUp k) k
      else sim_ok (k\<lparr>kUp := set_true name (kUp k)\<rparr>))"

definition runLinkShowDev :: "string \<Rightarrow> sim_kernel \<Rightarrow> answer" where
  "runLinkShowDev name k =
     (if name \<notin> set (kIfaces k)
      then let msg = ''Device '' @ dquoted name @ '' does not exist.''
           in ((\<lparr>Stdout = '''', Stderr = msg, ExitCode = 1\<rparr>, Some msg), k)
      else sim_says (name @ ''  DOWN  <BROADCAST,MULTICAST>'' @ [newline]) k)"

definition runIPAddr :: "string list \<Rightarrow> sim_kernel \<Rightarrow> answer" where
  "runIPAddr a k =
     (if length a < 4 then sim_ok k
      else let x = (argAfter a ''dev'', a ! 2)
           in if fst x = '''' \<or> fst x \<notin> set (kIfaces k) then simFail simNoDev k
              else if a ! 1 = ''add'' then
                (if x \<in> set (kAddrs k) then simFail simExists k else sim_ok (k\<lparr>kAddrs := kAddrs k @ [x]\<rparr>))
              else if a ! 1 = ''del'' then
                (if x \<notin> set (kAddrs k) then simFail simNoEntry k else sim_ok (k\<lparr>kAddrs := removeAll x (kAddrs k)\<rparr>))
              else sim_ok k)"

definition runIPRoute :: "string \<Rightarrow> string list \<Rightarrow> sim_kernel \<Rightarrow> answer" where
  "runIPRoute family a k =
     (if length a < 3 then sim_ok k
      else let table = (if argAfter a ''table'' = '''' then ''main'' else argAfter a ''table''); x = (table, family @ a ! 2)
           in if a ! 1 = ''add'' then
                (if x \<in> set (kRoutes k) then simFail simExists k else sim_ok (k\<lparr>kRoutes := kRoutes k @ [x]\<rparr>))
              else if a ! 1 = ''del'' then
                (if x \<notin> set (kRoutes k) then simFail simNoEntry k else sim_ok (k\<lparr>kRoutes := removeAll x (kRoutes k)\<rparr>))
              else sim_ok k)"

fun rule_selector :: "string list \<Rightarrow> string list" where
  "rule_selector [] = []"
| "rule_selector (x # xs) = (if x = ''priority'' then (case xs of [] \<Rightarrow> [] | _ # ys \<Rightarrow> rule_selector ys) else x # rule_selector xs)"

text \<open>One of the first priorities is free, as there are more of them than rules.\<close>

definition nextFreePriority :: "sim_rule list \<Rightarrow> string" where
  "nextFreePriority rs =
     the (List.find (\<lambda>p. \<not> list_ex (\<lambda>r. srPriority r = p) rs)
            (map (\<lambda>i. int_to_string (32765 - int i)) [0..<Suc (length rs)]))"

definition runIPRule :: "string list \<Rightarrow> sim_kernel \<Rightarrow> answer" where
  "runIPRule a k =
     (if length a < 2 then sim_ok k
      else let verb = a ! 1; prio = argAfter a ''priority'';
               sel = join '' '' (rule_selector (drop 2 a)); r = \<lparr>srPriority = prio, srSelector = sel\<rparr>
           in if verb = ''add'' then
                (if prio = '''' then sim_ok (k\<lparr>kRules := kRules k @ [r\<lparr>srPriority := nextFreePriority (kRules k)\<rparr>]\<rparr>)
                 else if r \<in> set (kRules k) then simFail simExists k
                 else sim_ok (k\<lparr>kRules := kRules k @ [r]\<rparr>))
              else if verb = ''del'' then
                (if r \<in> set (kRules k) then sim_ok (k\<lparr>kRules := remove1 r (kRules k)\<rparr>) else simFail simNoEntry k)
              else if verb = ''show'' \<or> verb = ''list'' then
                sim_says (concat (map (\<lambda>r. srPriority r @ '':'' @ [tab] @ srSelector r @ [newline]) (kRules k))) k
              else sim_ok k)"

fun strip_flags :: "string \<Rightarrow> string list \<Rightarrow> string \<times> string list" where
  "strip_flags family [] = (family, [])"
| "strip_flags family (a # as) =
     (if has_prefix a ''-'' then strip_flags (if a = ''-6'' then ''v6:'' else family) as else (family, a # as))"

definition runIP :: "command \<Rightarrow> sim_kernel \<Rightarrow> answer" where
  "runIP c k =
     (case strip_flags '''' (Args c) of
        (family, a) \<Rightarrow>
          if a = [] then sim_ok k
          else let isRead = (length a < 2 \<or> a ! 1 = ''show'' \<or> a ! 1 = ''list'')
               in if a ! 0 = ''link'' then
                    (if 4 \<le> length a \<and> isRead \<and> a ! 2 = ''dev'' then runLinkShowDev (a ! 3) k
                     else if isRead then sim_defer c k
                     else if 5 \<le> length a \<and> a ! 1 = ''set'' \<and> a ! 2 = ''dev'' \<and> last a = ''up'' then runLinkUp (a ! 3) k
                     else sim_ok k)
                  else if a ! 0 = ''address'' \<or> a ! 0 = ''addr'' then (if isRead then sim_defer c k else runIPAddr a k)
                  else if a ! 0 = ''route'' then (if isRead then sim_defer c k else runIPRoute family a k)
                  else if a ! 0 = ''rule'' then runIPRule a k
                  else sim_defer c k)"

definition kernel_run :: "(string, string) range_order \<Rightarrow> sim_kernel runner" where
  "kernel_run ord c k =
     (case ValidateCommand c of
        Some e \<Rightarrow> ((no_result, Some (command_error_text e)), k)
      | None \<Rightarrow>
          let k = k\<lparr>kCmds := kCmds k @ [c]\<rparr>
          in if Path c = BinNft then runNft c k
             else if Path c = BinSysctl then runSysctl c k
             else if Path c = BinNmcli then runNmcli c k
             else if Path c = BinIw then runIw ord c k
             else if Path c = BinIP then runIP c k
             else ((no_result, Some (''netcfg: SimulatedKernel does not model '' @ go_quote (Path c))), k))"

end
