(* ===== verification/Journal.thy ===== *)
theory Journal
  imports Command
begin

text \<open>
  The on-disk journal of inverses (\<open>internal/netcfg/journal.go\<close>). The file is a sequence of
  lines, each one record or text that does not decode, with a flag for a last line that has no
  newline yet: a record appended to such a line is joined to it and decodes no more, because a
  strict prefix of a JSON object followed by another object, or one complete object followed by
  another, is not a JSON document. Every operation on the disk may fail; what reached the disk
  before it failed is part of the failure. The time of a record is written and never read, and
  is left out.
\<close>

section \<open>Records and entries\<close>

datatype phase = PhaseBegin | PhaseDone | PhaseFailed | PhaseUndone | PhasePreexisting

record jrecord =
  rSeq :: int
  rPhase :: phase
  rOp :: string
  rWhy :: string
  rDo :: command
  rUndo :: command
  rErr :: string

record entry =
  eSeq :: int
  eOp :: string
  eWhy :: string
  eDo :: command
  eUndo :: command
  ePhase :: phase

definition NeedsUndo :: "entry \<Rightarrow> bool" where
  "NeedsUndo e =
     (case ePhase e of
        PhaseUndone \<Rightarrow> False
      | PhasePreexisting \<Rightarrow> False
      | _ \<Rightarrow> \<not> IsZero (eUndo e))"

definition begin_record :: "int \<Rightarrow> step \<Rightarrow> jrecord" where
  "begin_record q s = \<lparr>rSeq = q, rPhase = PhaseBegin, rOp = Op s, rWhy = Why s, rDo = Do s, rUndo = Undo s, rErr = ''''\<rparr>"

definition mark_record :: "int \<Rightarrow> phase \<Rightarrow> string \<Rightarrow> jrecord" where
  "mark_record q ph msg =
     \<lparr>rSeq = q, rPhase = ph, rOp = '''', rWhy = '''', rDo = zero_command, rUndo = zero_command, rErr = msg\<rparr>"

section \<open>The file\<close>

datatype jline = Rec jrecord | Junk

record jfile =
  flines :: "jline list"
  ftorn :: bool

text \<open>How much of an append reached the disk: nothing, a part of the line, the line but not its
  newline, or all of it.\<close>

datatype landed = Nothing | Part | NoNewline | Whole

definition append_line :: "jline list \<Rightarrow> bool \<Rightarrow> jline \<Rightarrow> jline list" where
  "append_line ls torn l = (if torn then butlast ls @ [Junk] else ls @ [l])"

definition append_record :: "jrecord \<Rightarrow> landed \<Rightarrow> jfile \<Rightarrow> jfile" where
  "append_record r l f =
     (case l of
        Nothing \<Rightarrow> f
      | Part \<Rightarrow> \<lparr>flines = append_line (flines f) (ftorn f) Junk, ftorn = True\<rparr>
      | NoNewline \<Rightarrow> \<lparr>flines = append_line (flines f) (ftorn f) (Rec r), ftorn = True\<rparr>
      | Whole \<Rightarrow> \<lparr>flines = append_line (flines f) (ftorn f) (Rec r), ftorn = False\<rparr>)"

definition empty_file :: jfile where
  "empty_file = \<lparr>flines = [], ftorn = False\<rparr>"

section \<open>Loading\<close>

definition blank_entry :: "int \<Rightarrow> phase \<Rightarrow> entry" where
  "blank_entry q ph =
     \<lparr>eSeq = q, eOp = '''', eWhy = '''', eDo = zero_command, eUndo = zero_command, ePhase = ph\<rparr>"

definition merge_record :: "jrecord \<Rightarrow> entry option \<Rightarrow> entry" where
  "merge_record r old =
     (let e = (case old of None \<Rightarrow> blank_entry (rSeq r) (rPhase r) | Some e \<Rightarrow> e);
          e = (if rPhase r = PhaseBegin
               then e\<lparr>eOp := rOp r, eWhy := rWhy r, eDo := rDo r, eUndo := rUndo r\<rparr> else e)
      in e\<lparr>ePhase := rPhase r\<rparr>)"

fun scan_line :: "jline \<Rightarrow> (int, entry) gomap \<Rightarrow> (int, entry) gomap" where
  "scan_line Junk m = m"
| "scan_line (Rec r) m = AList.update (rSeq r) (merge_record r (map_of m (rSeq r))) m"

definition scan :: "jline list \<Rightarrow> (int, entry) gomap" where
  "scan ls = fold scan_line ls []"

definition keep_entry :: "entry \<Rightarrow> bool" where
  "keep_entry e \<longleftrightarrow> \<not> (IsZero (eDo e) \<and> IsZero (eUndo e))"

definition load_entries :: "jfile option \<Rightarrow> entry list" where
  "load_entries f =
     (case f of None \<Rightarrow> []
      | Some f \<Rightarrow> sort_key eSeq (filter keep_entry (map snd (scan (flines f)))))"

definition rewrite_file :: "entry list \<Rightarrow> jfile option" where
  "rewrite_file es =
     (if es = [] then None
      else Some \<lparr>flines = map (\<lambda>e. Rec \<lparr>rSeq = eSeq e, rPhase = PhaseBegin, rOp = eOp e, rWhy = eWhy e,
                   rDo = eDo e, rUndo = eUndo e, rErr = ''''\<rparr>) es, ftorn = False\<rparr>)"

section \<open>The journal on its disk\<close>

datatype io = IoOk | IoErr string landed

text \<open>What a run leaves behind it, in order: the read-only questions asked, the commands that ran,
  the records written, the
  replacement of the whole file.\<close>

datatype effect = Asked command | Ran command | Wrote jrecord landed | Replaced "entry list" | Created

record 'w host =
  world :: 'w
  jfile :: "jfile option"
  jseq :: int
  disk :: "io list"
  log :: "effect list"

definition next_io :: "'w host \<Rightarrow> io \<times> 'w host" where
  "next_io s = (case disk s of [] \<Rightarrow> (IoOk, s) | i # is \<Rightarrow> (i, s\<lparr>disk := is\<rparr>))"

definition append_opt :: "jrecord \<Rightarrow> landed \<Rightarrow> jfile option \<Rightarrow> jfile option" where
  "append_opt r l f = map_option (append_record r l) f"

definition put_record :: "jrecord \<Rightarrow> landed \<Rightarrow> 'w host \<Rightarrow> 'w host" where
  "put_record r l s = s\<lparr>jfile := append_opt r l (jfile s), log := log s @ [Wrote r l]\<rparr>"

definition journal_write :: "jrecord \<Rightarrow> 'w host \<Rightarrow> goerror \<times> 'w host" where
  "journal_write r s =
     (case next_io s of
        (IoOk, s) \<Rightarrow> (None, put_record r Whole s)
      | (IoErr e l, s) \<Rightarrow> (Some e, put_record r l s))"

definition Begin :: "step \<Rightarrow> 'w host \<Rightarrow> (int \<times> goerror) \<times> 'w host" where
  "Begin st s =
     (let s = s\<lparr>jseq := jseq s + 1\<rparr>;
          (err, s') = journal_write (begin_record (jseq s) st) s
      in ((jseq s, err), s'))"

definition Done :: "int \<Rightarrow> 'w host \<Rightarrow> goerror \<times> 'w host" where
  "Done q = journal_write (mark_record q PhaseDone '''')"

definition error_text :: "goerror \<Rightarrow> string" where
  "error_text e = (case e of None \<Rightarrow> '''' | Some m \<Rightarrow> m)"

definition Failed :: "int \<Rightarrow> goerror \<Rightarrow> 'w host \<Rightarrow> goerror \<times> 'w host" where
  "Failed q cause = journal_write (mark_record q PhaseFailed (error_text cause))"

definition Preexisting :: "int \<Rightarrow> goerror \<Rightarrow> 'w host \<Rightarrow> goerror \<times> 'w host" where
  "Preexisting q cause = journal_write (mark_record q PhasePreexisting (error_text cause))"

definition Undone :: "int \<Rightarrow> 'w host \<Rightarrow> goerror \<times> 'w host" where
  "Undone q = journal_write (mark_record q PhaseUndone '''')"

definition LoadJournal :: "'w host \<Rightarrow> (string, entry list) result \<times> 'w host" where
  "LoadJournal s =
     (case next_io s of
        (IoOk, s) \<Rightarrow> (Inr (load_entries (jfile s)), s)
      | (IoErr e _, s) \<Rightarrow> (Inl e, s))"

definition RewriteJournal :: "entry list \<Rightarrow> 'w host \<Rightarrow> goerror \<times> 'w host" where
  "RewriteJournal es s =
     (case next_io s of
        (IoOk, s) \<Rightarrow> (None, s\<lparr>jfile := rewrite_file es, log := log s @ [Replaced es]\<rparr>)
      | (IoErr e _, s) \<Rightarrow> (Some e, s))"

definition Close :: "'w host \<Rightarrow> goerror \<times> 'w host" where
  "Close s = (case next_io s of (IoOk, s) \<Rightarrow> (None, s) | (IoErr e _, s) \<Rightarrow> (Some e, s))"

definition Discard :: "'w host \<Rightarrow> goerror \<times> 'w host" where
  "Discard s =
     (case Close s of
        (Some e, s) \<Rightarrow> (Some e, s)
      | (None, s) \<Rightarrow> RewriteJournal [] s)"

definition top_seq :: "entry list \<Rightarrow> int" where
  "top_seq es = fold (\<lambda>e next. if eSeq e > next then eSeq e else next) es 0"

definition OpenJournal :: "string \<Rightarrow> 'w host \<Rightarrow> goerror \<times> 'w host" where
  "OpenJournal path s =
     (if path = '''' then (Some ''netcfg: journal path is empty'', s)
      else case next_io s of
        (IoErr e _, s) \<Rightarrow> (Some e, s)
      | (IoOk, s) \<Rightarrow>
          (case LoadJournal s of
             (Inl e, s) \<Rightarrow> (Some e, s)
           | (Inr existing, s) \<Rightarrow>
               (case next_io s of
                  (IoErr e _, s) \<Rightarrow> (Some e, s)
                | (IoOk, s) \<Rightarrow>
                    (None, s\<lparr>jfile := Some (case jfile s of None \<Rightarrow> empty_file | Some f \<Rightarrow> f),
                             jseq := top_seq existing,
                             log := log s @ [Created]\<rparr>))))"

section \<open>What loading returns\<close>

lemma merge_record_seq [simp]:
  "(\<And>e. old = Some e \<Longrightarrow> eSeq e = rSeq r) \<Longrightarrow> eSeq (merge_record r old) = rSeq r"
  by (auto simp: merge_record_def Let_def blank_entry_def split: option.splits)

definition scan_wf :: "(int, entry) gomap \<Rightarrow> bool" where
  "scan_wf m \<longleftrightarrow> distinct (map fst m) \<and> (\<forall>(q, e) \<in> set m. eSeq e = q)"

lemma scan_wf_lookup: "scan_wf m \<Longrightarrow> map_of m q = Some e \<Longrightarrow> eSeq e = q"
  by (auto simp: scan_wf_def dest: map_of_SomeD)

lemma scan_wf_update:
  assumes "scan_wf m" "eSeq e = q"
  shows "scan_wf (AList.update q e m)"
proof -
  have d: "distinct (map fst (AList.update q e m))"
    using assms(1) by (simp add: scan_wf_def AList.distinct_update)
  have "eSeq e' = q'" if "(q', e') \<in> set (AList.update q e m)" for q' e'
  proof -
    have "map_of (AList.update q e m) q' = Some e'" using that d by simp
    then have "(if q' = q then Some e else map_of m q') = Some e'"
      by (simp add: AList.update_conv' split: if_splits)
    then show ?thesis using assms by (auto dest: scan_wf_lookup split: if_splits)
  qed
  with d show ?thesis by (auto simp: scan_wf_def)
qed

lemma scan_line_wf: "scan_wf m \<Longrightarrow> scan_wf (scan_line l m)"
  by (cases l) (auto intro!: scan_wf_update merge_record_seq dest: scan_wf_lookup)

lemma scan_wf_scan: "scan_wf (scan ls)"
proof -
  have "scan_wf m \<Longrightarrow> scan_wf (fold scan_line ls m)" for m
    by (induction ls arbitrary: m) (simp_all add: scan_line_wf)
  moreover have "scan_wf []" by (simp add: scan_wf_def)
  ultimately show ?thesis by (simp add: scan_def)
qed

lemma scan_append: "scan (ls @ [l]) = scan_line l (scan ls)"
  by (simp add: scan_def)

lemma set_snd_scan: "scan_wf m \<Longrightarrow> e \<in> snd ` set m \<longleftrightarrow> map_of m (eSeq e) = Some e"
  by (force simp: scan_wf_def dest: map_of_SomeD)

text \<open>The loaded entries are the kept ones, strictly ordered by sequence number.\<close>

lemma set_load:
  "set (load_entries (Some f)) = {e. map_of (scan (flines f)) (eSeq e) = Some e \<and> keep_entry e}"
  using set_snd_scan [OF scan_wf_scan, of _ "flines f"] by (auto simp: load_entries_def)

lemma load_distinct_keys: "distinct (map eSeq (load_entries f))"
proof (cases f)
  case (Some g)
  let ?m = "scan (flines g)"
  have w: "distinct (map fst ?m)" "\<forall>(q, e) \<in> set ?m. eSeq e = q"
    using scan_wf_scan [of "flines g"] unfolding scan_wf_def by blast+
  then have "map eSeq (map snd ?m) = map fst ?m" by (auto simp: case_prod_beta)
  with w(1) have "distinct (map eSeq (map snd ?m))" by metis
  then have d: "distinct (map eSeq (filter keep_entry (map snd ?m)))" by (simp add: distinct_map_filter)
  have "mset (map eSeq (load_entries f)) = mset (map eSeq (filter keep_entry (map snd ?m)))"
    by (simp add: load_entries_def Some)
  with d show ?thesis by (metis mset_eq_imp_distinct_iff)
qed (simp add: load_entries_def)

lemma load_sorted: "sorted (map eSeq (load_entries f))"
  by (cases f) (simp_all add: load_entries_def)

lemma load_unique:
  assumes "sorted (map eSeq es)" "distinct (map eSeq es)" "set es = set (load_entries f)"
  shows "load_entries f = es"
proof -
  have "map eSeq (load_entries f) = map eSeq es"
    using assms load_sorted load_distinct_keys by (intro sorted_distinct_set_unique) auto
  moreover have "inj_on eSeq (set (load_entries f) \<union> set es)"
    using assms(2,3) by (simp add: distinct_map)
  ultimately show ?thesis by (metis map_inj_on)
qed

lemma load_mem_eq: "e \<in> set (load_entries f) \<Longrightarrow> e' \<in> set (load_entries f) \<Longrightarrow> eSeq e = eSeq e' \<Longrightarrow> e = e'"
  using load_distinct_keys [of f] by (auto simp: distinct_map dest: inj_onD)

definition entry_of :: "int \<Rightarrow> step \<Rightarrow> phase \<Rightarrow> entry" where
  "entry_of q s ph = \<lparr>eSeq = q, eOp = Op s, eWhy = Why s, eDo = Do s, eUndo = Undo s, ePhase = ph\<rparr>"

definition mark :: "int \<Rightarrow> phase \<Rightarrow> entry \<Rightarrow> entry" where
  "mark q ph e = (if eSeq e = q then e\<lparr>ePhase := ph\<rparr> else e)"

lemma mark_simps [simp]:
  "eSeq (mark q ph e) = eSeq e" "eDo (mark q ph e) = eDo e" "eUndo (mark q ph e) = eUndo e"
  "keep_entry (mark q ph e) = keep_entry e"
  by (simp_all add: mark_def keep_entry_def)

section \<open>The contract of the journal\<close>

text \<open>
  What the applier relies on: a file whose last line is complete reads back as its old entries
  followed by the step just begun, and marking a step changes the phase of its entry only.
\<close>

locale journal_laws =
  fixes load :: "'f \<Rightarrow> entry list"
    and add :: "jrecord \<Rightarrow> 'f \<Rightarrow> 'f"
    and clean :: "'f \<Rightarrow> bool"
  assumes clean_add: "clean f \<Longrightarrow> clean (add r f)"
    and load_begin: "clean f \<Longrightarrow> \<not> IsZero (Do s) \<Longrightarrow> \<forall>e \<in> set (load f). eSeq e < q \<Longrightarrow>
      load (add (begin_record q s) f) = load f @ [entry_of q s PhaseBegin]"
    and load_mark: "clean f \<Longrightarrow> ph \<noteq> PhaseBegin \<Longrightarrow> q \<in> eSeq ` set (load f) \<Longrightarrow>
      load (add (mark_record q ph m) f) = map (mark q ph) (load f)"
begin

lemma load_begin_mark:
  assumes "clean f" "\<not> IsZero (Do s)" "\<forall>e \<in> set (load f). eSeq e < q" "ph \<noteq> PhaseBegin"
  shows "load (add (mark_record q ph m) (add (begin_record q s) f)) = load f @ [entry_of q s ph]"
proof -
  have b: "load (add (begin_record q s) f) = load f @ [entry_of q s PhaseBegin]"
    using assms(1-3) by (rule load_begin)
  have "map (mark q ph) (load f) = load f"
    using assms(3) by (intro map_idI) (auto simp: mark_def)
  with assms b show ?thesis by (simp add: load_mark clean_add entry_of_def mark_def)
qed

end

definition whole_lines :: "jfile option \<Rightarrow> bool" where
  "whole_lines f \<longleftrightarrow> (\<exists>g. f = Some g \<and> \<not> ftorn g)"

lemma whole_lines_append: "whole_lines f \<Longrightarrow> whole_lines (append_opt r Whole f)"
  by (auto simp: whole_lines_def append_opt_def append_record_def)

lemma load_append_set:
  assumes "\<not> ftorn g"
  shows "set (load_entries (append_opt r Whole (Some g))) =
    {e. (if eSeq e = rSeq r then e = merge_record r (map_of (scan (flines g)) (rSeq r))
         else map_of (scan (flines g)) (eSeq e) = Some e) \<and> keep_entry e}"
proof -
  let ?e = "merge_record r (map_of (scan (flines g)) (rSeq r))"
  have "eSeq ?e = rSeq r" by (rule merge_record_seq) (rule scan_wf_lookup [OF scan_wf_scan])
  with assms show ?thesis
    by (auto simp: append_opt_def append_record_def append_line_def set_load scan_append
        AList.update_conv' split: if_splits)
qed

lemma keep_nonzero: "\<not> IsZero (Do s) \<Longrightarrow> keep_entry (entry_of q s ph)"
  by (simp add: keep_entry_def entry_of_def)

lemma load_append_begin:
  assumes "whole_lines f" "\<not> IsZero (Do s)" "\<forall>e \<in> set (load_entries f). eSeq e < q"
  shows "load_entries (append_opt (begin_record q s) Whole f) = load_entries f @ [entry_of q s PhaseBegin]"
proof -
  obtain g where g: "f = Some g" "\<not> ftorn g" using assms(1) by (auto simp: whole_lines_def)
  have m: "merge_record (begin_record q s) old = entry_of q s PhaseBegin"
    if "\<And>e. old = Some e \<Longrightarrow> eSeq e = q" for old
    using that by (cases old) (auto simp: merge_record_def Let_def begin_record_def entry_of_def blank_entry_def)
  then have "merge_record (begin_record q s) (map_of (scan (flines g)) q) = entry_of q s PhaseBegin"
    using scan_wf_lookup [OF scan_wf_scan] by blast
  then have "set (load_entries (append_opt (begin_record q s) Whole f)) =
      set (load_entries f @ [entry_of q s PhaseBegin])"
    using assms(3) keep_nonzero [OF assms(2)] unfolding g(1) load_append_set [OF g(2)]
    by (auto simp: begin_record_def entry_of_def set_load split: if_splits)
  moreover have "sorted (map eSeq (load_entries f @ [entry_of q s PhaseBegin]))"
    using assms(3) load_sorted [of f] by (auto simp: sorted_append entry_of_def)
  moreover have "distinct (map eSeq (load_entries f @ [entry_of q s PhaseBegin]))"
    using assms(3) load_distinct_keys [of f] by (auto simp: entry_of_def)
  ultimately show ?thesis by (intro load_unique) auto
qed

lemma load_append_mark:
  assumes "whole_lines f" "ph \<noteq> PhaseBegin" "q \<in> eSeq ` set (load_entries f)"
  shows "load_entries (append_opt (mark_record q ph m) Whole f) = map (mark q ph) (load_entries f)"
proof -
  obtain g where g: "f = Some g" "\<not> ftorn g" using assms(1) by (auto simp: whole_lines_def)
  obtain e where e: "e \<in> set (load_entries f)" "eSeq e = q" using assms(3) by auto
  then have eq: "map_of (scan (flines g)) q = Some e" by (simp add: g(1) set_load)
  have mr: "merge_record (mark_record q ph m) (Some e) = mark q ph e"
    using assms(2) e(2) by (simp add: merge_record_def mark_record_def mark_def)
  have app: "x \<in> set (load_entries (append_opt (mark_record q ph m) Whole f)) \<longleftrightarrow>
      (if eSeq x = q then x = mark q ph e else x \<in> set (load_entries f))" for x
    using eq mr e(1) unfolding g(1) load_append_set [OF g(2)] set_load
    by (auto simp: mark_record_def) (metis mark_simps(4))
  have "x \<in> mark q ph ` set (load_entries f) \<longleftrightarrow>
      (if eSeq x = q then x = mark q ph e else x \<in> set (load_entries f))" for x
  proof (cases "eSeq x = q")
    case True
    then show ?thesis using e by (auto simp: image_iff) (metis load_mem_eq mark_simps(1))+
  next
    case False
    then show ?thesis by (force simp: mark_def image_iff)
  qed
  with app have "set (load_entries (append_opt (mark_record q ph m) Whole f)) = set (map (mark q ph) (load_entries f))"
    by (simp add: set_eq_iff)
  moreover have "map eSeq (map (mark q ph) (load_entries f)) = map eSeq (load_entries f)" by simp
  ultimately show ?thesis
    using load_sorted [of f] load_distinct_keys [of f] by (intro load_unique) (simp_all add: comp_def)
qed

interpretation journal: journal_laws load_entries "\<lambda>r. append_opt r Whole" whole_lines
  by unfold_locales (fact whole_lines_append load_append_begin load_append_mark)+

end
