(* ===== verification/Applier.thy ===== *)
theory Applier
  imports Journal
begin

text \<open>
  Applying steps and undoing them (\<open>internal/netcfg/apply.go\<close>). The runner is a parameter; the
  machine it acts on is the \<open>world\<close> of the host. \<open>Apply\<close> writes the inverse before the change,
  \<open>replay\<close> runs the inverses newest first in two passes with the firewall's last, \<open>Teardown\<close>
  and \<open>Recover\<close> write back what could not be undone.
\<close>

section \<open>Reports\<close>

record step_result =
  srStep :: step
  srErr :: goerror
  srStderr :: string
  srSkipped :: bool
  srReason :: string

record report =
  Results :: "step_result list"
  nFailed :: nat
  nSkipped :: nat

definition no_report :: report where
  "no_report = \<lparr>Results = [], nFailed = 0, nSkipped = 0\<rparr>"

definition report_add :: "step_result \<Rightarrow> report \<Rightarrow> report" where
  "report_add res r =
     r\<lparr>Results := Results r @ [res],
       nFailed := (if srErr res \<noteq> None then Suc (nFailed r) else nFailed r),
       nSkipped := (if srSkipped res then Suc (nSkipped r) else nSkipped r)\<rparr>"

definition FailedStep :: "report \<Rightarrow> step option" where
  "FailedStep r = map_option srStep (List.find (\<lambda>res. srErr res \<noteq> None) (Results r))"

definition step_ok :: "step \<Rightarrow> string \<Rightarrow> step_result" where
  "step_ok st err = \<lparr>srStep = st, srErr = None, srStderr = err, srSkipped = False, srReason = ''''\<rparr>"

definition step_err :: "step \<Rightarrow> string \<Rightarrow> string \<Rightarrow> step_result" where
  "step_err st e err = \<lparr>srStep = st, srErr = Some e, srStderr = err, srSkipped = False, srReason = ''''\<rparr>"

definition step_skip :: "step \<Rightarrow> string \<Rightarrow> string \<Rightarrow> step_result" where
  "step_skip st err why = \<lparr>srStep = st, srErr = None, srStderr = err, srSkipped = True, srReason = why\<rparr>"

section \<open>Apply\<close>

definition run_cmd :: "'w runner \<Rightarrow> command \<Rightarrow> 'w host \<Rightarrow> (cmd_result \<times> goerror) \<times> 'w host" where
  "run_cmd run c s =
     (case run c (world s) of (r, w) \<Rightarrow> (r, s\<lparr>world := w, log := log s @ [Ran c]\<rparr>))"

definition ask :: "'w runner \<Rightarrow> command \<Rightarrow> 'w host \<Rightarrow> (cmd_result \<times> goerror) \<times> 'w host" where
  "ask run c s =
     (case run c (world s) of (r, w) \<Rightarrow> (r, s\<lparr>world := w, log := log s @ [Asked c]\<rparr>))"

definition state_entry :: "entry \<Rightarrow> (string, string) gomap \<Rightarrow> (string, string) gomap" where
  "state_entry e out =
     (if IsZero (eDo e) then out
      else case ePhase e of
        PhaseDone \<Rightarrow> AList.update (CommandLine (eDo e)) (RunnerKey (eDo e)) out
      | PhaseUndone \<Rightarrow> AList.delete (CommandLine (eDo e)) out
      | _ \<Rightarrow> out)"

definition state_of :: "entry list \<Rightarrow> (string, string) gomap" where
  "state_of es = fold state_entry es []"

definition currentState :: "'w host \<Rightarrow> (string, (string, string) gomap) result \<times> 'w host" where
  "currentState s =
     (case LoadJournal s of
        (Inl e, s) \<Rightarrow> (Inl e, s)
      | (Inr es, s) \<Rightarrow> (Inr (state_of es), s))"

definition in_force :: "(string, string) gomap \<Rightarrow> step \<Rightarrow> bool" where
  "in_force st s \<longleftrightarrow>
     (case map_of st (CommandLine (Do s)) of None \<Rightarrow> '''' | Some k \<Rightarrow> k) = RunnerKey (Do s)"

datatype apply_error = JournalError string | StepFailed step string

text \<open>One round of the loop: continue with a result, or return with an error.\<close>

datatype round = Next | Stop apply_error

definition pre_satisfied :: "'w runner \<Rightarrow> step \<Rightarrow> 'w host \<Rightarrow> bool \<times> 'w host" where
  "pre_satisfied run st s =
     (case Pre st of None \<Rightarrow> (False, s)
      | Some p \<Rightarrow> (case ask run (Query p) s of ((res, qerr), s) \<Rightarrow> (Satisfied p res qerr, s)))"

definition apply_run :: "'w runner \<Rightarrow> step \<Rightarrow> report \<Rightarrow> 'w host \<Rightarrow> (round \<times> report) \<times> 'w host" where
  "apply_run run st rep s =
     (case Begin st s of
        ((seq, Some e), s) \<Rightarrow> ((Stop (JournalError e), rep), s)
      | ((seq, None), s) \<Rightarrow>
         (case run_cmd run (Do st) s of
            ((res, runErr), s) \<Rightarrow>
              if runErr \<noteq> None \<and> commandRemoves (Do st) \<and> IsNotFound res runErr then
                (case Preexisting seq runErr s of
                   (Some e, s) \<Rightarrow> ((Stop (JournalError e), rep), s)
                 | (None, s) \<Rightarrow> ((Next, report_add (step_skip st (Stderr res)
                     ''already gone, so nothing was changed and the inverse was retracted'') rep), s))
              else if runErr \<noteq> None \<and> IsAlreadyExists res runErr then
                (case Preexisting seq runErr s of
                   (Some e, s) \<Rightarrow> ((Stop (JournalError e), rep), s)
                 | (None, s) \<Rightarrow> ((Next, report_add (step_skip st (Stderr res)
                     ''already existed, so nothing was changed and the inverse was retracted'') rep), s))
              else (case runErr of
                Some m \<Rightarrow>
                  let rep = report_add (step_err st m (Stderr res)) rep
                  in (case Failed seq runErr s of
                        (Some e, s) \<Rightarrow> ((Stop (JournalError e), rep), s)
                      | (None, s) \<Rightarrow> ((Stop (StepFailed st m), rep), s))
              | None \<Rightarrow>
                  let rep = report_add (step_ok st (Stderr res)) rep
                  in (case Done seq s of
                        (Some e, s) \<Rightarrow> ((Stop (JournalError e), rep), s)
                      | (None, s) \<Rightarrow> ((Next, rep), s)))))"

definition apply_step ::
  "'w runner \<Rightarrow> (string, string) gomap \<Rightarrow> step \<Rightarrow> report \<Rightarrow> 'w host \<Rightarrow> (round \<times> report) \<times> 'w host" where
  "apply_step run state st rep s =
     (if IsZero (Do st) then ((Next, rep), s)
      else if in_force state st then
        ((Next, report_add (step_skip st ''''
           ''this exact change is the one already in force, recorded in the journal'') rep), s)
      else case pre_satisfied run st s of
        (True, s) \<Rightarrow> ((Next, report_add (step_skip st ''''
           ''already present on this machine and not recorded as ours, so it is left alone and no inverse is journalled'') rep), s)
      | (False, s) \<Rightarrow> apply_run run st rep s)"

fun apply_steps ::
  "'w runner \<Rightarrow> (string, string) gomap \<Rightarrow> step list \<Rightarrow> report \<Rightarrow> 'w host \<Rightarrow>
   (apply_error option \<times> report) \<times> 'w host" where
  "apply_steps run state [] rep s = ((None, rep), s)"
| "apply_steps run state (st # sts) rep s =
     (case apply_step run state st rep s of
        ((Stop e, rep), s) \<Rightarrow> ((Some e, rep), s)
      | ((Next, rep), s) \<Rightarrow> apply_steps run state sts rep s)"

definition Apply ::
  "'w runner \<Rightarrow> step list \<Rightarrow> 'w host \<Rightarrow> (apply_error option \<times> report) \<times> 'w host" where
  "Apply run steps s =
     (case currentState s of
        (Inl e, s) \<Rightarrow> ((Some (JournalError e), no_report), s)
      | (Inr state, s) \<Rightarrow> apply_steps run state steps no_report s)"

definition NewApplier :: "string \<Rightarrow> 'w host \<Rightarrow> goerror \<times> 'w host" where
  "NewApplier path s = OpenJournal path s"

section \<open>Replay\<close>

definition undo_step :: "entry \<Rightarrow> step" where
  "undo_step e = \<lparr>Op = eOp e, Why = eWhy e, Do = eUndo e, Undo = eDo e, Pre = None\<rparr>"

text \<open>\<open>j\<close> says whether there is an open journal to record progress in.\<close>

definition note_undone :: "bool \<Rightarrow> entry \<Rightarrow> 'w host \<Rightarrow> 'w host" where
  "note_undone j e s = (if j then snd (Undone (eSeq e) s) else s)"

definition undoOne ::
  "'w runner \<Rightarrow> bool \<Rightarrow> entry \<Rightarrow> report \<times> entry list \<times> 'w host \<Rightarrow> report \<times> entry list \<times> 'w host" where
  "undoOne run j e = (\<lambda>(rep, remaining, s).
     case run_cmd run (eUndo e) s of
       ((res, err), s) \<Rightarrow>
         if err \<noteq> None \<and> commandRemoves (eUndo e) \<and> IsNotFound res err then
           (report_add (step_skip (undo_step e) (Stderr res)
              ''nothing to undo: the object was already gone'') rep, remaining, note_undone j e s)
         else (case err of
           Some m \<Rightarrow> (report_add (step_err (undo_step e) m (Stderr res)) rep, remaining @ [e], s)
         | None \<Rightarrow> (report_add (step_ok (undo_step e) (Stderr res)) rep, remaining, note_undone j e s)))"

definition first_pass ::
  "'w runner \<Rightarrow> bool \<Rightarrow> entry \<Rightarrow> report \<times> entry list \<times> 'w host \<Rightarrow> report \<times> entry list \<times> 'w host" where
  "first_pass run j e acc = (if \<not> NeedsUndo e \<or> eOp e = OpNft then acc else undoOne run j e acc)"

definition held_reason :: string where
  "held_reason = ''held: an earlier inverse failed, so the fail-closed ruleset stays loaded rather than being taken away from a machine that is still carrying routes, addresses or forwarding. It stays in the journal and the next start retries it''"

definition hold :: "entry \<Rightarrow> report \<times> entry list \<times> 'w host \<Rightarrow> report \<times> entry list \<times> 'w host" where
  "hold e = (\<lambda>(rep, remaining, s).
     (report_add (step_skip (undo_step e) ''''
        held_reason) rep,
      remaining @ [e], s))"

definition second_pass ::
  "'w runner \<Rightarrow> bool \<Rightarrow> entry \<Rightarrow> report \<times> entry list \<times> 'w host \<Rightarrow> report \<times> entry list \<times> 'w host" where
  "second_pass run j e acc =
     (if \<not> NeedsUndo e \<or> eOp e \<noteq> OpNft then acc
      else if 0 < nFailed (fst acc) then hold e acc
      else undoOne run j e acc)"

definition replay :: "'w runner \<Rightarrow> bool \<Rightarrow> entry list \<Rightarrow> 'w host \<Rightarrow> report \<times> entry list \<times> 'w host" where
  "replay run j entries s =
     (case fold (second_pass run j) (rev entries)
             (fold (first_pass run j) (rev entries) (no_report, [], s)) of
        (rep, remaining, s) \<Rightarrow> (rep, rev remaining, s))"

definition Teardown :: "'w runner \<Rightarrow> 'w host \<Rightarrow> (goerror \<times> report) \<times> 'w host" where
  "Teardown run s =
     (case LoadJournal s of
        (Inl e, s) \<Rightarrow> ((Some e, no_report), s)
      | (Inr entries, s) \<Rightarrow>
          (case replay run True entries s of
             (rep, remaining, s) \<Rightarrow>
               (case Close s of
                  (Some e, s) \<Rightarrow> ((Some e, rep), s)
                | (None, s) \<Rightarrow>
                    (case RewriteJournal remaining s of (err, s) \<Rightarrow> ((err, rep), s)))))"

definition Recover :: "'w runner \<Rightarrow> 'w host \<Rightarrow> (goerror \<times> report) \<times> 'w host" where
  "Recover run s =
     (case LoadJournal s of
        (Inl e, s) \<Rightarrow> ((Some e, no_report), s)
      | (Inr entries, s) \<Rightarrow>
          if entries = [] then ((None, no_report), s)
          else (case replay run False entries s of
                  (rep, remaining, s) \<Rightarrow>
                    (case RewriteJournal remaining s of (err, s) \<Rightarrow> ((err, rep), s))))"

section \<open>One step on a healthy disk\<close>

text \<open>No disk operation fails, the last line of the file is complete, and the next sequence
  number is fresh: what \<open>OpenJournal\<close> establishes on a healthy disk.\<close>

definition host_ok :: "'w host \<Rightarrow> bool" where
  "host_ok s \<longleftrightarrow> disk s = [] \<and> whole_lines (jfile s) \<and> (\<forall>e \<in> set (load_entries (jfile s)). eSeq e \<le> jseq s)"

lemma next_io_ok [simp]: "disk s = [] \<Longrightarrow> next_io s = (IoOk, s)"
  by (simp add: next_io_def)

lemma journal_write_ok [simp]: "disk s = [] \<Longrightarrow> journal_write r s = (None, put_record r Whole s)"
  by (simp add: journal_write_def)

lemma put_record_simps [simp]:
  "disk (put_record r l s) = disk s" "world (put_record r l s) = world s"
  "jseq (put_record r l s) = jseq s" "log (put_record r l s) = log s @ [Wrote r l]"
  "jfile (put_record r l s) = append_opt r l (jfile s)"
  by (simp_all add: put_record_def)

text \<open>The phase an outcome is journalled as.\<close>

definition outcome_phase :: "command \<Rightarrow> cmd_result \<Rightarrow> goerror \<Rightarrow> phase" where
  "outcome_phase c res err =
     (if err = None then PhaseDone
      else if commandRemoves c \<and> IsNotFound res err \<or> IsAlreadyExists res err then PhasePreexisting
      else PhaseFailed)"

lemma outcome_phase_cases: "outcome_phase c res err \<in> {PhaseDone, PhasePreexisting, PhaseFailed}"
  by (simp add: outcome_phase_def)

definition step_records :: "int \<Rightarrow> step \<Rightarrow> cmd_result \<Rightarrow> goerror \<Rightarrow> jrecord \<times> jrecord" where
  "step_records q st res err =
     (begin_record q st, mark_record q (outcome_phase (Do st) res err) (error_text err))"

lemma apply_run_ok:
  assumes "disk s = []" "run (Do st) (world s) = ((res, err), w)"
    "apply_run run st rep s = ((r, rep'), s')" "step_records (jseq s + 1) st res err = (b, m)"
  shows "world s' = w" "jseq s' = jseq s + 1" "disk s' = []"
    "jfile s' = append_opt m Whole (append_opt b Whole (jfile s))"
    "log s' = log s @ [Wrote b Whole, Ran (Do st), Wrote m Whole]"
    "r = (if outcome_phase (Do st) res err = PhaseFailed then Stop (StepFailed st (the err)) else Next)"
    "nFailed rep' = nFailed rep + (if outcome_phase (Do st) res err = PhaseFailed then 1 else 0)"
    "nSkipped rep' = nSkipped rep + (if outcome_phase (Do st) res err = PhasePreexisting then 1 else 0)"
  using assms
  by (auto simp: apply_run_def Begin_def run_cmd_def Done_def Failed_def Preexisting_def Let_def
      outcome_phase_def report_add_def step_skip_def step_err_def step_ok_def step_records_def
      error_text_def split: if_splits option.splits)

lemma step_records_load:
  assumes "host_ok s" "\<not> IsZero (Do st)" "step_records (jseq s + 1) st res err = (b, m)"
  shows "load_entries (append_opt b Whole (jfile s)) = load_entries (jfile s) @ [entry_of (jseq s + 1) st PhaseBegin]"
    and "load_entries (append_opt m Whole (append_opt b Whole (jfile s))) =
         load_entries (jfile s) @ [entry_of (jseq s + 1) st (outcome_phase (Do st) res err)]"
proof -
  have w: "whole_lines (jfile s)" and lt: "\<forall>e \<in> set (load_entries (jfile s)). eSeq e < jseq s + 1"
    using assms(1) by (auto simp: host_ok_def)
  have r: "b = begin_record (jseq s + 1) st"
    "m = mark_record (jseq s + 1) (outcome_phase (Do st) res err) (error_text err)"
    using assms(3) by (simp_all add: step_records_def)
  have ph: "outcome_phase (Do st) res err \<noteq> PhaseBegin" by (simp add: outcome_phase_def)
  show "load_entries (append_opt b Whole (jfile s)) = load_entries (jfile s) @ [entry_of (jseq s + 1) st PhaseBegin]"
    unfolding r by (rule journal.load_begin [OF w assms(2) lt])
  show "load_entries (append_opt m Whole (append_opt b Whole (jfile s))) =
      load_entries (jfile s) @ [entry_of (jseq s + 1) st (outcome_phase (Do st) res err)]"
    unfolding r by (rule journal.load_begin_mark [OF w assms(2) lt ph])
qed

section \<open>Every crash point\<close>

fun effect_file :: "effect \<Rightarrow> jfile option \<Rightarrow> jfile option" where
  "effect_file (Wrote r l) f = append_opt r l f"
| "effect_file (Replaced es) f = rewrite_file es"
| "effect_file Created f = Some (case f of None \<Rightarrow> empty_file | Some g \<Rightarrow> g)"
| "effect_file (Ran c) f = f"
| "effect_file (Asked c) f = f"

definition file_after :: "effect list \<Rightarrow> jfile option \<Rightarrow> jfile option" where
  "file_after effs f = fold effect_file effs f"

definition ran_cmds :: "effect list \<Rightarrow> command set" where
  "ran_cmds effs = {c. Ran c \<in> set effs}"

text \<open>The commands whose step, with its inverse, is on the disk and not reversed yet.\<close>

definition recorded :: "step list \<Rightarrow> jfile option \<Rightarrow> command set" where
  "recorded sts f = {Do st | st e. st \<in> set sts \<and> e \<in> set (load_entries f) \<and>
     eDo e = Do st \<and> eUndo e = Undo st \<and> ePhase e \<noteq> PhaseUndone}"

definition crash_safe :: "step list \<Rightarrow> command set \<Rightarrow> jfile option \<Rightarrow> effect list \<Rightarrow> bool" where
  "crash_safe sts R f effs \<longleftrightarrow> (\<forall>p. prefix p effs \<longrightarrow> R \<union> ran_cmds p \<subseteq> recorded sts (file_after p f))"

lemma file_after_append: "file_after (p @ q) f = file_after q (file_after p f)"
  by (simp add: file_after_def)

lemma crash_safe_append:
  assumes "crash_safe sts R f e1" "crash_safe sts (R \<union> ran_cmds e1) (file_after e1 f) e2"
  shows "crash_safe sts R f (e1 @ e2)"
  unfolding crash_safe_def
proof (intro allI impI)
  fix p assume "prefix p (e1 @ e2)"
  then consider "prefix p e1" | p2 where "p = e1 @ p2" "prefix p2 e2"
    by (auto simp: prefix_append)
  then show "R \<union> ran_cmds p \<subseteq> recorded sts (file_after p f)"
  proof cases
    case 2
    then have "ran_cmds p = ran_cmds e1 \<union> ran_cmds p2" by (auto simp: ran_cmds_def)
    with 2 assms(2) show ?thesis by (auto simp: crash_safe_def file_after_append)
  qed (use assms(1) in \<open>simp add: crash_safe_def\<close>)
qed

lemma recorded_mono: "set (load_entries f) \<subseteq> set (load_entries g) \<Longrightarrow> recorded sts f \<subseteq> recorded sts g"
  by (auto simp: recorded_def)

lemma recorded_entry:
  assumes "st \<in> set sts" "entry_of q st ph \<in> set (load_entries f)" "ph \<noteq> PhaseUndone"
  shows "Do st \<in> recorded sts f"
  using assms by (auto simp: recorded_def entry_of_def intro!: exI [of _ st] bexI)

lemma crash_safe_run:
  assumes "host_ok s" "\<not> IsZero (Do st)" "step_records (jseq s + 1) st res err = (b, m)"
    "st \<in> set sts" "R \<subseteq> recorded sts (jfile s)"
  shows "crash_safe sts R (jfile s) [Wrote b Whole, Ran (Do st), Wrote m Whole]"
proof -
  note l = step_records_load [OF assms(1-3)]
  have "outcome_phase (Do st) res err \<noteq> PhaseUndone" by (simp add: outcome_phase_def)
  then have "Do st \<in> recorded sts (append_opt b Whole (jfile s))"
    "Do st \<in> recorded sts (append_opt m Whole (append_opt b Whole (jfile s)))"
    using l assms(4) by (auto intro!: recorded_entry)
  moreover have "R \<subseteq> recorded sts (append_opt b Whole (jfile s))"
    "R \<subseteq> recorded sts (append_opt m Whole (append_opt b Whole (jfile s)))"
    by (rule order_trans [OF assms(5)], intro recorded_mono, use l in force)+
  ultimately show ?thesis using assms(5)
    by (auto simp: crash_safe_def prefix_Cons file_after_def ran_cmds_def)
qed

lemma crash_safe_asked:
  assumes "\<forall>e \<in> set qs. \<exists>c. e = Asked c" "R \<subseteq> recorded sts f"
  shows "crash_safe sts R f qs" "file_after qs f = f"
proof -
  have "file_after p f = f \<and> ran_cmds p = {}" if "\<forall>e \<in> set p. \<exists>c. e = Asked c" for p
    using that by (induction p) (auto simp: file_after_def ran_cmds_def)
  moreover have "\<forall>e \<in> set p. \<exists>c. e = Asked c" if "prefix p qs" for p
    using assms(1) set_mono_prefix [OF that] by blast
  ultimately show "crash_safe sts R f qs" "file_after qs f = f"
    using assms by (simp_all add: crash_safe_def)
qed

lemma pre_satisfied_effects:
  assumes "pre_satisfied run st s = (b, s')"
  obtains qs where "\<forall>e \<in> set qs. \<exists>c. e = Asked c" "log s' = log s @ qs" "jfile s' = jfile s"
    "jseq s' = jseq s" "disk s' = disk s"
  using assms that [of "[]"] that [of "[Asked (Query (the (Pre st)))]"]
  by (auto simp: pre_satisfied_def ask_def split: option.splits prod.splits)

lemma host_ok_run:
  assumes "host_ok s" "\<not> IsZero (Do st)" "step_records (jseq s + 1) st res err = (b, m)"
    "disk s' = []" "jseq s' = jseq s + 1" "jfile s' = append_opt m Whole (append_opt b Whole (jfile s))"
  shows "host_ok s'"
  using assms whole_lines_append step_records_load(2) [OF assms(1-3)]
  by (fastforce simp: host_ok_def entry_of_def)

lemma apply_step_effects:
  assumes "host_ok s" "apply_step run state st rep s = ((r, rep'), s')"
  obtains effs where "log s' = log s @ effs" "jfile s' = file_after effs (jfile s)" "host_ok s'"
    "\<And>sts R. st \<in> set sts \<Longrightarrow> R \<subseteq> recorded sts (jfile s) \<Longrightarrow> crash_safe sts R (jfile s) effs"
proof (cases "IsZero (Do st) \<or> in_force state st")
  case True
  then have "s' = s" using assms(2) by (auto simp: apply_step_def split: if_splits)
  with assms(1) show thesis by (intro that [of "[]"]) (auto simp: file_after_def crash_safe_asked)
next
  case False
  obtain p s1 where p: "pre_satisfied run st s = (p, s1)" by fastforce
  obtain qs where q: "\<forall>e \<in> set qs. \<exists>c. e = Asked c" "log s1 = log s @ qs" "jfile s1 = jfile s"
    "jseq s1 = jseq s" "disk s1 = disk s" by (rule pre_satisfied_effects [OF p])
  have ok1: "host_ok s1" using assms(1) q by (simp add: host_ok_def)
  have fq: "file_after qs (jfile s) = jfile s" using crash_safe_asked(2) [OF q(1)] by blast
  show thesis
  proof (cases p)
    case True
    then have "s' = s1" using assms(2) False p by (auto simp: apply_step_def)
    with q fq ok1 show thesis by (intro that [of qs]) (auto intro: crash_safe_asked)
  next
    case p: False
    have a: "apply_run run st rep s1 = ((r, rep'), s')"
      using assms(2) False p \<open>pre_satisfied run st s = (p, s1)\<close> by (simp add: apply_step_def)
    obtain res err w where r: "run (Do st) (world s1) = ((res, err), w)" by (metis prod.exhaust)
    obtain b m where bm: "step_records (jseq s1 + 1) st res err = (b, m)" by fastforce
    have d: "disk s1 = []" using ok1 by (simp add: host_ok_def)
    note ar = apply_run_ok [OF d r a bm]
    have nz: "\<not> IsZero (Do st)" using False by simp
    have f: "file_after (qs @ [Wrote b Whole, Ran (Do st), Wrote m Whole]) (jfile s) = jfile s'"
      by (simp only: file_after_append fq) (simp add: ar(4) q file_after_def)
    show thesis
    proof (rule that)
      show "log s' = log s @ qs @ [Wrote b Whole, Ran (Do st), Wrote m Whole]" by (simp add: ar(5) q)
      show "jfile s' = file_after (qs @ [Wrote b Whole, Ran (Do st), Wrote m Whole]) (jfile s)" by (simp add: f)
      show "host_ok s'" by (rule host_ok_run [OF ok1 nz bm ar(3,2,4)])
      fix sts R assume "st \<in> set sts" "R \<subseteq> recorded sts (jfile s)"
      then have "crash_safe sts (R \<union> ran_cmds qs) (file_after qs (jfile s)) [Wrote b Whole, Ran (Do st), Wrote m Whole]"
        using crash_safe_run [OF ok1 nz bm, of sts "R \<union> ran_cmds qs"] q fq by (auto simp: ran_cmds_def)
      then show "crash_safe sts R (jfile s) (qs @ [Wrote b Whole, Ran (Do st), Wrote m Whole])"
        using crash_safe_asked(1) [OF q(1) \<open>R \<subseteq> recorded sts (jfile s)\<close>] by (rule crash_safe_append [rotated])
    qed
  qed
qed

lemma crash_safe_whole: "crash_safe sts R f effs \<Longrightarrow> R \<union> ran_cmds effs \<subseteq> recorded sts (file_after effs f)"
  by (simp add: crash_safe_def)

lemma apply_steps_effects:
  assumes "host_ok s" "apply_steps run state steps rep s = ((r, rep'), s')" "set steps \<subseteq> set sts"
    "R \<subseteq> recorded sts (jfile s)"
  shows "host_ok s' \<and> (\<exists>effs. log s' = log s @ effs \<and> jfile s' = file_after effs (jfile s) \<and>
    crash_safe sts R (jfile s) effs)"
  using assms
proof (induction steps arbitrary: rep s R)
  case Nil
  then show ?case by (auto simp: file_after_def crash_safe_asked)
next
  case (Cons st steps)
  obtain r1 rep1 s1 where a: "apply_step run state st rep s = ((r1, rep1), s1)" by (metis prod.exhaust)
  obtain e1 where e1: "log s1 = log s @ e1" "jfile s1 = file_after e1 (jfile s)" "host_ok s1"
    "crash_safe sts R (jfile s) e1"
    using apply_step_effects [OF Cons.prems(1) a] Cons.prems(3,4) by (metis insert_subset list.set(2))
  show ?case
  proof (cases r1)
    case Next
    then have "apply_steps run state steps rep1 s1 = ((r, rep'), s')" using Cons.prems(2) a by simp
    with e1 Cons.prems(3) crash_safe_whole [OF e1(4)]
    have "host_ok s' \<and> (\<exists>effs. log s' = log s1 @ effs \<and> jfile s' = file_after effs (jfile s1) \<and>
        crash_safe sts (R \<union> ran_cmds e1) (jfile s1) effs)"
      by (intro Cons.IH) auto
    then obtain e2 where "host_ok s'" "log s' = log s1 @ e2" "jfile s' = file_after e2 (jfile s1)"
      "crash_safe sts (R \<union> ran_cmds e1) (jfile s1) e2" by blast
    with e1 show ?thesis
      by (auto simp: file_after_append intro: crash_safe_append intro!: exI [of _ "e1 @ e2"])
  next
    case (Stop e)
    then have "s' = s1" using Cons.prems(2) a by simp
    with e1 show ?thesis by auto
  qed
qed

section \<open>What a replay does\<close>

definition ran_list :: "effect list \<Rightarrow> command list" where
  "ran_list effs = List.map_filter (\<lambda>e. case e of Ran c \<Rightarrow> Some c | _ \<Rightarrow> None) effs"

lemma ran_list_simps [simp]:
  "ran_list [] = []"
  "ran_list (Ran c # effs) = c # ran_list effs"
  "ran_list (Wrote r l # effs) = ran_list effs"
  "ran_list (e1 @ e2) = ran_list e1 @ ran_list e2"
  by (simp_all add: ran_list_def map_filter_def)

definition pending :: "entry list \<Rightarrow> entry list" where
  "pending es = filter (\<lambda>e. NeedsUndo e \<and> eOp e \<noteq> OpNft) (rev es)"

definition firewall :: "entry list \<Rightarrow> entry list" where
  "firewall es = filter (\<lambda>e. NeedsUndo e \<and> eOp e = OpNft) (rev es)"

lemma fold_first_pass: "fold (first_pass run j) es acc = fold (undoOne run j) (filter (\<lambda>e. NeedsUndo e \<and> eOp e \<noteq> OpNft) es) acc"
  by (induction es arbitrary: acc) (auto simp: first_pass_def)

definition fw_step ::
  "'w runner \<Rightarrow> bool \<Rightarrow> entry \<Rightarrow> report \<times> entry list \<times> 'w host \<Rightarrow> report \<times> entry list \<times> 'w host" where
  "fw_step run j e acc = (if 0 < nFailed (fst acc) then hold e acc else undoOne run j e acc)"

lemma fold_second_pass: "fold (second_pass run j) es acc = fold (fw_step run j) (filter (\<lambda>e. NeedsUndo e \<and> eOp e = OpNft) es) acc"
  by (induction es arbitrary: acc) (auto simp: second_pass_def fw_step_def)

lemma replay_passes:
  "replay run j es s = (case fold (fw_step run j) (firewall es) (fold (undoOne run j) (pending es) (no_report, [], s)) of
     (rep, remaining, s) \<Rightarrow> (rep, rev remaining, s))"
  by (simp add: replay_def fold_first_pass fold_second_pass pending_def firewall_def)

text \<open>An entry is undone when its inverse was run without an error, or was a removal of
  something already gone. One inverse: it runs, and either it is off the list or it failed and stays.\<close>

definition undone_in :: "report \<Rightarrow> entry \<Rightarrow> bool" where
  "undone_in rep e \<longleftrightarrow> (\<exists>res \<in> set (Results rep).
     srStep res = undo_step e \<and> srErr res = None \<and> srReason res \<noteq> held_reason)"

lemma note_undone_log:
  obtains ws where "log (note_undone j e s) = log s @ ws" "ran_list ws = []"
proof (cases j)
  case True
  obtain i s1 where io: "next_io s = (i, s1)" by fastforce
  then have l: "log s1 = log s" by (auto simp: next_io_def split: list.splits)
  show thesis
    by (cases i) (use True io l in \<open>auto simp: note_undone_def Undone_def journal_write_def
        intro!: that [of "[Wrote _ _]"]\<close>)
qed (auto simp: note_undone_def intro: that [of "[]"])

lemma undoOne_cases:
  assumes "undoOne run j e (rep, rem, s) = (rep', rem', s')"
  obtains effs where "log s' = log s @ effs" "ran_list effs = [eUndo e]"
    "set (Results rep) \<subseteq> set (Results rep')"
    "nFailed rep' = nFailed rep \<and> rem' = rem \<and> undone_in rep' e \<or>
     nFailed rep' = Suc (nFailed rep) \<and> rem' = rem @ [e]"
proof -
  obtain res err w where r: "run (eUndo e) (world s) = ((res, err), w)" by (metis prod.exhaust)
  define s1 where "s1 = s\<lparr>world := w, log := log s @ [Ran (eUndo e)]\<rparr>"
  obtain ws where ws: "log (note_undone j e s1) = log s1 @ ws" "ran_list ws = []" by (rule note_undone_log)
  show thesis
  proof (cases "err \<noteq> None \<and> \<not> (commandRemoves (eUndo e) \<and> IsNotFound res err)")
    case True
    then show thesis using assms r
      by (intro that [of "[Ran (eUndo e)]"])
        (auto simp: undoOne_def run_cmd_def report_add_def step_err_def split: option.splits)
  next
    case False
    with assms r have "s' = note_undone j e s1" "rem' = rem" "nFailed rep' = nFailed rep"
      "undone_in rep' e" "set (Results rep) \<subseteq> set (Results rep')"
      by (auto simp: undoOne_def run_cmd_def s1_def report_add_def step_ok_def step_skip_def undone_in_def
          held_reason_def split: option.splits if_splits)
    with ws show thesis by (intro that [of "Ran (eUndo e) # ws"]) (auto simp: s1_def)
  qed
qed

lemma undone_in_mono: "undone_in rep e \<Longrightarrow> set (Results rep) \<subseteq> set (Results rep') \<Longrightarrow> undone_in rep' e"
  by (auto simp: undone_in_def)

lemma fold_undoOne:
  assumes "fold (undoOne run j) es (rep, rem, s) = (rep', rem', s')"
  shows "\<exists>effs fails. log s' = log s @ effs \<and> ran_list effs = map eUndo es \<and> rem' = rem @ fails \<and>
    nFailed rep' = nFailed rep + length fails \<and> set fails \<subseteq> set es \<and>
    set (Results rep) \<subseteq> set (Results rep') \<and> (\<forall>e \<in> set es. e \<in> set fails \<or> undone_in rep' e)"
  using assms
proof (induction es arbitrary: rep rem s)
  case Nil
  then show ?case by auto
next
  case (Cons e es)
  obtain rep1 rem1 s1 where u: "undoOne run j e (rep, rem, s) = (rep1, rem1, s1)" by (metis prod.exhaust)
  then have "fold (undoOne run j) es (rep1, rem1, s1) = (rep', rem', s')" using Cons.prems by simp
  from Cons.IH [OF this] obtain effs fails where
    IH: "log s' = log s1 @ effs" "ran_list effs = map eUndo es" "rem' = rem1 @ fails"
    "nFailed rep' = nFailed rep1 + length fails" "set fails \<subseteq> set es"
    "set (Results rep1) \<subseteq> set (Results rep')" "\<forall>e \<in> set es. e \<in> set fails \<or> undone_in rep' e" by blast
  obtain effs1 where e1: "log s1 = log s @ effs1" "ran_list effs1 = [eUndo e]"
    "set (Results rep) \<subseteq> set (Results rep1)" "nFailed rep1 = nFailed rep \<and> rem1 = rem \<and> undone_in rep1 e \<or>
     nFailed rep1 = Suc (nFailed rep) \<and> rem1 = rem @ [e]" by (rule undoOne_cases [OF u])
  from e1(4) show ?case
  proof
    assume "nFailed rep1 = nFailed rep \<and> rem1 = rem \<and> undone_in rep1 e"
    with IH e1 show ?thesis
      by (intro exI [of _ "effs1 @ effs"] exI [of _ fails]) (auto dest: undone_in_mono)
  next
    assume "nFailed rep1 = Suc (nFailed rep) \<and> rem1 = rem @ [e]"
    with IH e1 show ?thesis
      by (intro exI [of _ "effs1 @ effs"] exI [of _ "e # fails"]) auto
  qed
qed

lemma fold_hold:
  assumes "0 < nFailed rep" "fold (fw_step run j) es (rep, rem, s) = (rep', rem', s')"
  shows "rem' = rem @ es \<and> s' = s \<and> nFailed rep' = nFailed rep \<and> set (Results rep) \<subseteq> set (Results rep')"
  using assms
proof (induction es arbitrary: rep rem)
  case (Cons e es)
  obtain rep1 rem1 s1 where h: "hold e (rep, rem, s) = (rep1, rem1, s1)" by (metis prod.exhaust)
  then have h1: "rem1 = rem @ [e]" "s1 = s" "nFailed rep1 = nFailed rep" "set (Results rep) \<subseteq> set (Results rep1)"
    by (auto simp: hold_def report_add_def step_skip_def)
  with Cons.prems h have "fold (fw_step run j) es (rep1, rem1, s) = (rep', rem', s')" by (simp add: fw_step_def [of run j e])
  with Cons.IH [of rep1 rem1] Cons.prems(1) h1 show ?case by auto
qed simp

lemma fold_fw_clean:
  assumes "nFailed rep = 0" "fold (fw_step run j) es (rep, rem, s) = (rep', rem', s')"
  shows "\<exists>effs k rem1. log s' = log s @ effs \<and> ran_list effs = map eUndo (take k es) \<and>
    rem' = rem @ rem1 \<and> set rem1 \<subseteq> set es \<and> (nFailed rep' = 0 \<longrightarrow> rem1 = []) \<and>
    set (Results rep) \<subseteq> set (Results rep') \<and> (\<forall>e \<in> set es. e \<in> set rem1 \<or> undone_in rep' e)"
  using assms
proof (induction es arbitrary: rep rem s)
  case Nil
  then show ?case by auto
next
  case (Cons e es)
  obtain rep1 rem1 s1 where u: "undoOne run j e (rep, rem, s) = (rep1, rem1, s1)" by (metis prod.exhaust)
  then have f: "fold (fw_step run j) es (rep1, rem1, s1) = (rep', rem', s')"
    using Cons.prems by (simp add: fw_step_def [of run j e])
  obtain effs1 where e1: "log s1 = log s @ effs1" "ran_list effs1 = [eUndo e]"
    "set (Results rep) \<subseteq> set (Results rep1)" "nFailed rep1 = nFailed rep \<and> rem1 = rem \<and> undone_in rep1 e \<or>
     nFailed rep1 = Suc (nFailed rep) \<and> rem1 = rem @ [e]" by (rule undoOne_cases [OF u])
  from e1(4) show ?case
  proof
    assume a: "nFailed rep1 = nFailed rep \<and> rem1 = rem \<and> undone_in rep1 e"
    with Cons.IH [OF _ f] Cons.prems(1) obtain effs k rem2 where
      "log s' = log s1 @ effs" "ran_list effs = map eUndo (take k es)" "rem' = rem @ rem2"
      "set rem2 \<subseteq> set es" "nFailed rep' = 0 \<longrightarrow> rem2 = []" "set (Results rep1) \<subseteq> set (Results rep')"
      "\<forall>e \<in> set es. e \<in> set rem2 \<or> undone_in rep' e" by auto
    with a e1 show ?thesis
      by (intro exI [of _ "effs1 @ effs"] exI [of _ "Suc k"] exI [of _ rem2]) (auto dest: undone_in_mono)
  next
    assume a: "nFailed rep1 = Suc (nFailed rep) \<and> rem1 = rem @ [e]"
    with fold_hold [OF _ f] have "rem' = rem1 @ es \<and> s' = s1 \<and> nFailed rep' = nFailed rep1 \<and> set (Results rep1) \<subseteq> set (Results rep')"
      by simp
    with a e1 show ?thesis
      by (intro exI [of _ effs1] exI [of _ 1] exI [of _ "e # es"]) auto
  qed
qed

lemma replay_spec:
  assumes "replay run j es s = (rep, remaining, s')"
  shows "\<exists>effs k. log s' = log s @ effs \<and>
    ran_list effs = map eUndo (pending es) @ map eUndo (take k (firewall es)) \<and>
    set remaining \<subseteq> set (pending es) \<union> set (firewall es) \<and>
    ((\<exists>e \<in> set remaining. eOp e \<noteq> OpNft) \<longrightarrow> k = 0 \<and> set (firewall es) \<subseteq> set remaining) \<and>
    (\<forall>e \<in> set es. NeedsUndo e \<longrightarrow> e \<in> set remaining \<or> undone_in rep e) \<and>
    (nFailed rep = 0 \<longrightarrow> remaining = [])"
proof -
  obtain rep1 fails s1 where p1: "fold (undoOne run j) (pending es) (no_report, [], s) = (rep1, fails, s1)"
    by (metis prod.exhaust)
  obtain rem where p2: "fold (fw_step run j) (firewall es) (rep1, fails, s1) = (rep, rem, s')"
    and r: "remaining = rev rem"
    using assms p1 by (auto simp: replay_passes split: prod.splits)
  obtain effs1 where a: "log s1 = log s @ effs1" "ran_list effs1 = map eUndo (pending es)"
    "nFailed rep1 = length fails" "set fails \<subseteq> set (pending es)" "\<forall>e \<in> set (pending es). e \<in> set fails \<or> undone_in rep1 e"
    using fold_undoOne [OF p1] by (auto simp: no_report_def)
  have split: "e \<in> set (pending es) \<or> e \<in> set (firewall es)" if "e \<in> set es" "NeedsUndo e" for e
    using that by (auto simp: pending_def firewall_def)
  have fw: "eOp e = OpNft" if "e \<in> set (firewall es)" for e using that by (simp add: firewall_def)
  show ?thesis
  proof (cases "fails = []")
    case True
    with fold_fw_clean [OF _ p2] a obtain effs k rem1 where b: "log s' = log s1 @ effs"
      "ran_list effs = map eUndo (take k (firewall es))" "rem = rem1" "set rem1 \<subseteq> set (firewall es)"
      "nFailed rep = 0 \<longrightarrow> rem1 = []" "set (Results rep1) \<subseteq> set (Results rep)"
      "\<forall>e \<in> set (firewall es). e \<in> set rem1 \<or> undone_in rep e" by auto
    have "undone_in rep e" if "e \<in> set (pending es)" for e
      using that a(5) True b(6) by (auto intro: undone_in_mono)
    with a b r fw show ?thesis
      by (intro exI [of _ "effs1 @ effs"] exI [of _ k]) (auto dest: split)
  next
    case False
    with fold_hold [OF _ p2] a have b: "rem = fails @ firewall es" "s' = s1" "nFailed rep = nFailed rep1"
      "set (Results rep1) \<subseteq> set (Results rep)" by auto
    have "e \<in> set fails \<or> undone_in rep e" if "e \<in> set (pending es)" for e
      using that a(5) b(4) by (auto intro: undone_in_mono)
    then have "e \<in> set remaining \<or> undone_in rep e" if "e \<in> set es" "NeedsUndo e" for e
      using split [OF that] b(1) r by auto
    with a b r False show ?thesis
      by (intro exI [of _ effs1] exI [of _ 0]) auto
  qed
qed

section \<open>Writing back what is left\<close>

definition reopened :: "entry \<Rightarrow> entry" where
  "reopened e = e\<lparr>ePhase := PhaseBegin\<rparr>"

lemma reopened_simps [simp]:
  "eSeq (reopened e) = eSeq e" "eUndo (reopened e) = eUndo e" "eOp (reopened e) = eOp e"
  "keep_entry (reopened e) = keep_entry e" "ePhase (reopened e) = PhaseBegin"
  by (simp_all add: reopened_def keep_entry_def)

lemma merge_rewritten:
  "merge_record \<lparr>rSeq = eSeq e, rPhase = PhaseBegin, rOp = eOp e, rWhy = eWhy e, rDo = eDo e,
     rUndo = eUndo e, rErr = ''''\<rparr> None = reopened e"
  by (cases e) (simp add: merge_record_def Let_def blank_entry_def reopened_def)

lemma scan_rewrite:
  assumes "distinct (map eSeq es)"
  shows "map_of (scan (map (\<lambda>e. Rec \<lparr>rSeq = eSeq e, rPhase = PhaseBegin, rOp = eOp e, rWhy = eWhy e,
      rDo = eDo e, rUndo = eUndo e, rErr = ''''\<rparr>) es)) =
    map_of (map (\<lambda>e. (eSeq e, reopened e)) es)"
  using assms
proof (induction es rule: rev_induct)
  case Nil
  then show ?case by (simp add: scan_def)
next
  case (snoc e es)
  have "map_of (map (\<lambda>e. (eSeq e, reopened e)) es) (eSeq e) = None"
    using snoc.prems by (auto simp: map_of_eq_None_iff)
  moreover from this snoc.prems have "map_of (map (\<lambda>e. (eSeq e, reopened e)) (es @ [e])) =
      (map_of (map (\<lambda>e. (eSeq e, reopened e)) es))(eSeq e \<mapsto> reopened e)"
    by (auto simp: map_add_def fun_eq_iff split: option.splits)
  ultimately show ?case using snoc
    by (simp add: scan_append AList.update_conv' merge_rewritten)
qed

lemma load_rewrite:
  assumes "distinct (map eSeq es)" "\<forall>e \<in> set es. keep_entry e"
  shows "load_entries (rewrite_file es) = sort_key eSeq (map reopened es)"
proof (cases "es = []")
  case False
  have d: "distinct (map eSeq (map reopened es))" using assms(1) by (simp add: comp_def)
  have "map_of (map (\<lambda>e. (eSeq e, reopened e)) es) (eSeq x) = Some x \<longleftrightarrow> x \<in> reopened ` set es" for x
    using assms(1) by (subst map_of_eq_Some_iff) (auto simp: comp_def)
  then have "set (load_entries (rewrite_file es)) = set (map reopened es)"
    using False assms(2) scan_rewrite [OF assms(1)] by (auto simp: rewrite_file_def set_load)
  moreover have "distinct (map eSeq (sort_key eSeq (map reopened es)))"
  proof -
    have "mset (map eSeq (sort_key eSeq (map reopened es))) = mset (map eSeq (map reopened es))"
      by (metis mset_map mset_sort)
    with d show ?thesis by (metis mset_eq_imp_distinct_iff)
  qed
  ultimately show ?thesis by (intro load_unique) simp_all
qed (simp add: rewrite_file_def load_entries_def)

lemma NeedsUndo_keep: "NeedsUndo e \<Longrightarrow> keep_entry e"
  by (simp add: NeedsUndo_def keep_entry_def split: phase.splits)

lemma fold_undo_sub:
  assumes "fold (undoOne run j) es (rep, rem, s) = (rep', rem', s')"
  shows "\<exists>fails. rem' = rem @ fails \<and> subseq fails es"
  using assms
proof (induction es arbitrary: rep rem s)
  case (Cons e es)
  obtain rep1 rem1 s1 where u: "undoOne run j e (rep, rem, s) = (rep1, rem1, s1)" by (metis prod.exhaust)
  then obtain fails where "rem' = rem1 @ fails" "subseq fails es" using Cons by fastforce
  moreover have "rem1 = rem \<or> rem1 = rem @ [e]" by (rule undoOne_cases [OF u]) auto
  ultimately show ?case by auto
qed auto

lemma fold_fw_sub:
  assumes "fold (fw_step run j) es (rep, rem, s) = (rep', rem', s')"
  shows "\<exists>fails. rem' = rem @ fails \<and> subseq fails es"
  using assms
proof (induction es arbitrary: rep rem s)
  case (Cons e es)
  obtain rep1 rem1 s1 where u: "fw_step run j e (rep, rem, s) = (rep1, rem1, s1)" by (metis prod.exhaust)
  then obtain fails where "rem' = rem1 @ fails" "subseq fails es" using Cons by fastforce
  moreover have "rem1 = rem \<or> rem1 = rem @ [e]"
  proof (cases "0 < nFailed rep")
    case True
    with u show ?thesis by (auto simp: fw_step_def hold_def)
  next
    case False
    with u have "undoOne run j e (rep, rem, s) = (rep1, rem1, s1)" by (simp add: fw_step_def)
    then show ?thesis by (rule undoOne_cases) auto
  qed
  ultimately show ?case by auto
qed auto

lemma replay_remaining_distinct:
  assumes "replay run j es s = (rep, remaining, s')" "distinct (map eSeq es)"
  shows "distinct (map eSeq remaining)"
proof -
  obtain rep1 rem1 s1 where p1: "fold (undoOne run j) (pending es) (no_report, [], s) = (rep1, rem1, s1)"
    by (metis prod.exhaust)
  obtain rem where p2: "fold (fw_step run j) (firewall es) (rep1, rem1, s1) = (rep, rem, s')" and r: "remaining = rev rem"
    using assms(1) p1 by (auto simp: replay_passes split: prod.splits)
  obtain fw where "rem = rem1 @ fw" "subseq rem1 (pending es)" "subseq fw (firewall es)"
    using fold_undo_sub [OF p1] fold_fw_sub [OF p2] by auto
  then have s: "subseq rem (pending es @ firewall es)" by (simp add: list_emb_append_mono)
  have "distinct (map eSeq (pending es @ firewall es))"
    using assms(2) by (auto simp: pending_def firewall_def distinct_map_filter rev_map [symmetric]
        dest: map_of_is_SomeI simp: distinct_map inj_on_def)
  then have "distinct (map eSeq rem)" using subseq_map [OF s, of eSeq] by (blast intro: distinct_subseq)
  then show ?thesis by (simp add: r rev_map [symmetric])
qed

section \<open>Applying again\<close>

definition done_for :: "entry list \<Rightarrow> step list \<Rightarrow> bool" where
  "done_for es steps \<longleftrightarrow> map eDo es = map Do (filter (\<lambda>st. \<not> IsZero (Do st)) steps) \<and>
     (\<forall>e \<in> set es. ePhase e = PhaseDone)"

lemma apply_step_skips: "apply_step run state st rep s = ((r, rep'), s') \<Longrightarrow> disk s = [] \<Longrightarrow> nSkipped rep \<le> nSkipped rep' \<and> disk s' = []"
proof -
  assume a: "apply_step run state st rep s = ((r, rep'), s')" and d: "disk s = []"
  show ?thesis
  proof (cases "IsZero (Do st) \<or> in_force state st")
    case True
    with a d show ?thesis by (auto simp: apply_step_def report_add_def step_skip_def split: if_splits)
  next
    case False
    obtain p s1 where p: "pre_satisfied run st s = (p, s1)" by fastforce
    then have d1: "disk s1 = []" using d by (auto elim: pre_satisfied_effects)
    show ?thesis
    proof (cases p)
      case True
      with a p False d1 show ?thesis by (auto simp: apply_step_def report_add_def step_skip_def)
    next
      case p': False
      have ar: "apply_run run st rep s1 = ((r, rep'), s')" using a p p' False by (simp add: apply_step_def)
      obtain res err w where r: "run (Do st) (world s1) = ((res, err), w)" by (metis prod.exhaust)
      obtain b m where bm: "step_records (jseq s1 + 1) st res err = (b, m)" by fastforce
      from apply_run_ok [OF d1 r ar bm] show ?thesis by simp
    qed
  qed
qed

lemma apply_steps_skips:
  "apply_steps run state steps rep s = ((r, rep'), s') \<Longrightarrow> disk s = [] \<Longrightarrow> nSkipped rep \<le> nSkipped rep'"
proof (induction steps arbitrary: rep s)
  case (Cons st steps)
  obtain r1 rep1 s1 where a: "apply_step run state st rep s = ((r1, rep1), s1)" by (metis prod.exhaust)
  with Cons show ?case using apply_step_skips [OF a] by (cases r1) force+
qed simp

lemma apply_steps_all_done:
  assumes "host_ok s" "apply_steps run state steps rep s = ((None, rep'), s')" "nSkipped rep' = nSkipped rep"
  shows "\<exists>es. load_entries (jfile s') = load_entries (jfile s) @ es \<and> done_for es steps \<and> host_ok s'"
  using assms
proof (induction steps arbitrary: rep s)
  case Nil
  then show ?case by (simp add: done_for_def)
next
  case (Cons st steps)
  obtain r1 rep1 s1 where a: "apply_step run state st rep s = ((r1, rep1), s1)" by (metis prod.exhaust)
  then have rest: "apply_steps run state steps rep1 s1 = ((None, rep'), s')" and r1: "r1 = Next"
    using Cons.prems(2) by (auto split: round.splits)
  have d: "disk s = []" using Cons.prems(1) by (simp add: host_ok_def)
  have sk: "nSkipped rep1 = nSkipped rep" "nSkipped rep' = nSkipped rep1"
    using apply_step_skips [OF a d] apply_steps_skips [OF rest] Cons.prems(3) by auto
  show ?case
  proof (cases "IsZero (Do st)")
    case True
    with a have "s1 = s" "rep1 = rep" by (auto simp: apply_step_def)
    with Cons.IH [OF Cons.prems(1)] rest Cons.prems(3) True show ?thesis by (simp add: done_for_def)
  next
    case False
    then have nf: "\<not> in_force state st"
      using a sk(1) by (auto simp: apply_step_def report_add_def step_skip_def split: if_splits)
    obtain p s0 where p: "pre_satisfied run st s = (p, s0)" by fastforce
    have "\<not> p" using a sk(1) False nf p by (auto simp: apply_step_def report_add_def step_skip_def)
    then have ar: "apply_run run st rep s0 = ((r1, rep1), s1)" using a p False nf by (simp add: apply_step_def)
    have s0: "host_ok s0" "jfile s0 = jfile s" "disk s0 = []"
      using Cons.prems(1) p by (auto elim!: pre_satisfied_effects simp: host_ok_def)
    obtain res err w where r: "run (Do st) (world s0) = ((res, err), w)" by (metis prod.exhaust)
    obtain b m where bm: "step_records (jseq s0 + 1) st res err = (b, m)" by fastforce
    note o = apply_run_ok [OF s0(3) r ar bm]
    have ph: "outcome_phase (Do st) res err = PhaseDone"
      using o(6,8) r1 sk(1) outcome_phase_cases [of "Do st" res err] by (auto split: if_splits)
    have "host_ok s1" by (rule host_ok_run [OF s0(1) False bm o(3,2,4)])
    from Cons.IH [OF this rest sk(2)] obtain es where
      "load_entries (jfile s') = load_entries (jfile s1) @ es" "done_for es steps" "host_ok s'" by blast
    moreover have "load_entries (jfile s1) = load_entries (jfile s) @ [entry_of (jseq s0 + 1) st PhaseDone]"
      using step_records_load(2) [OF s0(1) False bm] o(4) ph s0(2) by simp
    ultimately show ?thesis using False by (auto simp: done_for_def entry_of_def)
  qed
qed

lemma state_of_done:
  assumes "\<forall>e \<in> set es. ePhase e = PhaseDone \<and> \<not> IsZero (eDo e)" "distinct (map (CommandLine \<circ> eDo) es)" "e \<in> set es"
  shows "map_of (fold state_entry es m) (CommandLine (eDo e)) = Some (RunnerKey (eDo e))"
  using assms
proof (induction es rule: rev_induct)
  case (snoc x es)
  then show ?case by (auto simp: state_entry_def AList.update_conv' image_iff)
qed simp

lemma apply_steps_in_force:
  assumes "\<forall>st \<in> set steps. \<not> IsZero (Do st) \<longrightarrow> in_force state st"
  shows "\<exists>rep'. apply_steps run state steps rep s = ((None, rep'), s) \<and> nFailed rep' = nFailed rep \<and>
    nSkipped rep' = nSkipped rep + length (filter (\<lambda>st. \<not> IsZero (Do st)) steps)"
  using assms
proof (induction steps arbitrary: rep)
  case (Cons st steps)
  show ?case
  proof (cases "IsZero (Do st)")
    case True
    with Cons show ?thesis by (simp add: apply_step_def)
  next
    case False
    then obtain rep1 where "apply_step run state st rep s = ((Next, rep1), s)" "nFailed rep1 = nFailed rep"
      "nSkipped rep1 = Suc (nSkipped rep)"
      using Cons.prems by (simp add: apply_step_def report_add_def step_skip_def)
    with Cons.IH [of rep1] Cons.prems False show ?thesis by auto
  qed
qed simp

section \<open>Writing back after a replay\<close>

lemma undoOne_disk: "undoOne run j e (rep, rem, s) = (rep', rem', s') \<Longrightarrow> disk s = [] \<Longrightarrow> disk s' = []"
  by (auto simp: undoOne_def run_cmd_def note_undone_def Undone_def split: prod.splits if_splits option.splits)

lemma fold_undoOne_disk:
  "fold (undoOne run j) es (rep, rem, s) = (rep', rem', s') \<Longrightarrow> disk s = [] \<Longrightarrow> disk s' = []"
proof (induction es arbitrary: rep rem s)
  case (Cons e es)
  obtain rep1 rem1 s1 where "undoOne run j e (rep, rem, s) = (rep1, rem1, s1)" by (metis prod.exhaust)
  with Cons show ?case using undoOne_disk by fastforce
qed simp

lemma fold_fw_disk:
  "fold (fw_step run j) es (rep, rem, s) = (rep', rem', s') \<Longrightarrow> disk s = [] \<Longrightarrow> disk s' = []"
proof (induction es arbitrary: rep rem s)
  case (Cons e es)
  obtain rep1 rem1 s1 where u: "fw_step run j e (rep, rem, s) = (rep1, rem1, s1)" by (metis prod.exhaust)
  then have "disk s1 = []"
    using Cons.prems(2) undoOne_disk [of run j e rep rem s rep1 rem1 s1]
    by (auto simp: fw_step_def hold_def split: if_splits)
  with Cons u show ?case by fastforce
qed simp

lemma replay_disk:
  assumes "replay run j es s = (rep, remaining, s')" "disk s = []"
  shows "disk s' = []"
proof -
  obtain rep1 rem1 s1 where p1: "fold (undoOne run j) (pending es) (no_report, [], s) = (rep1, rem1, s1)"
    by (metis prod.exhaust)
  obtain rem where p2: "fold (fw_step run j) (firewall es) (rep1, rem1, s1) = (rep, rem, s')"
    using assms(1) p1 by (auto simp: replay_passes split: prod.splits)
  show ?thesis by (rule fold_fw_disk [OF p2 fold_undoOne_disk [OF p1 assms(2)]])
qed

text \<open>A replay followed by the write-back of what is left.\<close>

lemma replay_left:
  assumes "replay run j (load_entries f) s = (rep, remaining, s')"
  shows "set (load_entries (rewrite_file remaining)) = reopened ` set remaining"
proof -
  have "set remaining \<subseteq> {e \<in> set (load_entries f). NeedsUndo e}"
    using replay_spec [OF assms] by (auto simp: pending_def firewall_def)
  then have "\<forall>e \<in> set remaining. keep_entry e" using NeedsUndo_keep by auto
  then show ?thesis
    using load_rewrite [OF replay_remaining_distinct [OF assms load_distinct_keys]] by simp
qed

lemma replay_write_back:
  assumes "replay run j (load_entries f) s = (rep, remaining, s')"
  shows "\<forall>e \<in> set (load_entries f). NeedsUndo e \<longrightarrow>
      undone_in rep e \<or> reopened e \<in> set (load_entries (rewrite_file remaining))"
    and "set (load_entries (rewrite_file remaining)) \<subseteq> reopened ` {e \<in> set (load_entries f). NeedsUndo e}"
    and "nFailed rep = 0 \<longrightarrow> rewrite_file remaining = None"
proof -
  obtain effs k where sp: "set remaining \<subseteq> set (pending (load_entries f)) \<union> set (firewall (load_entries f))"
    "\<forall>e \<in> set (load_entries f). NeedsUndo e \<longrightarrow> e \<in> set remaining \<or> undone_in rep e"
    "nFailed rep = 0 \<longrightarrow> remaining = []"
    using replay_spec [OF assms(1)] by blast
  then have sub: "set remaining \<subseteq> {e \<in> set (load_entries f). NeedsUndo e}"
    by (auto simp: pending_def firewall_def)
  with sp replay_left [OF assms] show "\<forall>e \<in> set (load_entries f). NeedsUndo e \<longrightarrow>
      undone_in rep e \<or> reopened e \<in> set (load_entries (rewrite_file remaining))"
    and "set (load_entries (rewrite_file remaining)) \<subseteq> reopened ` {e \<in> set (load_entries f). NeedsUndo e}"
    and "nFailed rep = 0 \<longrightarrow> rewrite_file remaining = None"
    by (auto simp: rewrite_file_def)
qed

end
