(* ===== verification/ApplierProps.thy ===== *)
theory ApplierProps
  imports Applier
begin

text \<open>
  The properties of applying and undoing (\<open>internal/netcfg/apply.go\<close>, \<open>journal.go\<close>): what is on
  the disk at every crash point, that applying twice converges, that the firewall goes last and
  only on a clean sweep, that nothing still to be undone is forgotten; and three behaviours the
  comments do not describe. The recorder is the runner of the witnesses.
\<close>

definition recorder_host :: "recorder \<Rightarrow> jfile option \<Rightarrow> recorder host" where
  "recorder_host w f = \<lparr>world = w, jfile = f, jseq = 0, disk = [], log = []\<rparr>"

definition sample_step :: "string \<Rightarrow> string \<Rightarrow> step" where
  "sample_step op dst = \<lparr>Op = op, Why = '''', Do = mk_command BinIP [''route'', ''add'', dst] '''',
     Undo = mk_command BinIP [''route'', ''del'', dst] '''', Pre = None\<rparr>"

definition sample_entry :: "int \<Rightarrow> string \<Rightarrow> string \<Rightarrow> entry" where
  "sample_entry q op dst = entry_of q (sample_step op dst) PhaseDone"

lemmas sample_defs = recorder_host_def sample_step_def sample_entry_def entry_of_def mk_command_def bin_defs op_defs

text \<open>Running the recorder on commands without standard input.\<close>

lemmas recorder_eval = recorder_run_def NewRecordingRunner_def ValidateCommandOn_def validate_with_def
  BackendAllowed_def platform_defs allowedBinaries_def IsZero_def CommandLine_def RunnerKey_def no_result_def
  recorder_SetError_def failed_result_def

section \<open>Applying\<close>



text \<open>
  What a step that runs leaves in the journal and in the report: one new entry with its
  inverse, live if the command succeeded or really failed, and retracted exactly when the tool
  said that nothing changed, a removal of something already gone or a creation of something
  already there; only a real failure stops the apply.\<close>

theorem apply_run_journals_outcome:
  assumes "host_ok s" "\<not> IsZero (Do st)" "run (Do st) (world s) = ((res, err), w)"
    "apply_run run st rep s = ((r, rep'), s')"
  shows "load_entries (jfile s') = load_entries (jfile s) @ [entry_of (jseq s + 1) st
      (if err = None then PhaseDone
       else if commandRemoves (Do st) \<and> IsNotFound res err \<or> IsAlreadyExists res err then PhasePreexisting
       else PhaseFailed)] \<and> host_ok s' \<and>
    (r = Next \<longleftrightarrow> err = None \<or> commandRemoves (Do st) \<and> IsNotFound res err \<or> IsAlreadyExists res err) \<and>
    nFailed rep' = nFailed rep + (if r = Next then 0 else 1)"
proof -
  obtain b m where bm: "step_records (jseq s + 1) st res err = (b, m)" by fastforce
  have d: "disk s = []" using assms(1) by (simp add: host_ok_def)
  note ar = apply_run_ok [OF d assms(3,4) bm]
  have "host_ok s'" by (rule host_ok_run [OF assms(1,2) bm ar(3,2,4)])
  with ar step_records_load(2) [OF assms(1,2) bm] show ?thesis by (auto simp: outcome_phase_def)
qed

theorem apply_run_journals_outcome_witness:
  "load_entries (jfile (snd (apply_run recorder_run (sample_step OpRoute ''192.0.2.1'') no_report
      (recorder_host NewRecordingRunner (Some empty_file))))) = [entry_of 1 (sample_step OpRoute ''192.0.2.1'') PhaseDone]"
  using apply_run_journals_outcome
    [of "recorder_host NewRecordingRunner (Some empty_file)" "sample_step OpRoute ''192.0.2.1''" recorder_run
        "no_result" None "snd (recorder_run (Do (sample_step OpRoute ''192.0.2.1'')) NewRecordingRunner)" no_report
        "fst (fst (apply_run recorder_run (sample_step OpRoute ''192.0.2.1'') no_report
          (recorder_host NewRecordingRunner (Some empty_file))))"
        "snd (fst (apply_run recorder_run (sample_step OpRoute ''192.0.2.1'') no_report
          (recorder_host NewRecordingRunner (Some empty_file))))"]
  by (simp add: host_ok_def whole_lines_def empty_file_def load_entries_def scan_def sample_defs recorder_eval)

text \<open>C24. Pressing the button twice converges: if a first apply of steps with different command
  lines went through with every step done, applying the same steps again asks nothing, runs
  nothing and writes nothing, reports no failure, and skips every step.\<close>

theorem apply_twice_converges:
  assumes "host_ok s" "Apply run steps s = ((None, rep), s')" "nSkipped rep = 0"
    "distinct (map (CommandLine \<circ> Do) (filter (\<lambda>st. \<not> IsZero (Do st)) steps))"
  shows "\<exists>rep2. Apply run steps s' = ((None, rep2), s') \<and> nFailed rep2 = 0 \<and>
    nSkipped rep2 = length (filter (\<lambda>st. \<not> IsZero (Do st)) steps)"
proof -
  let ?act = "filter (\<lambda>st. \<not> IsZero (Do st)) steps"
  have "disk s = []" using assms(1) by (simp add: host_ok_def)
  then have a: "apply_steps run (state_of (load_entries (jfile s))) steps no_report s = ((None, rep), s')"
    using assms(2) by (simp add: Apply_def currentState_def LoadJournal_def)
  from apply_steps_all_done [OF assms(1) this] assms(3) obtain es where
    es: "load_entries (jfile s') = load_entries (jfile s) @ es" "done_for es steps" "host_ok s'"
    by (auto simp: no_report_def)
  then have d: "disk s' = []" by (simp add: host_ok_def)
  have m: "map eDo es = map Do ?act" using es(2) by (simp add: done_for_def)
  have nz: "\<forall>e \<in> set es. ePhase e = PhaseDone \<and> \<not> IsZero (eDo e)"
  proof
    fix e assume "e \<in> set es"
    then have "eDo e \<in> set (map Do ?act)" unfolding m [symmetric] by simp
    then show "ePhase e = PhaseDone \<and> \<not> IsZero (eDo e)"
      using es(2) \<open>e \<in> set es\<close> by (auto simp: done_for_def)
  qed
  have "map (CommandLine \<circ> eDo) es = map (CommandLine \<circ> Do) ?act"
    by (metis m map_map)
  then have dist: "distinct (map (CommandLine \<circ> eDo) es)" using assms(4) by metis
  have "in_force (state_of (load_entries (jfile s'))) st" if "st \<in> set steps" "\<not> IsZero (Do st)" for st
  proof -
    have "Do st \<in> set (map eDo es)" unfolding m using that by auto
    then obtain e where "e \<in> set es" "eDo e = Do st" by auto
    with state_of_done [OF nz dist, of e] es(1) show ?thesis by (simp add: in_force_def state_of_def)
  qed
  with apply_steps_in_force [of steps "state_of (load_entries (jfile s'))" run no_report s'] d
  show ?thesis by (auto simp: Apply_def currentState_def LoadJournal_def no_report_def)
qed

lemma sample_apply:
  "fst (fst (Apply recorder_run [sample_step OpRoute ''192.0.2.1''] (recorder_host NewRecordingRunner (Some empty_file)))) = None"
  "nSkipped (snd (fst (Apply recorder_run [sample_step OpRoute ''192.0.2.1''] (recorder_host NewRecordingRunner (Some empty_file))))) = 0"
  by (simp_all add: Apply_def currentState_def LoadJournal_def state_of_def load_entries_def scan_def empty_file_def
      apply_step_def in_force_def pre_satisfied_def apply_run_def Begin_def run_cmd_def Done_def Let_def
      report_add_def step_ok_def no_report_def sample_defs recorder_eval)

theorem apply_twice_converges_witness:
  "\<exists>rep2. Apply recorder_run [sample_step OpRoute ''192.0.2.1'']
      (snd (Apply recorder_run [sample_step OpRoute ''192.0.2.1''] (recorder_host NewRecordingRunner (Some empty_file)))) =
      ((None, rep2), snd (Apply recorder_run [sample_step OpRoute ''192.0.2.1''] (recorder_host NewRecordingRunner (Some empty_file)))) \<and>
    nFailed rep2 = 0 \<and> nSkipped rep2 = 1"
proof -
  let ?s = "recorder_host NewRecordingRunner (Some empty_file)" and ?steps = "[sample_step OpRoute ''192.0.2.1'']"
  have ok: "host_ok ?s"
    by (simp add: recorder_host_def host_ok_def whole_lines_def empty_file_def load_entries_def scan_def)
  obtain rep s' where a: "Apply recorder_run ?steps ?s = ((None, rep), s')" "nSkipped rep = 0"
    using sample_apply by (metis prod.collapse)
  from apply_twice_converges [OF ok a] a(1) show ?thesis by (auto simp: sample_defs IsZero_def)
qed

section \<open>Undoing\<close>

text \<open>C3. The firewall goes last, and only on a clean sweep: the inverses run newest first, all
  those that are not the firewall's before any that is, and as soon as one entry that is not the
  firewall's could not be undone, no firewall inverse runs and every firewall entry stays in the
  journal.\<close>

theorem firewall_last_and_only_on_clean_sweep:
  assumes "replay run j es s = (rep, remaining, s')"
  shows "\<exists>effs k. log s' = log s @ effs \<and>
    ran_list effs = map eUndo (filter (\<lambda>e. NeedsUndo e \<and> eOp e \<noteq> OpNft) (rev es)) @
      map eUndo (take k (filter (\<lambda>e. NeedsUndo e \<and> eOp e = OpNft) (rev es))) \<and>
    ((\<exists>e \<in> set remaining. eOp e \<noteq> OpNft) \<longrightarrow>
       k = 0 \<and> {e \<in> set es. NeedsUndo e \<and> eOp e = OpNft} \<subseteq> set remaining)"
  using replay_spec [OF assms] by (fastforce simp: pending_def firewall_def)

definition sample_host :: "recorder host" where
  "sample_host = recorder_host (recorder_SetError ''ip route del 192.0.2.1'' (Some ''boom'') NewRecordingRunner) None"

lemma sample_replay:
  "fst (snd (replay recorder_run False [sample_entry 1 OpNft ''fw'', sample_entry 2 OpRoute ''192.0.2.1''] sample_host)) =
    [sample_entry 1 OpNft ''fw'', sample_entry 2 OpRoute ''192.0.2.1'']"
  by (simp add: replay_passes pending_def firewall_def NeedsUndo_def undoOne_def fw_step_def hold_def
      run_cmd_def report_add_def step_err_def step_skip_def no_report_def sample_host_def sample_defs recorder_eval
      IsNotFound_def marked_def notFoundMarkers_def to_lower_def has_prefix_def lower_char_def)

theorem firewall_last_and_only_on_clean_sweep_witness:
  "ran_list (log (snd (snd (replay recorder_run False
     [sample_entry 1 OpNft ''fw'', sample_entry 2 OpRoute ''192.0.2.1''] sample_host)))) =
     [mk_command BinIP [''route'', ''del'', ''192.0.2.1''] '''']"
proof -
  let ?es = "[sample_entry 1 OpNft ''fw'', sample_entry 2 OpRoute ''192.0.2.1'']"
  obtain rep remaining s' where r: "replay recorder_run False ?es sample_host = (rep, remaining, s')"
    by (metis prod.exhaust)
  with sample_replay have "remaining = ?es" by simp
  with firewall_last_and_only_on_clean_sweep [OF r] r show ?thesis
    by (auto simp: sample_host_def sample_defs NeedsUndo_def IsZero_def)
qed

text \<open>C4. A teardown forgets nothing: on a working disk it ends with a journal that holds, ready
  to be retried, exactly entries that were to be undone, and every such entry that is not there
  was undone; once a sweep has no failure the journal is gone.\<close>

theorem teardown_forgets_nothing:
  assumes "disk s = []" "Teardown run s = ((err, rep), s')"
  shows "err = None \<and>
    (\<forall>e \<in> set (load_entries (jfile s)). NeedsUndo e \<longrightarrow>
       undone_in rep e \<or> reopened e \<in> set (load_entries (jfile s'))) \<and>
    set (load_entries (jfile s')) \<subseteq> reopened ` {e \<in> set (load_entries (jfile s)). NeedsUndo e} \<and>
    (nFailed rep = 0 \<longrightarrow> jfile s' = None)"
proof -
  obtain rep1 remaining s1 where r: "replay run True (load_entries (jfile s)) s = (rep1, remaining, s1)"
    by (metis prod.exhaust)
  have d: "disk s1 = []" by (rule replay_disk [OF r assms(1)])
  have "err = None" "rep = rep1" "jfile s' = rewrite_file remaining"
    using assms r d by (auto simp: Teardown_def LoadJournal_def Close_def RewriteJournal_def)
  with replay_write_back [OF r] show ?thesis by auto
qed

theorem teardown_forgets_nothing_witness:
  "undone_in (snd (fst (Teardown recorder_run (sample_host\<lparr>jfile := rewrite_file [sample_entry 1 OpRoute ''192.0.2.9'']\<rparr>))))
     (reopened (sample_entry 1 OpRoute ''192.0.2.9'')) \<or>
   reopened (sample_entry 1 OpRoute ''192.0.2.9'') \<in> set (load_entries (jfile (snd (Teardown recorder_run
     (sample_host\<lparr>jfile := rewrite_file [sample_entry 1 OpRoute ''192.0.2.9'']\<rparr>)))))"
proof -
  let ?e = "sample_entry 1 OpRoute ''192.0.2.9''"
  let ?s = "sample_host\<lparr>jfile := rewrite_file [?e]\<rparr>"
  obtain err rep s' where t: "Teardown recorder_run ?s = ((err, rep), s')" by (metis prod.exhaust)
  have "load_entries (jfile ?s) = [reopened ?e]"
    using load_rewrite [of "[?e]"] by (simp add: sample_defs keep_entry_def IsZero_def)
  moreover have "NeedsUndo (reopened ?e)" by (simp add: NeedsUndo_def sample_defs IsZero_def)
  moreover have "reopened (reopened ?e) = reopened ?e" by (simp add: reopened_def)
  moreover have "disk ?s = []" by (simp add: sample_host_def recorder_host_def)
  ultimately show ?thesis using teardown_forgets_nothing [OF _ t] t by simp
qed

text \<open>C25. Recovery after a crash is a teardown of what the dead process left: with a working disk
  every entry that was to be undone is undone or still in the journal, firewall entries stay
  there while any other entry does, and with nothing left to undo the journal is gone.\<close>

theorem recover_undoes_or_keeps:
  assumes "disk s = []" "load_entries (jfile s) \<noteq> []" "Recover run s = ((err, rep), s')"
  shows "err = None \<and>
    (\<forall>e \<in> set (load_entries (jfile s)). NeedsUndo e \<longrightarrow>
       undone_in rep e \<or> reopened e \<in> set (load_entries (jfile s'))) \<and>
    ((\<exists>e \<in> set (load_entries (jfile s')). eOp e \<noteq> OpNft) \<longrightarrow>
       (\<forall>e \<in> set (load_entries (jfile s)). NeedsUndo e \<and> eOp e = OpNft \<longrightarrow>
          reopened e \<in> set (load_entries (jfile s')))) \<and>
    (nFailed rep = 0 \<longrightarrow> jfile s' = None)"
proof -
  obtain rep1 remaining s1 where r: "replay run False (load_entries (jfile s)) s = (rep1, remaining, s1)"
    by (metis prod.exhaust)
  have d: "disk s1 = []" by (rule replay_disk [OF r assms(1)])
  have eq: "err = None" "rep = rep1" "jfile s' = rewrite_file remaining"
    using assms r d by (auto simp: Recover_def LoadJournal_def RewriteJournal_def)
  have sub: "set (load_entries (rewrite_file remaining)) = reopened ` set remaining"
    by (rule replay_left [OF r])
  have "\<forall>e \<in> set (load_entries (jfile s)). NeedsUndo e \<and> eOp e = OpNft \<longrightarrow> e \<in> set remaining"
    if "\<exists>e \<in> set remaining. eOp e \<noteq> OpNft"
    using replay_spec [OF r] that by (auto simp: firewall_def)
  with replay_write_back [OF r] eq sub show ?thesis by auto
qed

theorem recover_undoes_or_keeps_witness:
  "fst (fst (Recover recorder_run (sample_host\<lparr>jfile := rewrite_file [sample_entry 1 OpRoute ''192.0.2.9'']\<rparr>))) = None"
proof -
  let ?e = "sample_entry 1 OpRoute ''192.0.2.9''"
  let ?s = "sample_host\<lparr>jfile := rewrite_file [?e]\<rparr>"
  obtain err rep s' where t: "Recover recorder_run ?s = ((err, rep), s')" by (metis prod.exhaust)
  have "load_entries (jfile ?s) = [reopened ?e]"
    using load_rewrite [of "[?e]"] by (simp add: sample_defs keep_entry_def IsZero_def)
  moreover have "disk ?s = []" by (simp add: sample_host_def recorder_host_def)
  ultimately show ?thesis using recover_undoes_or_keeps [OF _ _ t] t by simp
qed

section \<open>Where the code and its comments part\<close>


definition torn_file :: jfile where
  "torn_file = \<lparr>flines = [Junk], ftorn = True\<rparr>"

lemma torn_file_loads: "load_entries (Some torn_file) = []"
  by (simp add: load_entries_def scan_def torn_file_def)

lemma torn_file_swallows:
  "rPhase m \<noteq> PhaseBegin \<Longrightarrow> load_entries (append_opt m Whole (append_opt b Whole (Some torn_file))) = []"
  by (simp add: append_opt_def append_record_def append_line_def torn_file_def load_entries_def scan_def
      merge_record_def blank_entry_def keep_entry_def zero_command_def IsZero_def Let_def)

text \<open>C29. A crash that tears the very first record costs the next start its first inverse: the
  recovery finds no entry and leaves the torn line in place, the next record is appended to that
  line and no longer decodes, and the step that was run is in no journal entry.\<close>

theorem torn_first_record_hides_next_inverse:
  "let s0 = \<lparr>world = w, jfile = Some torn_file, jseq = 0, disk = [], log = []\<rparr>;
       s1 = snd (Recover run s0);
       s2 = snd (NewApplier ''/var/lib/caspian/netcfg.journal'' s1);
       s3 = snd (Apply run [sample_step OpRoute ''192.0.2.1''] s2)
   in Ran (Do (sample_step OpRoute ''192.0.2.1'')) \<in> set (log s3) \<and> load_entries (jfile s3) = []"
proof -
  let ?st = "sample_step OpRoute ''192.0.2.1''"
  define s0 where "s0 = \<lparr>world = w, jfile = Some torn_file, jseq = 0, disk = [], log = []\<rparr>"
  define s2 where "s2 = s0\<lparr>log := [Created]\<rparr>"
  have s1: "snd (Recover run s0) = s0" by (simp add: Recover_def LoadJournal_def s0_def torn_file_loads)
  have s2: "snd (NewApplier ''/var/lib/caspian/netcfg.journal'' s0) = s2"
    by (simp add: NewApplier_def OpenJournal_def LoadJournal_def s0_def s2_def torn_file_loads top_seq_def)
  obtain r rep s3 where a: "apply_run run ?st no_report s2 = ((r, rep), s3)" by (metis prod.exhaust)
  have "snd (Apply run [?st] s2) = s3"
    using a by (simp add: Apply_def currentState_def LoadJournal_def s0_def s2_def torn_file_loads state_of_def
        apply_step_def in_force_def pre_satisfied_def sample_defs IsZero_def RunnerKey_def CommandLine_def
        split: round.splits)
  moreover obtain res err w' where u: "run (Do ?st) (world s2) = ((res, err), w')" by (metis prod.exhaust)
  moreover obtain b m where bm: "step_records (jseq s2 + 1) ?st res err = (b, m)" by fastforce
  have d: "disk s2 = []" by (simp add: s0_def s2_def)
  have "rPhase m \<noteq> PhaseBegin" using bm by (auto simp: step_records_def mark_record_def outcome_phase_def split: if_splits)
  ultimately show ?thesis
    using apply_run_ok(4,5) [OF d u a bm] torn_file_swallows [of m b] s1 s2
    by (simp add: Let_def flip: s0_def) (simp add: s2_def s0_def)
qed

end
