(* ===== verification/Reversal.thy ===== *)
theory Reversal
  imports ApplierProps
begin

text \<open>
  When applying steps and tearing them down returns a machine to where it was. A machine is a runner with a view,
  the part of its state that is to be restored; a step reverts on a machine when its inverse takes back what
  it did, or when it did nothing. The laws are \<open>reversible_steps\<close>; the lemmas carry them through \<open>Apply\<close>,
  the journal and \<open>Teardown\<close>, whatever step is refused on the way.
\<close>

section \<open>Steps that revert\<close>

definition after :: "'w runner \<Rightarrow> command \<Rightarrow> 'w \<Rightarrow> 'w" where
  "after run c w = snd (run c w)"

definition neutral :: "'w runner \<Rightarrow> ('w \<Rightarrow> 'v) \<Rightarrow> command \<Rightarrow> bool" where
  "neutral run view c \<longleftrightarrow> (\<forall>w. view (after run c w) = view w)"

definition phase_of :: "'w runner \<Rightarrow> command \<Rightarrow> 'w \<Rightarrow> phase" where
  "phase_of run c w = (case run c w of ((res, err), w') \<Rightarrow> outcome_phase c res err)"

definition reverts :: "'w runner \<Rightarrow> ('w \<Rightarrow> 'v) \<Rightarrow> step \<Rightarrow> 'w \<Rightarrow> bool" where
  "reverts run view st w \<longleftrightarrow>
     (if phase_of run (Do st) w = PhasePreexisting \<or> IsZero (Undo st) then view (after run (Do st) w) = view w
      else view (after run (Undo st) (after run (Do st) w)) = view w)"

definition undo_entries :: "'w runner \<Rightarrow> entry list \<Rightarrow> 'w \<Rightarrow> 'w" where
  "undo_entries run es w = fold (\<lambda>e. after run (eUndo e)) es w"

definition unwinds :: "'w runner \<Rightarrow> ('w \<Rightarrow> 'v) \<Rightarrow> entry list \<Rightarrow> 'w \<Rightarrow> 'v \<Rightarrow> bool" where
  "unwinds run view es w v \<longleftrightarrow>
     (\<forall>w'. view w' = view w \<longrightarrow> view (undo_entries run (pending es) w') = v) \<and>
     (\<forall>e \<in> set es. eOp e = OpNft \<longrightarrow> neutral run view (eUndo e))"

lemma unwinds_here: "unwinds run view es w v \<Longrightarrow> view (undo_entries run (pending es) w) = v"
  by (simp add: unwinds_def)

lemma unwinds_cong: "view w1 = view w2 \<Longrightarrow> unwinds run view es w1 v = unwinds run view es w2 v"
  by (simp add: unwinds_def)

lemma unwinds_Nil: "unwinds run view [] w (view w)"
  by (simp add: unwinds_def pending_def undo_entries_def)

lemma pending_snoc:
  "pending (es @ [e]) = (if NeedsUndo e \<and> eOp e \<noteq> OpNft then e # pending es else pending es)"
  by (simp add: pending_def)

lemma entry_of_simps [simp]:
  "eOp (entry_of q st ph) = Op st" "eUndo (entry_of q st ph) = Undo st" "ePhase (entry_of q st ph) = ph"
  by (simp_all add: entry_of_def)

locale reversible_machine =
  fixes run :: "'w runner" and view :: "'w \<Rightarrow> 'v"
  assumes run_view: "view w1 = view w2 \<Longrightarrow> view (after run c w1) = view (after run c w2)"
begin

lemma unwinds_snoc:
  assumes "unwinds run view es w v" "reverts run view st w"
    and "Op st = OpNft \<Longrightarrow> neutral run view (Do st) \<and> neutral run view (Undo st)"
  shows "unwinds run view (es @ [entry_of q st (phase_of run (Do st) w)]) (after run (Do st) w) v"
proof -
  let ?e = "entry_of q st (phase_of run (Do st) w)"
  have ph: "phase_of run (Do st) w \<in> {PhaseDone, PhasePreexisting, PhaseFailed}"
    using outcome_phase_cases by (auto simp: phase_of_def split: prod.splits)
  have "view (undo_entries run (pending (es @ [?e])) w') = v" if v: "view w' = view (after run (Do st) w)" for w'
  proof (cases "NeedsUndo ?e \<and> Op st \<noteq> OpNft")
    case True
    then have "view (after run (Undo st) w') = view w"
      using assms(2) run_view [OF v, of "Undo st"] by (auto simp: reverts_def NeedsUndo_def split: phase.splits if_splits)
    with True assms(1) show ?thesis by (simp add: pending_snoc undo_entries_def unwinds_def)
  next
    case False
    have "view (after run (Do st) w) = view w"
    proof (cases "Op st = OpNft")
      case True
      with assms(3) show ?thesis by (simp add: neutral_def)
    next
      case nft: False
      with False ph have "phase_of run (Do st) w = PhasePreexisting \<or> IsZero (Undo st)"
        by (auto simp: NeedsUndo_def)
      with assms(2) show ?thesis by (simp add: reverts_def)
    qed
    with False v assms(1) show ?thesis by (auto simp: pending_snoc unwinds_def)
  qed
  then show ?thesis using assms(1,3) by (auto simp: unwinds_def)
qed

end

section \<open>Through an apply\<close>

definition ready_steps :: "(step \<Rightarrow> 'v \<Rightarrow> bool) \<Rightarrow> (step \<Rightarrow> step \<Rightarrow> bool) \<Rightarrow> step list \<Rightarrow> 'v \<Rightarrow> bool" where
  "ready_steps fits clash sts v \<longleftrightarrow> (\<forall>st \<in> set sts. fits st v) \<and> sorted_wrt (\<lambda>a b. \<not> clash a b) sts"

locale reversible_steps = reversible_machine run view for run :: "'w runner" and view :: "'w \<Rightarrow> 'v" +
  fixes fits :: "step \<Rightarrow> 'v \<Rightarrow> bool" and clash :: "step \<Rightarrow> step \<Rightarrow> bool"
  assumes fits_reverts: "fits st (view w) \<Longrightarrow> reverts run view st w"
    and fits_nft: "fits st v \<Longrightarrow> Op st = OpNft \<Longrightarrow> neutral run view (Do st) \<and> neutral run view (Undo st)"
    and fits_pre: "fits st v \<Longrightarrow> Pre st = Some q \<Longrightarrow> neutral run view (Query q)"
    and fits_after: "fits st (view w) \<Longrightarrow> fits st' (view w) \<Longrightarrow> \<not> clash st st' \<Longrightarrow> fits st' (view (after run (Do st) w))"
begin

lemma ready_after: "ready_steps fits clash (st # sts) (view w) \<Longrightarrow> ready_steps fits clash sts (view (after run (Do st) w))"
  using fits_after by (auto simp: ready_steps_def)

lemma ready_tl: "ready_steps fits clash (st # sts) (view w) \<Longrightarrow> ready_steps fits clash sts (view w)"
  by (auto simp: ready_steps_def)

lemma pre_satisfied_frame:
  assumes "pre_satisfied run st s = (b, s')" "fits st v"
  shows "jfile s' = jfile s" "jseq s' = jseq s" "disk s' = disk s" "view (world s') = view (world s)"
proof -
  have "s' = s \<or> (\<exists>q. Pre st = Some q \<and> s' = s\<lparr>world := after run (Query q) (world s), log := log s @ [Asked (Query q)]\<rparr>)"
    using assms(1) by (auto simp: pre_satisfied_def ask_def after_def split: option.splits prod.splits)
  with fits_pre [OF assms(2)] show "jfile s' = jfile s" "jseq s' = jseq s" "disk s' = disk s" "view (world s') = view (world s)"
    by (auto simp: neutral_def)
qed

lemma apply_step_unwinds:
  assumes "host_ok s" "apply_step run state st rep s = ((r, rep'), s')"
    and "ready_steps fits clash (st # sts) (view (world s))" "unwinds run view (load_entries (jfile s)) (world s) v"
  shows "host_ok s' \<and> ready_steps fits clash sts (view (world s')) \<and> unwinds run view (load_entries (jfile s')) (world s') v"
proof (cases "IsZero (Do st) \<or> in_force state st")
  case True
  then have "s' = s" using assms(2) by (auto simp: apply_step_def split: if_splits)
  with assms ready_tl show ?thesis by blast
next
  case False
  obtain p s1 where p: "pre_satisfied run st s = (p, s1)" by fastforce
  have fits: "fits st (view (world s))" using assms(3) by (simp add: ready_steps_def)
  note q = pre_satisfied_frame [OF p fits]
  have ok1: "host_ok s1" using assms(1) q by (simp add: host_ok_def)
  have r1: "ready_steps fits clash (st # sts) (view (world s1))" using assms(3) q(4) by simp
  have u1: "unwinds run view (load_entries (jfile s1)) (world s1) v"
    using assms(4) unwinds_cong [of view "world s1" "world s"] q(1,4) by simp
  show ?thesis
  proof (cases p)
    case True
    then have "s' = s1" using assms(2) False p by (auto simp: apply_step_def)
    with ok1 u1 ready_tl [OF r1] show ?thesis by simp
  next
    case np: False
    have a: "apply_run run st rep s1 = ((r, rep'), s')"
      using assms(2) False np p by (simp add: apply_step_def)
    obtain res err w where r: "run (Do st) (world s1) = ((res, err), w)" by (metis prod.exhaust)
    obtain b m where bm: "step_records (jseq s1 + 1) st res err = (b, m)" by fastforce
    have d: "disk s1 = []" using ok1 by (simp add: host_ok_def)
    note ar = apply_run_ok [OF d r a bm]
    have nz: "\<not> IsZero (Do st)" using False by simp
    have w: "w = after run (Do st) (world s1)" "phase_of run (Do st) (world s1) = outcome_phase (Do st) res err"
      using r by (simp_all add: after_def phase_of_def)
    have f1: "fits st (view (world s1))" using fits q(4) by simp
    have "unwinds run view (load_entries (jfile s1) @ [entry_of (jseq s1 + 1) st (phase_of run (Do st) (world s1))])
        (after run (Do st) (world s1)) v"
      by (rule unwinds_snoc [OF u1 fits_reverts [OF f1] fits_nft [OF f1]])
    then have "unwinds run view (load_entries (jfile s')) (world s') v"
      using step_records_load(2) [OF ok1 nz bm] by (simp add: w ar(1,4))
    moreover have "ready_steps fits clash sts (view (world s'))" using ready_after [OF r1] by (simp add: ar(1) w(1))
    moreover have "host_ok s'" by (rule host_ok_run [OF ok1 nz bm ar(3,2,4)])
    ultimately show ?thesis by simp
  qed
qed

lemma apply_steps_unwinds:
  assumes "host_ok s" "apply_steps run state sts rep s = ((r, rep'), s')"
    and "ready_steps fits clash sts (view (world s))" "unwinds run view (load_entries (jfile s)) (world s) v"
  shows "host_ok s' \<and> unwinds run view (load_entries (jfile s')) (world s') v"
  using assms
proof (induction sts arbitrary: rep s)
  case (Cons st sts)
  obtain r1 rep1 s1 where a: "apply_step run state st rep s = ((r1, rep1), s1)" by (metis prod.exhaust)
  note st = apply_step_unwinds [OF Cons.prems(1) a Cons.prems(3,4)]
  show ?case
  proof (cases r1)
    case Next
    with Cons.prems(2) a have "apply_steps run state sts rep1 s1 = ((r, rep'), s')" by simp
    with st Cons.IH show ?thesis by blast
  next
    case (Stop e)
    with Cons.prems(2) a st show ?thesis by simp
  qed
qed simp

lemma Apply_unwinds:
  assumes "host_ok s" "ready_steps fits clash sts (view (world s))" "unwinds run view (load_entries (jfile s)) (world s) v"
  shows "host_ok (snd (Apply run sts s)) \<and>
    unwinds run view (load_entries (jfile (snd (Apply run sts s)))) (world (snd (Apply run sts s))) v"
proof -
  have d: "disk s = []" using assms(1) by (simp add: host_ok_def)
  obtain r rep s' where a: "apply_steps run (state_of (load_entries (jfile s))) sts no_report s = ((r, rep), s')"
    by (metis prod.exhaust)
  then have "snd (Apply run sts s) = s'" using d by (simp add: Apply_def currentState_def LoadJournal_def)
  with apply_steps_unwinds [OF assms(1) a assms(2,3)] show ?thesis by simp
qed

end

section \<open>Through a teardown\<close>

lemma undoOne_world:
  "undoOne run j e (rep, rem, s) = (rep', rem', s') \<Longrightarrow> disk s = [] \<Longrightarrow> world s' = after run (eUndo e) (world s)"
  by (auto simp: undoOne_def run_cmd_def note_undone_def Undone_def after_def split: prod.splits if_splits option.splits)

lemma fold_undoOne_world:
  "fold (undoOne run j) es (rep, rem, s) = (rep', rem', s') \<Longrightarrow> disk s = [] \<Longrightarrow> world s' = undo_entries run es (world s)"
proof (induction es arbitrary: rep rem s)
  case (Cons e es)
  obtain rep1 rem1 s1 where u: "undoOne run j e (rep, rem, s) = (rep1, rem1, s1)" by (metis prod.exhaust)
  with Cons.prems have "fold (undoOne run j) es (rep1, rem1, s1) = (rep', rem', s')" by simp
  from Cons.IH [OF this undoOne_disk [OF u Cons.prems(2)]] undoOne_world [OF u Cons.prems(2)]
  show ?case by (simp add: undo_entries_def)
qed (simp add: undo_entries_def)

lemma fold_fw_view:
  assumes "\<forall>e \<in> set es. neutral run view (eUndo e)"
  shows "fold (fw_step run j) es (rep, rem, s) = (rep', rem', s') \<Longrightarrow> disk s = [] \<Longrightarrow> view (world s') = view (world s)"
  using assms
proof (induction es arbitrary: rep rem s)
  case (Cons e es)
  obtain rep1 rem1 s1 where u: "fw_step run j e (rep, rem, s) = (rep1, rem1, s1)" by (metis prod.exhaust)
  then have "view (world s1) = view (world s) \<and> disk s1 = []"
    using Cons.prems(2,3) undoOne_world [of run j e rep rem s rep1 rem1 s1] undoOne_disk [of run j e rep rem s rep1 rem1 s1]
    by (auto simp: fw_step_def hold_def neutral_def split: if_splits)
  moreover from u Cons.prems have "fold (fw_step run j) es (rep1, rem1, s1) = (rep', rem', s')" by simp
  ultimately show ?case using Cons.IH Cons.prems(3) by fastforce
qed simp

lemma Teardown_view:
  assumes "unwinds run view (load_entries (jfile s)) (world s) v" "disk s = []" "Teardown run s = (r, s')"
  shows "view (world s') = v"
proof -
  let ?es = "load_entries (jfile s)"
  obtain rep1 rem1 s1 where p1: "fold (undoOne run True) (pending ?es) (no_report, [], s) = (rep1, rem1, s1)"
    by (metis prod.exhaust)
  obtain rep2 rem2 s2 where p2: "fold (fw_step run True) (firewall ?es) (rep1, rem1, s1) = (rep2, rem2, s2)"
    by (metis prod.exhaust)
  have d1: "disk s1 = []" by (rule fold_undoOne_disk [OF p1 assms(2)])
  have d2: "disk s2 = []" by (rule fold_fw_disk [OF p2 d1])
  have "replay run True ?es s = (rep2, rev rem2, s2)" by (simp add: replay_passes p1 p2)
  then have "world s' = world s2"
    using assms(2,3) d2 by (auto simp: Teardown_def LoadJournal_def Close_def RewriteJournal_def)
  moreover have "view (world s2) = view (world s1)"
    using assms(1) by (intro fold_fw_view [OF _ p2 d1]) (auto simp: unwinds_def firewall_def)
  moreover have "view (world s1) = v"
    using unwinds_here [OF assms(1)] fold_undoOne_world [OF p1 assms(2)] by simp
  ultimately show ?thesis by simp
qed

section \<open>Facts every command keeps\<close>

definition keeps :: "'w runner \<Rightarrow> ('w \<Rightarrow> bool) \<Rightarrow> bool" where
  "keeps run P \<longleftrightarrow> (\<forall>c w. P w \<longrightarrow> P (after run c w))"

lemma keepsD: "keeps run P \<Longrightarrow> P w \<Longrightarrow> run c w = (r, w') \<Longrightarrow> P w'"
  by (metis after_def keeps_def snd_conv)

lemma journal_write_world: "journal_write r s = (e, s') \<Longrightarrow> world s' = world s"
  by (auto simp: journal_write_def put_record_def next_io_def split: io.splits list.splits prod.splits)

lemma apply_run_keeps:
  assumes "keeps run P" "P (world s)" "apply_run run st rep s = (r, s')"
  shows "P (world s')"
proof -
  obtain e s1 where w1: "journal_write (begin_record (jseq s + 1) st) (s\<lparr>jseq := jseq s + 1\<rparr>) = (e, s1)" by fastforce
  then have p1: "P (world s1)" using journal_write_world [OF w1] assms(2) by simp
  obtain res err w where run: "run (Do st) (world s1) = ((res, err), w)" by (metis prod.exhaust)
  then have pw: "P w" using keepsD [OF assms(1) p1] by blast
  define m where "m = mark_record (jseq s + 1) (outcome_phase (Do st) res err) (error_text err)"
  define s2 where "s2 = s1\<lparr>world := w, log := log s1 @ [Ran (Do st)]\<rparr>"
  obtain e2 s3 where w2: "journal_write m s2 = (e2, s3)" by fastforce
  have "s' = (if e \<noteq> None then s1 else s3)"
    using assms(3) w1 w2 run
    by (auto simp: apply_run_def Begin_def run_cmd_def Let_def m_def s2_def Done_def Failed_def Preexisting_def
        outcome_phase_def error_text_def split: if_splits option.splits prod.splits)
  with p1 pw journal_write_world [OF w2] show ?thesis by (simp add: s2_def)
qed

lemma apply_step_keeps:
  assumes "keeps run P" "P (world s)" "apply_step run state st rep s = (r, s')"
  shows "P (world s')"
proof -
  obtain b s1 where p: "pre_satisfied run st s = (b, s1)" by fastforce
  then have "P (world s1)"
    using assms(2) keepsD [OF assms(1,2)] by (auto simp: pre_satisfied_def ask_def split: option.splits prod.splits)
  with p assms show ?thesis
    using apply_run_keeps [OF assms(1)] by (auto simp: apply_step_def split: if_splits bool.splits)
qed

lemma apply_steps_keeps:
  assumes "keeps run P"
  shows "P (world s) \<Longrightarrow> apply_steps run state sts rep s = (r, s') \<Longrightarrow> P (world s')"
proof (induction sts arbitrary: rep s)
  case (Cons st sts)
  obtain r1 rep1 s1 where a: "apply_step run state st rep s = ((r1, rep1), s1)" by (metis prod.exhaust)
  with Cons apply_step_keeps [OF assms Cons.prems(1) a] show ?case by (cases r1) auto
qed simp

lemma Apply_keeps:
  assumes "keeps run P" "P (world s)" "disk s = []"
  shows "P (world (snd (Apply run sts s)))"
  using apply_steps_keeps [OF assms(1,2)] assms(3)
  by (cases "apply_steps run (state_of (load_entries (jfile s))) sts no_report s")
    (auto simp: Apply_def currentState_def LoadJournal_def)

lemma undo_entries_keeps: "keeps run P \<Longrightarrow> P w \<Longrightarrow> P (undo_entries run es w)"
  by (induction es arbitrary: w) (auto simp: undo_entries_def keeps_def)

lemma fold_fw_keeps:
  assumes "keeps run P"
  shows "fold (fw_step run j) es (rep, rem, s) = (rep', rem', s') \<Longrightarrow> disk s = [] \<Longrightarrow> P (world s) \<Longrightarrow> P (world s')"
proof (induction es arbitrary: rep rem s)
  case (Cons e es)
  obtain rep1 rem1 s1 where u: "fw_step run j e (rep, rem, s) = (rep1, rem1, s1)" by (metis prod.exhaust)
  then have "P (world s1) \<and> disk s1 = []"
    using assms Cons.prems(2,3) undoOne_world [of run j e rep rem s rep1 rem1 s1] undoOne_disk [of run j e rep rem s rep1 rem1 s1]
    by (auto simp: fw_step_def hold_def keeps_def split: if_splits)
  moreover from u Cons.prems have "fold (fw_step run j) es (rep1, rem1, s1) = (rep', rem', s')" by simp
  ultimately show ?case using Cons.IH by blast
qed simp

lemma Teardown_keeps:
  assumes "keeps run P" "P (world s)" "disk s = []" "Teardown run s = (r, s')"
  shows "P (world s')"
proof -
  obtain rep1 rem1 s1 where p1: "fold (undoOne run True) (pending (load_entries (jfile s))) (no_report, [], s) = (rep1, rem1, s1)"
    by (metis prod.exhaust)
  obtain rep2 rem2 s2 where p2: "fold (fw_step run True) (firewall (load_entries (jfile s))) (rep1, rem1, s1) = (rep2, rem2, s2)"
    by (metis prod.exhaust)
  have d1: "disk s1 = []" by (rule fold_undoOne_disk [OF p1 assms(3)])
  have d2: "disk s2 = []" by (rule fold_fw_disk [OF p2 d1])
  have "P (world s1)" using undo_entries_keeps [OF assms(1,2)] fold_undoOne_world [OF p1 assms(3)] by simp
  then have "P (world s2)" by (rule fold_fw_keeps [OF assms(1) p2 d1])
  moreover have "replay run True (load_entries (jfile s)) s = (rep2, rev rem2, s2)" by (simp add: replay_passes p1 p2)
  ultimately show ?thesis
    using assms(3,4) d2 by (auto simp: Teardown_def LoadJournal_def Close_def RewriteJournal_def)
qed

end
