(* ===== verification/NftProps.thy ===== *)
theory NftProps
  imports Nft
begin

text \<open>
  What the ruleset lets through. How the kernel decides whether a match holds for a packet is code outside the
  repository: it is the parameter \<open>holds\<close>, and the locale \<open>nft_matching\<close> states what the nftables manual says of the
  matches the generator uses. A chain gives the verdict of its first rule all of whose matches hold, and its
  policy if there is none.
\<close>

section \<open>Packets and verdicts\<close>

datatype transport = Tcp int int | Udp int int | Icmp string | Icmp6 string | OtherProto

record packet =
  pkIif :: string
  pkOif :: string
  pkFamily :: nft_family
  pkCt :: ct_state
  pkSrc :: addr
  pkDst :: addr
  pkTransport :: transport

definition udp_dport :: "packet \<Rightarrow> int \<Rightarrow> bool" where
  "udp_dport k n \<longleftrightarrow> (case pkTransport k of Udp s d \<Rightarrow> d = n | _ \<Rightarrow> False)"

definition tcp_dport :: "packet \<Rightarrow> int \<Rightarrow> bool" where
  "tcp_dport k n \<longleftrightarrow> (case pkTransport k of Tcp s d \<Rightarrow> d = n | _ \<Rightarrow> False)"

locale nft_matching =
  fixes holds :: "nft_match \<Rightarrow> packet \<Rightarrow> bool"
  assumes holds_iif: "holds (IifName n) k \<longleftrightarrow> pkIif k = n"
    and holds_oif: "holds (OifName n) k \<longleftrightarrow> pkOif k = n"
    and holds_ct: "holds (CtState ss) k \<longleftrightarrow> pkCt k \<in> set ss"
    and holds_family: "holds (NfProto f) k \<longleftrightarrow> pkFamily k = f"
    and holds_udp_dport: "holds (UdpDport i) k \<longleftrightarrow> udp_dport k i"
    and holds_udp_sport: "holds (UdpSport i) k \<longleftrightarrow> (case pkTransport k of Udp s d \<Rightarrow> s = i | _ \<Rightarrow> False)"
    and holds_tcp_dport: "holds (TcpDport i) k \<longleftrightarrow> tcp_dport k i"
    and holds_saddr_in: "holds (IpSaddrIn p) k \<longleftrightarrow> pkFamily k = Fam4 \<and> Contains p (pkSrc k)"
    and holds_daddr_in: "holds (IpDaddrIn p) k \<longleftrightarrow> pkFamily k = Fam4 \<and> Contains p (pkDst k)"
    and holds_daddr: "holds (IpDaddr a) k \<longleftrightarrow> pkFamily k = Fam4 \<and> pkDst k = a"
    and holds_daddr6: "holds (Ip6Daddr a) k \<longleftrightarrow> pkFamily k = Fam6 \<and> pkDst k = a"
    and holds_echo: "holds IcmpEchoRequest k \<longleftrightarrow> pkTransport k = Icmp ''echo-request''"
    and holds_icmp6: "holds (Icmp6Type ts) k \<longleftrightarrow> (\<exists>t \<in> set ts. pkTransport k = Icmp6 t)"
begin

lemmas holds_simps = holds_iif holds_oif holds_ct holds_family holds_udp_dport holds_udp_sport holds_tcp_dport
  holds_saddr_in holds_daddr_in holds_daddr holds_daddr6 holds_echo holds_icmp6

end

fun eval_rules :: "(nft_match \<Rightarrow> packet \<Rightarrow> bool) \<Rightarrow> nft_rule list \<Rightarrow> nft_verdict \<Rightarrow> packet \<Rightarrow> nft_verdict" where
  "eval_rules holds [] pol k = pol"
| "eval_rules holds (r # rs) pol k =
     (if list_all (\<lambda>m. holds m k) (rMatches r) then rVerdict r else eval_rules holds rs pol k)"

definition chain_verdict :: "(nft_match \<Rightarrow> packet \<Rightarrow> bool) \<Rightarrow> nft_chain \<Rightarrow> packet \<Rightarrow> nft_verdict" where
  "chain_verdict holds c k = eval_rules holds (item_rules (nItems c)) (nPolicy c) k"

lemma item_rules_append [simp]: "item_rules (xs @ ys) = item_rules xs @ item_rules ys"
  by (induction xs rule: item_rules.induct) simp_all

lemma item_rules_map_RuleLine [simp]: "item_rules (map (\<lambda>x. RuleLine (f x)) xs) = map f xs"
  by (induction xs) simp_all

lemma eval_rules_append:
  "eval_rules holds (rs @ rs') pol k = eval_rules holds rs (eval_rules holds rs' pol k) k"
  by (induction rs) simp_all

text \<open>The rules of each group of items, without the comments around them.\<close>

lemma input_rules:
  "item_rules (input_items p) =
    [Rule [IifName ''lo''] Accept '''', Rule [CtState [CtInvalid]] Drop ''malformed or out-of-state, not new inbound'',
     Rule [IifName (Tun p)] Accept ''tunnel: a router's own traffic is INPUT, not FORWARD'',
     Rule [IifName (Hotspot p), CtState [CtEstablished, CtRelated]] Accept '''',
     Rule [IifName (Hotspot p), UdpDport 67] Accept ''DHCP server for clients'',
     Rule [IifName (Hotspot p), UdpDport (DNSPort (Opts p))] Accept ''client DNS, after the prerouting redirect'',
     Rule [IifName (Hotspot p), TcpDport (DNSPort (Opts p))] Accept ''client DNS over TCP'',
     Rule [IifName (Hotspot p), TcpDport (PanelPort (Opts p))] Accept ''panel'',
     Rule [NfProto Fam4, IifName (Hotspot p), IcmpEchoRequest] Accept '''',
     Rule [IifName (Hotspot p)] Drop ''a joined device reaches nothing else on this box'']"
  by (simp only: input_items_def item_rules.simps)

lemma leak_block_rules:
  "item_rules (leak_block_items p) =
    [Rule [IifName (Hotspot p), OifName (Uplink p)] Drop ''fail-closed: client traffic never leaves by the uplink'']"
  by (simp only: leak_block_items_def item_rules.simps)

lemma ipv6_block_rules:
  "item_rules (ipv6_block_items p) =
    [Rule [NfProto Fam6, IifName (Hotspot p)] Drop ''no IPv6 tunnel: clients get no IPv6'',
     Rule [NfProto Fam6, OifName (Hotspot p)] Drop '''']"
  by (simp only: ipv6_block_items_def item_rules.simps)

lemma dns_bypass_rules:
  "item_rules (dns_bypass_items p) =
    [Rule [IifName (Hotspot p), TcpDport 853] RejectTcpReset ''DNS over TLS'',
     Rule [IifName (Hotspot p), UdpDport 853] Drop ''DNS over QUIC'']"
  by (simp only: dns_bypass_items_def item_rules.simps)

lemma isolation_rules:
  "item_rules (isolation_items p) = [Rule [IifName (Hotspot p), OifName (Hotspot p)] Drop ''client isolation'']"
  by (simp only: isolation_items_def item_rules.simps)

lemma cut_rules:
  "item_rules (cut_items p) = [Rule [IifName (Hotspot p)] Drop ''client traffic cut by the user'']"
  by (simp only: cut_items_def item_rules.simps)

lemma forward_accept_rules:
  "item_rules (forward_accept_items p) =
    [Rule [NfProto Fam4, IifName (Hotspot p), OifName (Tun p), IpSaddrIn (HotspotSubnet p)] Accept '''',
     Rule [NfProto Fam4, IifName (Tun p), OifName (Hotspot p), IpDaddrIn (HotspotSubnet p)] Accept '''']"
  by (simp only: forward_accept_items_def item_rules.simps)

lemma ipv6_forward_rules: "item_rules (ipv6_forward_items p) = []"
  by (simp only: ipv6_forward_items_def item_rules.simps)

lemma open_output_rules:
  "item_rules (open_output_items p) =
    [Rule [OifName (Tun p)] Accept ''tunnel: a router's own traffic is OUTPUT, not FORWARD'',
     Rule [OifName (Hotspot p), Icmp6Type [''nd-router-advert'']] Drop '''']"
  by (simp only: open_output_items_def item_rules.simps)

lemma restricted_head_rules:
  "item_rules (restricted_output_head p) =
    [Rule [CtState [CtEstablished, CtRelated]] Accept '''', Rule [OifName ''lo''] Accept '''',
     Rule [OifName (Tun p)] Accept ''tunnel: a router's own traffic is OUTPUT, not FORWARD'',
     Rule [OifName (Hotspot p), Icmp6Type [''nd-router-advert'']] Drop '''',
     Rule [UdpSport 68, UdpDport 67] Accept ''DHCP client: renew this box's own lease'',
     Rule [UdpSport 67, UdpDport 68] Accept ''DHCP server: answer joined devices'',
     Rule [UdpDport 123] Accept ''NTP'', Rule [UdpDport 53] Accept '''', Rule [TcpDport 53] Accept '''']"
  by (simp only: restricted_output_head_def item_rules.simps)

lemma restricted_tail_rules:
  "item_rules (restricted_output_tail p) =
    [Rule [NfProto Fam6, Icmp6Type [''nd-neighbor-solicit'', ''nd-neighbor-advert'', ''nd-router-solicit'',
       ''destination-unreachable'', ''packet-too-big'', ''time-exceeded'', ''parameter-problem'']] Accept '''']"
  by (simp only: restricted_output_tail_def item_rules.simps)

lemma prerouting_rules:
  "item_rules (prerouting_items p) =
    [Rule [IifName (Hotspot p), UdpDport 53] (RedirectTo (DNSPort (Opts p))) '''',
     Rule [IifName (Hotspot p), TcpDport 53] (RedirectTo (DNSPort (Opts p))) '''']"
  by (simp only: prerouting_items_def item_rules.simps)

lemma postrouting_rules:
  "item_rules (masquerade_items p) = [Rule [OifName (Tun p)] Masquerade ''enabled by configuration'']"
  "item_rules (no_masquerade_items p) = []"
  by (simp_all only: masquerade_items_def no_masquerade_items_def item_rules.simps)

lemma server_rules:
  "item_rules (server_items p) =
    map (\<lambda>sa. Rule [if Is6 sa then Ip6Daddr sa else IpDaddr sa] Accept ''the proxy server'') (ServerAddr p)"
  by (simp add: server_items_def)

lemmas ruleset_rules = input_rules leak_block_rules ipv6_block_rules dns_bypass_rules isolation_rules cut_rules
  forward_accept_rules ipv6_forward_rules open_output_rules restricted_head_rules restricted_tail_rules
  prerouting_rules postrouting_rules server_rules

lemma eval_servers:
  "eval_rules holds (map (\<lambda>sa. Rule [if Is6 sa then Ip6Daddr sa else IpDaddr sa] Accept c) as) pol k =
    (if \<exists>sa \<in> set as. holds (if Is6 sa then Ip6Daddr sa else IpDaddr sa) k then Accept else pol)"
  by (induction as) auto

section \<open>The chains, packet by packet\<close>

context nft_matching
begin

lemma forward_verdict:
  "chain_verdict holds (forward_chain p st) k = Accept \<longleftrightarrow>
     st = ForwardNormal \<and> pkFamily k = Fam4 \<and> pkCt k \<noteq> CtInvalid \<and>
     \<not> (pkIif k = Hotspot p \<and>
        (pkOif k = Uplink p \<or> tcp_dport k 853 \<or> udp_dport k 853 \<or> (ClientIsolation (Opts p) \<and> pkOif k = Hotspot p))) \<and>
     ((pkIif k = Hotspot p \<and> pkOif k = Tun p \<and> Contains (HotspotSubnet p) (pkSrc k)) \<or>
      (pkIif k = Tun p \<and> pkOif k = Hotspot p \<and> Contains (HotspotSubnet p) (pkDst k)))"
  by (cases "pkFamily k"; cases st; cases "IPv6 (Opts p)"; cases "ClientIsolation (Opts p)"; cases "pkIif k = Hotspot p";
      cases "pkOif k = Hotspot p"; simp add: chain_verdict_def forward_chain_def ruleset_rules holds_simps)

lemma input_verdict:
  "chain_verdict holds (input_chain p) k = Accept \<longleftrightarrow>
     pkIif k = ''lo'' \<or>
     (pkCt k \<noteq> CtInvalid \<and>
      (pkIif k = Tun p \<or> pkIif k \<noteq> Hotspot p \<or> pkCt k = CtEstablished \<or> pkCt k = CtRelated \<or> udp_dport k 67 \<or>
       udp_dport k (DNSPort (Opts p)) \<or> tcp_dport k (DNSPort (Opts p)) \<or> tcp_dport k (PanelPort (Opts p)) \<or>
       (pkFamily k = Fam4 \<and> pkTransport k = Icmp ''echo-request'')))"
  by (simp add: chain_verdict_def input_chain_def ruleset_rules holds_simps)

lemma restricted_output_verdict:
  assumes "Egress (Opts p) = EgressRestricted"
  shows "chain_verdict holds (output_chain p) k = Accept \<longleftrightarrow>
     pkCt k = CtEstablished \<or> pkCt k = CtRelated \<or> pkOif k = ''lo'' \<or> pkOif k = Tun p \<or>
     (\<not> (pkOif k = Hotspot p \<and> pkTransport k = Icmp6 ''nd-router-advert'') \<and>
      (pkTransport k = Udp 68 67 \<or> pkTransport k = Udp 67 68 \<or> udp_dport k 123 \<or> udp_dport k 53 \<or> tcp_dport k 53 \<or>
       (\<exists>sa \<in> set (ServerAddr p). pkDst k = sa \<and> pkFamily k = (if Is6 sa then Fam6 else Fam4)) \<or>
       (pkFamily k = Fam6 \<and> (\<exists>t \<in> {''nd-neighbor-solicit'', ''nd-neighbor-advert'', ''nd-router-solicit'',
          ''destination-unreachable'', ''packet-too-big'', ''time-exceeded'', ''parameter-problem''}. pkTransport k = Icmp6 t))))"
proof -
  have srv: "holds (if Is6 sa then Ip6Daddr sa else IpDaddr sa) k \<longleftrightarrow>
      pkDst k = sa \<and> pkFamily k = (if Is6 sa then Fam6 else Fam4)" for sa
    by (auto simp: holds_simps)
  show ?thesis
    using assms
    by (cases "pkTransport k")
      (simp_all add: chain_verdict_def output_chain_def writeRestrictedOutput_def ruleset_rules eval_rules_append
        eval_servers srv holds_simps udp_dport_def tcp_dport_def)
qed

lemma open_output_verdict:
  assumes "Egress (Opts p) = EgressOpen"
  shows "chain_verdict holds (output_chain p) k = Accept \<longleftrightarrow>
     pkOif k = Tun p \<or> \<not> (pkOif k = Hotspot p \<and> pkTransport k = Icmp6 ''nd-router-advert'')"
  using assms by (simp add: chain_verdict_def output_chain_def ruleset_rules holds_simps)

lemma prerouting_verdict:
  "chain_verdict holds (prerouting_chain p) k =
     (if pkIif k = Hotspot p \<and> (udp_dport k 53 \<or> tcp_dport k 53) then RedirectTo (DNSPort (Opts p)) else Accept)"
  by (simp add: chain_verdict_def prerouting_chain_def ruleset_rules holds_simps)

lemma postrouting_verdict:
  "chain_verdict holds (postrouting_chain p) k =
     (if MasqueradeToTunnel (Opts p) \<and> pkOif k = Tun p then Masquerade else Accept)"
  by (simp add: chain_verdict_def postrouting_chain_def ruleset_rules holds_simps)

end

section \<open>A concrete reading of the matches\<close>

fun packet_matches :: "nft_match \<Rightarrow> packet \<Rightarrow> bool" where
  "packet_matches (IifName n) k \<longleftrightarrow> pkIif k = n"
| "packet_matches (OifName n) k \<longleftrightarrow> pkOif k = n"
| "packet_matches (CtState ss) k \<longleftrightarrow> list_ex (\<lambda>s. s = pkCt k) ss"
| "packet_matches (NfProto f) k \<longleftrightarrow> pkFamily k = f"
| "packet_matches (UdpDport i) k \<longleftrightarrow> udp_dport k i"
| "packet_matches (UdpSport i) k \<longleftrightarrow> (case pkTransport k of Udp s d \<Rightarrow> s = i | _ \<Rightarrow> False)"
| "packet_matches (TcpDport i) k \<longleftrightarrow> tcp_dport k i"
| "packet_matches (IpSaddrIn p) k \<longleftrightarrow> pkFamily k = Fam4 \<and> Contains p (pkSrc k)"
| "packet_matches (IpDaddrIn p) k \<longleftrightarrow> pkFamily k = Fam4 \<and> Contains p (pkDst k)"
| "packet_matches (IpDaddr a) k \<longleftrightarrow> pkFamily k = Fam4 \<and> pkDst k = a"
| "packet_matches (Ip6Daddr a) k \<longleftrightarrow> pkFamily k = Fam6 \<and> pkDst k = a"
| "packet_matches IcmpEchoRequest k \<longleftrightarrow> pkTransport k = Icmp ''echo-request''"
| "packet_matches (Icmp6Type ts) k \<longleftrightarrow> list_ex (\<lambda>t. pkTransport k = Icmp6 t) ts"

interpretation manual: nft_matching packet_matches
  by unfold_locales (auto simp: list_ex_iff)

definition sample_nft_plan :: plan where
  "sample_nft_plan = (new_plan \<lparr>Links = [], Routes = [], Wireless = [], Phys = [], factsSOCKS = [], SystemSOCKSKnown = False,
       factsNMPresent = True, factsSysctl = []\<rparr> DefaultOptions)
     \<lparr>Uplink := ''eth0'', Hotspot := ''ap0'', HotspotSubnet := PrefixFrom (ip4 10 83 51 0) 24, ServerAddr := [ip4 203 0 113 10]\<rparr>"

definition sample_client_packet :: "string \<Rightarrow> transport \<Rightarrow> packet" where
  "sample_client_packet out t = \<lparr>pkIif = ''ap0'', pkOif = out, pkFamily = Fam4, pkCt = CtNew, pkSrc = ip4 10 83 51 20,
     pkDst = ip4 93 184 216 34, pkTransport = t\<rparr>"

section \<open>Rules that mention an interface\<close>

definition names_iface :: "string \<Rightarrow> nft_rule \<Rightarrow> bool" where
  "names_iface n r \<longleftrightarrow> list_ex (\<lambda>m. m = IifName n \<or> m = OifName n) (rMatches r)"

lemma eval_rules_no_accept:
  "\<forall>r \<in> set rs. rVerdict r \<noteq> Accept \<Longrightarrow> pol \<noteq> Accept \<Longrightarrow> eval_rules holds rs pol k \<noteq> Accept"
  by (induction rs) auto

lemma forward_accepts_name_tunnel:
  assumes "r \<in> set (item_rules (nItems (forward_chain p st)))" "rVerdict r = Accept"
  shows "st = ForwardNormal" "names_iface (Tun p) r"
  using assms by (cases st; auto simp: forward_chain_def ruleset_rules names_iface_def split: if_splits)+

section \<open>Properties\<close>

text \<open>C5. The forward chain lets exactly this through: while traffic is not cut, an IPv4 packet in a valid state
  that either comes from the hotspot with an address of its subnet and leaves by the tunnel, or comes
  from the tunnel and goes to an address of the hotspot. Nothing from the hotspot leaves by the uplink or
  to a DNS-over-TLS or DNS-over-QUIC port, and with isolation nothing returns to the hotspot.\<close>

theorem forward_lets_through_exactly:
  assumes "nft_matching holds"
  shows "chain_verdict holds (forward_chain p st) k = Accept \<longleftrightarrow>
     st = ForwardNormal \<and> pkFamily k = Fam4 \<and> pkCt k \<noteq> CtInvalid \<and>
     \<not> (pkIif k = Hotspot p \<and>
        (pkOif k = Uplink p \<or> tcp_dport k 853 \<or> udp_dport k 853 \<or> (ClientIsolation (Opts p) \<and> pkOif k = Hotspot p))) \<and>
     ((pkIif k = Hotspot p \<and> pkOif k = Tun p \<and> Contains (HotspotSubnet p) (pkSrc k)) \<or>
      (pkIif k = Tun p \<and> pkOif k = Hotspot p \<and> Contains (HotspotSubnet p) (pkDst k)))"
  using assms by (rule nft_matching.forward_verdict)

theorem forward_lets_through_exactly_witness:
  "chain_verdict packet_matches (forward_chain sample_nft_plan ForwardNormal) (sample_client_packet ''xray0'' (Tcp 40000 443)) = Accept \<and>
   chain_verdict packet_matches (forward_chain sample_nft_plan ForwardNormal) (sample_client_packet ''eth0'' (Tcp 40000 443)) \<noteq> Accept"
proof -
  have "Contains (PrefixFrom (ip4 10 83 51 0) 24) (ip4 10 83 51 20)" by code_simp
  then show ?thesis
    unfolding forward_lets_through_exactly [OF manual.nft_matching_axioms]
    by (simp add: sample_nft_plan_def sample_client_packet_def new_plan_def DefaultOptions_def tcp_dport_def udp_dport_def)
qed

text \<open>C6. The block does not depend on the tunnel: with every rule that names the tunnel gone, as they stop
  matching when the device disappears, the forward chain accepts no packet at all, whatever its matches
  are taken to mean.\<close>

theorem fail_closed_without_tunnel:
  "eval_rules holds (filter (\<lambda>r. \<not> names_iface (Tun p) r) (item_rules (nItems (forward_chain p st))))
     (nPolicy (forward_chain p st)) k \<noteq> Accept"
proof (rule eval_rules_no_accept)
  show "\<forall>r \<in> set (filter (\<lambda>r. \<not> names_iface (Tun p) r) (item_rules (nItems (forward_chain p st)))). rVerdict r \<noteq> Accept"
    using forward_accepts_name_tunnel(2) by auto
qed (simp add: forward_chain_def)

text \<open>C19. Cutting client traffic changes the forward chain and nothing else: the other four chains, through
  which a joined device reaches the hotspot's services and the panel, are the same, and the forward
  chain of the cut ruleset accepts no packet, whatever its matches are taken to mean.\<close>

theorem cut_stops_forwarding_only:
  "(\<forall>holds k. chain_verdict holds (forward_chain p ForwardCut) k \<noteq> Accept) \<and>
   (\<exists>inp out pre post. ruleset_chains p ForwardCut = [inp, forward_chain p ForwardCut, out, pre, post] \<and>
      ruleset_chains p ForwardNormal = [inp, forward_chain p ForwardNormal, out, pre, post])"
proof -
  have "chain_verdict holds (forward_chain p ForwardCut) k \<noteq> Accept" for holds k
    unfolding chain_verdict_def
  proof (rule eval_rules_no_accept)
    show "\<forall>r \<in> set (item_rules (nItems (forward_chain p ForwardCut))). rVerdict r \<noteq> Accept"
      using forward_accepts_name_tunnel(1) [of _ p ForwardCut] by blast
  qed (simp add: forward_chain_def)
  then show ?thesis by (simp add: ruleset_chains_def)
qed

text \<open>C20. What a joined device gets from the box: its DNS queries are redirected to the box's own port, and of what
  it sends to the box only replies, DHCP, DNS, the panel and an IPv4 echo request are accepted; traffic
  from any other interface is not restricted unless its state is invalid; source addresses are
  translated towards the tunnel at most, never towards the uplink.\<close>

theorem hotspot_reaches_services_only:
  assumes "nft_matching holds" "Hotspot p \<noteq> ''lo''" "Hotspot p \<noteq> Tun p"
  shows "(pkIif k = Hotspot p \<longrightarrow>
      (chain_verdict holds (input_chain p) k = Accept \<longleftrightarrow>
         pkCt k \<noteq> CtInvalid \<and>
         (pkCt k \<in> {CtEstablished, CtRelated} \<or> udp_dport k 67 \<or> udp_dport k (DNSPort (Opts p)) \<or> tcp_dport k (DNSPort (Opts p)) \<or>
          tcp_dport k (PanelPort (Opts p)) \<or> (pkFamily k = Fam4 \<and> pkTransport k = Icmp ''echo-request'')))) \<and>
    (pkIif k \<noteq> Hotspot p \<longrightarrow> chain_verdict holds (input_chain p) k = Accept \<or> pkCt k = CtInvalid) \<and>
    (chain_verdict holds (prerouting_chain p) k =
       (if pkIif k = Hotspot p \<and> (udp_dport k 53 \<or> tcp_dport k 53) then RedirectTo (DNSPort (Opts p)) else Accept)) \<and>
    (chain_verdict holds (postrouting_chain p) k = Masquerade \<longrightarrow> pkOif k = Tun p)"
  using assms(2,3)
  by (auto simp: nft_matching.input_verdict [OF assms(1)] nft_matching.prerouting_verdict [OF assms(1)]
      nft_matching.postrouting_verdict [OF assms(1)])

theorem hotspot_reaches_services_only_witness:
  "chain_verdict packet_matches (input_chain sample_nft_plan) (sample_client_packet '''' (Tcp 40000 8088)) = Accept \<and>
   chain_verdict packet_matches (input_chain sample_nft_plan) (sample_client_packet '''' (Tcp 40000 22)) \<noteq> Accept"
proof -
  have "Hotspot sample_nft_plan \<noteq> ''lo''" "Hotspot sample_nft_plan \<noteq> Tun sample_nft_plan"
    by (simp_all add: sample_nft_plan_def new_plan_def DefaultOptions_def)
  note claim = hotspot_reaches_services_only [OF manual.nft_matching_axioms this]
  show ?thesis
    using claim [of "sample_client_packet '''' (Tcp 40000 8088)"] claim [of "sample_client_packet '''' (Tcp 40000 22)"]
    by (simp add: sample_nft_plan_def sample_client_packet_def new_plan_def DefaultOptions_def tcp_dport_def udp_dport_def)
qed

text \<open>C21. With restricted egress the box itself sends only this: replies, loopback, the tunnel, DHCP in both roles,
  NTP, DNS, packets to a server of the plan, and the IPv6 messages a link needs. A router advertisement
  never leaves by the hotspot under either policy, unless it belongs to an accepted connection.\<close>

theorem box_sends_only_what_is_named:
  assumes "nft_matching holds" "Hotspot p \<noteq> ''lo''" "Hotspot p \<noteq> Tun p"
  shows "(Egress (Opts p) = EgressRestricted \<longrightarrow>
      (chain_verdict holds (output_chain p) k = Accept \<longleftrightarrow>
       pkCt k \<in> {CtEstablished, CtRelated} \<or> pkOif k \<in> {''lo'', Tun p} \<or>
       (\<not> (pkOif k = Hotspot p \<and> pkTransport k = Icmp6 ''nd-router-advert'') \<and>
        (pkTransport k \<in> {Udp 68 67, Udp 67 68} \<or> udp_dport k 123 \<or> udp_dport k 53 \<or> tcp_dport k 53 \<or>
         (\<exists>sa \<in> set (ServerAddr p). pkDst k = sa \<and> pkFamily k = (if Is6 sa then Fam6 else Fam4)) \<or>
         (pkFamily k = Fam6 \<and> (\<exists>t \<in> {''nd-neighbor-solicit'', ''nd-neighbor-advert'', ''nd-router-solicit'',
            ''destination-unreachable'', ''packet-too-big'', ''time-exceeded'', ''parameter-problem''}. pkTransport k = Icmp6 t)))))) \<and>
    (pkOif k = Hotspot p \<and> pkTransport k = Icmp6 ''nd-router-advert'' \<and> pkCt k \<notin> {CtEstablished, CtRelated} \<longrightarrow>
      chain_verdict holds (output_chain p) k \<noteq> Accept)"
proof (cases "Egress (Opts p)")
  case EgressRestricted
  with assms(2,3) show ?thesis
    unfolding nft_matching.restricted_output_verdict [OF assms(1) EgressRestricted] by auto
next
  case EgressOpen
  with assms(2,3) show ?thesis
    by (simp add: nft_matching.open_output_verdict [OF assms(1) EgressOpen])
qed

theorem box_sends_only_what_is_named_witness:
  "chain_verdict packet_matches (output_chain sample_nft_plan)
     \<lparr>pkIif = '''', pkOif = ''eth0'', pkFamily = Fam4, pkCt = CtNew, pkSrc = ip4 192 168 1 20, pkDst = ip4 203 0 113 10,
      pkTransport = Udp 5000 443\<rparr> = Accept"
proof -
  have "Hotspot sample_nft_plan \<noteq> ''lo''" "Hotspot sample_nft_plan \<noteq> Tun sample_nft_plan"
    by (simp_all add: sample_nft_plan_def new_plan_def DefaultOptions_def)
  note claim = box_sends_only_what_is_named [OF manual.nft_matching_axioms this]
  have "\<not> Is6 (ip4 203 0 113 10)" by code_simp
  with claim [of "\<lparr>pkIif = '''', pkOif = ''eth0'', pkFamily = Fam4, pkCt = CtNew, pkSrc = ip4 192 168 1 20, pkDst = ip4 203 0 113 10,
      pkTransport = Udp 5000 443\<rparr>"]
  show ?thesis
    by (simp add: sample_nft_plan_def new_plan_def DefaultOptions_def)
qed

end
