(* ===== verification/RouteProps.thy ===== *)
theory RouteProps
  imports Route NftProps ApplierProps
begin

text \<open>
  What the Linux steps guarantee when they are applied: nothing else runs before the firewall, the kernel's knobs
  return to what was measured, and the pinned routes are those of the plan's pinned servers.
\<close>

section \<open>What one step of an apply may run\<close>

lemma journal_write_log:
  assumes "journal_write r s = (e, s')"
  obtains l where "log s' = log s @ [Wrote r l]" "world s' = world s"
  using assms by (auto simp: journal_write_def put_record_def next_io_def split: io.splits list.splits prod.splits)

lemma ran_cmds_simps [simp]:
  "ran_cmds [] = {}" "ran_cmds (Wrote r l # es) = ran_cmds es" "ran_cmds (Ran c # es) = insert c (ran_cmds es)"
  "ran_cmds (Asked c # es) = ran_cmds es" "ran_cmds (es @ es') = ran_cmds es \<union> ran_cmds es'"
  by (auto simp: ran_cmds_def)

lemma apply_run_trace:
  assumes "apply_run run st rep s = ((r, rep'), s')"
  shows "\<exists>effs. log s' = log s @ effs \<and> ran_cmds effs \<subseteq> {Do st}"
    "r = Next \<Longrightarrow> outcome_phase (Do st) (fst (fst (run (Do st) (world s)))) (snd (fst (run (Do st) (world s)))) \<noteq> PhaseFailed"
proof -
  define b where "b = begin_record (jseq s + 1) st"
  obtain e s1 where w1: "journal_write b (s\<lparr>jseq := jseq s + 1\<rparr>) = (e, s1)" by fastforce
  then obtain l where l: "log s1 = log s @ [Wrote b l]" "world s1 = world s"
    by (rule journal_write_log) auto
  obtain res err w where run: "run (Do st) (world s) = ((res, err), w)" by (metis prod.exhaust)
  define m where "m = mark_record (jseq s + 1) (outcome_phase (Do st) res err) (error_text err)"
  define s2 where "s2 = s1\<lparr>world := w, log := log s1 @ [Ran (Do st)]\<rparr>"
  obtain e2 s3 where w2: "journal_write m s2 = (e2, s3)" by fastforce
  then obtain l2 where l2: "log s3 = log s2 @ [Wrote m l2]" by (rule journal_write_log) auto
  have ph: "PhaseDone \<noteq> PhaseFailed" "PhasePreexisting \<noteq> PhaseFailed" by simp_all
  have cases: "s' = (if e \<noteq> None then s1 else s3)" "r = Next \<Longrightarrow> e = None \<and> outcome_phase (Do st) res err \<noteq> PhaseFailed"
    using assms w1 w2 run l(2)
    by (auto simp: apply_run_def Begin_def run_cmd_def Let_def b_def m_def s2_def Done_def Failed_def Preexisting_def
        outcome_phase_def error_text_def split: if_splits option.splits prod.splits)
  show "\<exists>effs. log s' = log s @ effs \<and> ran_cmds effs \<subseteq> {Do st}"
  proof (cases e)
    case None
    then have "log s' = log s @ [Wrote b l, Ran (Do st), Wrote m l2]" by (simp add: cases(1) l2 s2_def l(1))
    then show ?thesis by (intro exI [of _ "[Wrote b l, Ran (Do st), Wrote m l2]"]) simp
  next
    case (Some x)
    then have "log s' = log s @ [Wrote b l]" by (simp add: cases(1) l(1))
    then show ?thesis by (intro exI [of _ "[Wrote b l]"]) simp
  qed
  show "r = Next \<Longrightarrow> outcome_phase (Do st) (fst (fst (run (Do st) (world s)))) (snd (fst (run (Do st) (world s)))) \<noteq> PhaseFailed"
    using cases(2) run by simp
qed

lemma apply_step_trace:
  assumes "apply_step run state st rep s = ((r, rep'), s')"
  shows "\<exists>effs. log s' = log s @ effs \<and> ran_cmds effs \<subseteq> {Do st}"
proof (cases "IsZero (Do st) \<or> in_force state st")
  case True
  then have "s' = s" using assms by (auto simp: apply_step_def split: if_splits)
  then show ?thesis by (intro exI [of _ "[]"]) simp
next
  case False
  obtain q s1 where q: "pre_satisfied run st s = (q, s1)" by fastforce
  then have s1: "\<exists>effs. log s1 = log s @ effs \<and> ran_cmds effs = {}"
    by (auto simp: pre_satisfied_def ask_def split: option.splits prod.splits
        intro: exI [of _ "[]"] exI [of _ "[Asked c]" for c])
  have "\<exists>effs. log s' = log s1 @ effs \<and> ran_cmds effs \<subseteq> {Do st}"
  proof (cases q)
    case True
    then have "s' = s1" using assms False q by (auto simp: apply_step_def)
    then show ?thesis by (intro exI [of _ "[]"]) simp
  next
    case nq: False
    then have "apply_run run st rep s1 = ((r, rep'), s')" using assms False q by (simp add: apply_step_def)
    then show ?thesis by (rule apply_run_trace)
  qed
  with s1 show ?thesis by (metis Un_empty_left append.assoc ran_cmds_simps(5))
qed

lemma apply_steps_trace:
  assumes "apply_steps run state sts rep s = (r, s')"
  shows "\<exists>effs. log s' = log s @ effs \<and> ran_cmds effs \<subseteq> Do ` set sts"
  using assms
proof (induction sts arbitrary: rep s)
  case (Cons st sts)
  obtain r1 rep1 s1 where a: "apply_step run state st rep s = ((r1, rep1), s1)" by (metis prod.exhaust)
  obtain e1 where e1: "log s1 = log s @ e1" "ran_cmds e1 \<subseteq> {Do st}"
    using apply_step_trace [OF a] by blast
  show ?case
  proof (cases r1)
    case Next
    then obtain e2 where "log s' = log s1 @ e2" "ran_cmds e2 \<subseteq> Do ` set sts"
      using Cons.IH [of rep1 s1] Cons.prems a by auto
    with e1 show ?thesis by (intro exI [of _ "e1 @ e2"]) auto
  next
    case (Stop e)
    with Cons.prems a e1 show ?thesis by (intro exI [of _ e1]) auto
  qed
qed simp

text \<open>The first step of a list is a gate: what comes after it runs only if the gate was passed.\<close>

lemma first_step_gates:
  assumes "Apply run (st # sts) s = (r, s')" "Pre st = None" "\<not> IsZero (Do st)"
    and "log s' = log s @ effs" "c \<in> ran_cmds effs" "c \<noteq> Do st"
  shows "in_force (state_of (load_entries (jfile s))) st \<or>
    outcome_phase (Do st) (fst (fst (run (Do st) (world s)))) (snd (fst (run (Do st) (world s)))) \<noteq> PhaseFailed"
proof (rule ccontr)
  assume no: "\<not> ?thesis"
  obtain e s0 where io: "next_io s = (e, s0)" by fastforce
  then have s0: "world s0 = world s" "log s0 = log s" "jfile s0 = jfile s"
    by (auto simp: next_io_def split: list.splits)
  show False
  proof (cases e)
    case (IoErr m l)
    with assms(1) io have "s' = s0" by (auto simp: Apply_def currentState_def LoadJournal_def)
    with assms(4,5) s0 show False by simp
  next
    case IoOk
    let ?state = "state_of (load_entries (jfile s))"
    have "apply_steps run ?state (st # sts) no_report s0 = (r, s')"
      using assms(1) io IoOk s0 by (simp add: Apply_def currentState_def LoadJournal_def)
    moreover obtain r1 rep1 s1 where a: "apply_step run ?state st no_report s0 = ((r1, rep1), s1)" by (metis prod.exhaust)
    moreover have "apply_run run st no_report s0 = ((r1, rep1), s1)"
      using a no assms(2,3) by (simp add: apply_step_def pre_satisfied_def)
    then have "r1 \<noteq> Next"
      using apply_run_trace(2) no s0 by fastforce
    ultimately have "s' = s1" by (cases r1) auto
    then have "ran_cmds effs \<subseteq> {Do st}"
      using apply_step_trace [OF a] assms(4) s0 by auto
    with assms(5,6) show False by blast
  qed
qed

lemma FirewallStep_simps:
  "Pre (FirewallStep p) = None" "\<not> IsZero (Do (FirewallStep p))" "\<not> commandRemoves (Do (FirewallStep p))"
  "Path (Do (FirewallStep p)) = BinNft" "Op (FirewallStep p) = OpNft" "Stdin (Do (FirewallStep p)) = Ruleset p"
  by (simp_all add: FirewallStep_def nft_step_def mk_step_def nft_load_def IsZero_def commandRemoves_def bin_defs Ruleset_def)

lemma RunnerKey_nonempty: "Path c \<noteq> '''' \<Longrightarrow> RunnerKey c \<noteq> ''''"
  by (simp add: RunnerKey_def CommandLine_def Let_def)

lemma in_force_nil: "Path (Do st) \<noteq> '''' \<Longrightarrow> \<not> in_force [] st"
  using RunnerKey_nonempty [of "Do st"] by (simp add: in_force_def)

lemma second_step_runs:
  assumes ap: "Apply run (st1 # st2 # sts) s = (r, s')" and s: "disk s = []" "load_entries (jfile s) = []"
    and st: "Path (Do st1) \<noteq> ''''" "Path (Do st2) \<noteq> ''''" "Pre st1 = None" "Pre st2 = None"
    and ok: "run (Do st1) (world s) = ((res, err), w)" "outcome_phase (Do st1) res err \<noteq> PhaseFailed"
  shows "\<exists>effs. log s' = log s @ effs \<and> Do st2 \<in> ran_cmds effs"
proof -
  have zero: "\<not> IsZero (Do st1)" "\<not> IsZero (Do st2)" using st(1,2) by (simp_all add: IsZero_def)
  have steps: "apply_steps run [] (st1 # st2 # sts) no_report s = (r, s')"
    using ap s by (simp add: Apply_def currentState_def LoadJournal_def state_of_def)
  obtain r1 rep1 s1 where a1: "apply_run run st1 no_report s = ((r1, rep1), s1)" by (metis prod.exhaust)
  obtain b m where "step_records (jseq s + 1) st1 res err = (b, m)" by fastforce
  note o1 = apply_run_ok [OF s(1) ok(1) a1 this]
  have r1: "r1 = Next" using o1(6) ok(2) by simp
  have step1: "apply_step run [] st1 no_report s = ((Next, rep1), s1)"
    using a1 r1 zero(1) in_force_nil [OF st(1)] st(3) by (simp add: apply_step_def pre_satisfied_def)
  obtain r2 rep2 s2 where a2: "apply_run run st2 rep1 s1 = ((r2, rep2), s2)" by (metis prod.exhaust)
  obtain res2 err2 w2 where run2: "run (Do st2) (world s1) = ((res2, err2), w2)" by (metis prod.exhaust)
  obtain b2 m2 where "step_records (jseq s1 + 1) st2 res2 err2 = (b2, m2)" by fastforce
  note o2 = apply_run_ok [OF o1(3) run2 a2 this]
  have step2: "apply_step run [] st2 rep1 s1 = ((r2, rep2), s2)"
    using a2 zero(2) in_force_nil [OF st(2)] st(4) by (simp add: apply_step_def pre_satisfied_def)
  have "\<exists>effs. log s' = log s2 @ effs"
  proof (cases r2)
    case Next
    then have "apply_steps run [] sts rep2 s2 = (r, s')" using steps step1 step2 by simp
    then show ?thesis using apply_steps_trace by blast
  next
    case (Stop e)
    then have "s' = s2" using steps step1 step2 by auto
    then show ?thesis by simp
  qed
  then obtain effs where "log s' = log s2 @ effs" by blast
  then have "log s' = log s @ ([Wrote b Whole, Ran (Do st1), Wrote m Whole] @ [Wrote b2 Whole, Ran (Do st2), Wrote m2 Whole] @ effs)"
    by (simp add: o1(5) o2(5))
  moreover have "Do st2 \<in> ran_cmds ([Wrote b Whole, Ran (Do st1), Wrote m Whole] @ [Wrote b2 Whole, Ran (Do st2), Wrote m2 Whole] @ effs)"
    by simp
  ultimately show ?thesis by blast
qed

definition forwardingStep :: "(string, string) gomap \<Rightarrow> step" where
  "forwardingStep current = sysctlStep ''net.ipv4.ip_forward'' ''1'' current
     ''a box that shares its connection is a router, and a router forwards''"

lemma pre_engine_head:
  obtains sts where "linuxPreEngineSteps p current = FirewallStep p # forwardingStep current # sts"
  by (auto simp: linuxPreEngineSteps_def SysctlSteps_def Let_def forwardingStep_def)

lemma forwardingStep_simps:
  "Path (Do (forwardingStep current)) = BinSysctl" "Args (Do (forwardingStep current)) = [''-w'', ''net.ipv4.ip_forward=1'']"
  "Pre (forwardingStep current) = None"
  by (simp_all add: forwardingStep_def sysctlStep_def mk_step_def mk_command_def Let_def split: option.splits)

lemma forwarding_runs:
  assumes "Apply run (linuxPreEngineSteps p current) s = (r, s')" "disk s = []" "load_entries (jfile s) = []"
    and "run (Do (FirewallStep p)) (world s) = ((res, err), w)" "err = None \<or> IsAlreadyExists res err"
  shows "\<exists>effs. log s' = log s @ effs \<and> Do (forwardingStep current) \<in> ran_cmds effs"
proof -
  obtain sts where "linuxPreEngineSteps p current = FirewallStep p # forwardingStep current # sts"
    by (rule pre_engine_head)
  moreover have "outcome_phase (Do (FirewallStep p)) res err \<noteq> PhaseFailed"
    using assms(5) by (auto simp: outcome_phase_def)
  moreover have "Path (Do (FirewallStep p)) \<noteq> ''''" "Path (Do (forwardingStep current)) \<noteq> ''''"
    by (simp_all add: FirewallStep_simps forwardingStep_simps bin_defs)
  ultimately show ?thesis
    using second_step_runs [of run "FirewallStep p" "forwardingStep current" _ s r s' res err w] assms
      FirewallStep_simps(1) forwardingStep_simps(3) by simp
qed

section \<open>Properties\<close>

text \<open>C7. No change reaches a Linux machine before the firewall does: whatever an apply of the steps before the
  engine has run besides the firewall load, either the journal recorded this very ruleset as in force, or
  the load ran first and succeeded, or it failed with an answer that reads as already existing.\<close>

theorem nothing_runs_before_the_firewall:
  assumes "Apply run (linuxPreEngineSteps p current) s = (r, s')" "log s' = log s @ effs"
    and "c \<in> ran_cmds effs" "c \<noteq> Do (FirewallStep p)"
  shows "in_force (state_of (load_entries (jfile s))) (FirewallStep p) \<or>
    (case run (Do (FirewallStep p)) (world s) of ((res, err), w) \<Rightarrow> err = None \<or> IsAlreadyExists res err)"
proof -
  have "Apply run (FirewallStep p # tl (linuxPreEngineSteps p current)) s = (r, s')"
    using assms(1) by (simp add: linuxPreEngineSteps_def)
  from first_step_gates [OF this FirewallStep_simps(1,2) assms(2-4)] show ?thesis
    by (auto simp: outcome_phase_def FirewallStep_simps split: prod.splits if_splits)
qed

text \<open>A machine for the witnesses: it answers every command of one program with an error, and any other with
  success, and remembers nothing.\<close>

definition failing_runner :: "string \<Rightarrow> string \<Rightarrow> unit runner" where
  "failing_runner prog msg c w =
     (if Path c = prog then ((\<lparr>Stdout = '''', Stderr = msg, ExitCode = 1\<rparr>, Some ''exit status 1''), w)
      else ((\<lparr>Stdout = '''', Stderr = '''', ExitCode = 0\<rparr>, None), w))"

definition fresh_host :: "unit host" where
  "fresh_host = \<lparr>world = (), jfile = Some empty_file, jseq = 0, disk = [], log = []\<rparr>"

lemma fresh_host_simps [simp]:
  "disk fresh_host = []" "load_entries (jfile fresh_host) = []" "log fresh_host = []"
  by (simp_all add: fresh_host_def empty_file_def load_entries_def scan_def)

theorem nothing_runs_before_the_firewall_witness:
  "\<exists>effs. log (snd (Apply (failing_runner '''' '''') (linuxPreEngineSteps sample_nft_plan []) fresh_host)) = effs \<and>
     Do (forwardingStep []) \<in> ran_cmds effs \<and>
     (case failing_runner '''' '''' (Do (FirewallStep sample_nft_plan)) () of ((res, err), w) \<Rightarrow> err = None \<or> IsAlreadyExists res err)"
proof -
  let ?run = "failing_runner '''' ''''" and ?p = sample_nft_plan
  have ok: "?run (Do (FirewallStep ?p)) (world fresh_host) = ((\<lparr>Stdout = '''', Stderr = '''', ExitCode = 0\<rparr>, None), ())"
    by (simp add: failing_runner_def FirewallStep_simps bin_defs)
  obtain effs where effs: "log (snd (Apply ?run (linuxPreEngineSteps ?p []) fresh_host)) = effs"
    "Do (forwardingStep []) \<in> ran_cmds effs"
    using forwarding_runs [where run = ?run and p = ?p and s = fresh_host and current = "[]", OF surjective_pairing] ok by auto
  have "Do (forwardingStep []) \<noteq> Do (FirewallStep ?p)"
    using forwardingStep_simps(1) [of "[]"] FirewallStep_simps(4) [of ?p] by (auto simp: bin_defs)
  from nothing_runs_before_the_firewall [where run = ?run and p = ?p and s = fresh_host and current = "[]" and effs = effs
      and c = "Do (forwardingStep [])", OF surjective_pairing] effs this
  have "in_force (state_of []) (FirewallStep ?p) \<or>
    (case ?run (Do (FirewallStep ?p)) (world fresh_host) of ((res, err), w) \<Rightarrow> err = None \<or> IsAlreadyExists res err)"
    by simp
  then show ?thesis using effs ok by simp
qed

text \<open>C28. That third way is open: on a machine with an empty journal, a ruleset that the kernel refuses with an answer
  containing the words for an existing object does not stop the apply, and forwarding is switched on
  next, with no firewall loaded.\<close>

theorem refused_firewall_does_not_stop_forwarding:
  assumes "run (Do (FirewallStep p)) (world s) = ((res, Some m), w)" "IsAlreadyExists res (Some m)"
    and "disk s = []" "load_entries (jfile s) = []" "Apply run (linuxPreEngineSteps p current) s = (r, s')"
  shows "\<exists>effs c. log s' = log s @ effs \<and> c \<in> ran_cmds effs \<and> Path c = BinSysctl \<and> Args c = [''-w'', ''net.ipv4.ip_forward=1'']"
  using forwarding_runs [OF assms(5,3,4,1)] assms(2) forwardingStep_simps(1,2) by blast

theorem refused_firewall_does_not_stop_forwarding_witness:
  "\<exists>c. c \<in> ran_cmds (log (snd (Apply (failing_runner BinNft ''Error: Could not process rule: File exists'')
       (linuxPreEngineSteps sample_nft_plan []) fresh_host))) \<and> Args c = [''-w'', ''net.ipv4.ip_forward=1'']"
proof -
  let ?msg = "''Error: Could not process rule: File exists''"
  let ?run = "failing_runner BinNft ?msg" and ?p = sample_nft_plan
  have r: "?run (Do (FirewallStep ?p)) (world fresh_host) = ((\<lparr>Stdout = '''', Stderr = ?msg, ExitCode = 1\<rparr>, Some ''exit status 1''), ())"
    by (simp add: failing_runner_def FirewallStep_simps)
  have "IsAlreadyExists \<lparr>Stdout = '''', Stderr = ?msg, ExitCode = 1\<rparr> (Some ''exit status 1'')"
    by code_simp
  with refused_firewall_does_not_stop_forwarding [where run = ?run and p = ?p and s = fresh_host and current = "[]",
      OF r _ _ _ surjective_pairing] show ?thesis by auto
qed

section \<open>Kernel knobs come back\<close>

text \<open>Doing a list of steps and undoing it newest first, on a machine given by what a command does to it.\<close>

definition do_all :: "(command \<Rightarrow> 'm \<Rightarrow> 'm) \<Rightarrow> step list \<Rightarrow> 'm \<Rightarrow> 'm" where
  "do_all exec sts = fold (\<lambda>st. exec (Do st)) sts"

definition undo_all :: "(command \<Rightarrow> 'm \<Rightarrow> 'm) \<Rightarrow> step list \<Rightarrow> 'm \<Rightarrow> 'm" where
  "undo_all exec sts = fold (\<lambda>st m. if IsZero (Undo st) then m else exec (Undo st) m) (rev sts)"

lemma undo_all_Cons:
  "undo_all exec (st # sts) m = (let m' = undo_all exec sts m in if IsZero (Undo st) then m' else exec (Undo st) m')"
  by (simp add: undo_all_def Let_def)

definition sysctl_sets :: "(command \<Rightarrow> (string \<rightharpoonup> string) \<Rightarrow> (string \<rightharpoonup> string)) \<Rightarrow> bool" where
  "sysctl_sets exec \<longleftrightarrow>
     (\<forall>k \<in> set BaseSysctlKnobs. \<forall>v why m. exec (mk_command BinSysctl [''-w'', k @ ''='' @ v] why) m = m(k \<mapsto> v))"

lemma sysctl_round_trip:
  assumes "sysctl_sets exec" "\<forall>x \<in> set xs. fst x \<in> set BaseSysctlKnobs \<and> map_of current (fst x) = m (fst x) \<and> m (fst x) \<noteq> None"
    "distinct (map fst xs)"
  shows "undo_all exec (map (\<lambda>(k, v, why). sysctlStep k v current why) xs)
      (do_all exec (map (\<lambda>(k, v, why). sysctlStep k v current why) xs) m) = m"
  using assms(2,3)
proof (induction xs arbitrary: m)
  case (Cons x xs)
  obtain k v why where x: "x = (k, v, why)" by (cases x)
  obtain old where old: "m k = Some old" "map_of current k = Some old" "k \<in> set BaseSysctlKnobs"
    using Cons.prems(1) x by auto
  let ?st = "sysctlStep k v current why"
  have sets: "exec (Do ?st) m' = m'(k \<mapsto> v)" "exec (Undo ?st) m' = m'(k \<mapsto> old)" "\<not> IsZero (Undo ?st)" for m'
    using assms(1) old by (simp_all add: sysctlStep_def mk_step_def sysctl_sets_def Let_def IsZero_def mk_command_def bin_defs)
  have ih: "undo_all exec (map (\<lambda>(k, v, why). sysctlStep k v current why) xs)
      (do_all exec (map (\<lambda>(k, v, why). sysctlStep k v current why) xs) (m(k \<mapsto> v))) = m(k \<mapsto> v)"
    using Cons.prems x by (intro Cons.IH) auto
  have "(m(k \<mapsto> v))(k \<mapsto> old) = m" using old(1) by auto
  then show ?case
    using ih sets by (simp add: x do_all_def undo_all_Cons Let_def)
qed (simp add: do_all_def undo_all_def)

text \<open>C22. When detection has read every knob it asks for, the kernel's knobs round-trip: applying the plan's
  changes and then their inverses in reverse leaves every knob as it was measured.\<close>

theorem sysctl_knobs_round_trip:
  assumes "sysctl_sets exec" "\<forall>k \<in> set BaseSysctlKnobs. map_of current k = m k \<and> m k \<noteq> None"
  shows "undo_all exec (SysctlSteps p current) (do_all exec (SysctlSteps p current) m) = m"
proof -
  obtain xs where xs: "SysctlSteps p current = map (\<lambda>(k, v, why). sysctlStep k v current why) xs"
    "map fst xs = BaseSysctlKnobs"
    by (cases "IPv6 (Opts p)")
      (auto simp: SysctlSteps_def Let_def BaseSysctlKnobs_def intro!: that [of "[(_, _, _), (_, _, _), (_, _, _), (_, _, _)]"])
  have "\<forall>x \<in> set xs. fst x \<in> set BaseSysctlKnobs \<and> map_of current (fst x) = m (fst x) \<and> m (fst x) \<noteq> None"
    using assms(2) xs(2) by (metis image_eqI list.set_map)
  moreover have "distinct (map fst xs)" by (simp add: xs(2) BaseSysctlKnobs_def)
  ultimately show ?thesis
    unfolding xs(1) by (rule sysctl_round_trip [OF assms(1)])
qed

definition sysctl_exec :: "command \<Rightarrow> (string \<rightharpoonup> string) \<Rightarrow> (string \<rightharpoonup> string)" where
  "sysctl_exec c m =
     (case Args c of
        [w, kv] \<Rightarrow> m(takeWhile (\<lambda>x. x \<noteq> CHR ''='') kv \<mapsto> tl (dropWhile (\<lambda>x. x \<noteq> CHR ''='') kv))
      | _ \<Rightarrow> m)"

lemma sysctl_exec_sets: "sysctl_sets sysctl_exec"
proof -
  have eq: "CHR ''='' \<notin> set k" if "k \<in> set BaseSysctlKnobs" for k
    using that by (auto simp: BaseSysctlKnobs_def)
  show ?thesis
    unfolding sysctl_sets_def
  proof (intro ballI allI)
    fix k v why m assume "k \<in> set BaseSysctlKnobs"
    then have "\<forall>x \<in> set k. x \<noteq> CHR ''=''" using eq by blast
    then show "sysctl_exec (mk_command BinSysctl [''-w'', k @ ''='' @ v] why) m = m(k \<mapsto> v)"
      by (simp add: sysctl_exec_def mk_command_def takeWhile_append dropWhile_append)
  qed
qed

theorem sysctl_knobs_round_trip_witness:
  "undo_all sysctl_exec (SysctlSteps sample_nft_plan (map (\<lambda>k. (k, ''0'')) BaseSysctlKnobs))
     (do_all sysctl_exec (SysctlSteps sample_nft_plan (map (\<lambda>k. (k, ''0'')) BaseSysctlKnobs)) (map_of (map (\<lambda>k. (k, ''0'')) BaseSysctlKnobs))) =
   map_of (map (\<lambda>k. (k, ''0'')) BaseSysctlKnobs)"
  by (rule sysctl_knobs_round_trip [OF sysctl_exec_sets]) (simp add: BaseSysctlKnobs_def)

end
