(* ===== verification/SimProps.thy ===== *)
theory SimProps
  imports SimKernel Reversal RouteProps
begin

text \<open>
  Applying the Linux plan to the simulated kernel and tearing it down again. The view of the kernel is what its
  \<open>Snapshot\<close> shows; every generated step is shown to revert on it, so that the laws of \<open>reversible_steps\<close>
  give the round trip of the whole machine.
\<close>

section \<open>The view\<close>

record machine =
  mAddrs :: "(string \<times> string) set"
  mRoutes :: "(string \<times> string) set"
  mRules :: "sim_rule list"
  mSysctl :: "(string, string) gomap"
  mIfaces :: "string list"
  mUnmanaged :: "string list"
  mIftype :: "(string, string) gomap"
  mRefuseSetType :: string
  mRefuseIfaceAdd :: string

text \<open>The flag of the interface the plan creates goes with that interface and is left out.\<close>

definition unmanaged_view :: "plan \<Rightarrow> string list \<Rightarrow> string list" where
  "unmanaged_view p xs = (if HotspotIsVirtual p then removeAll (Hotspot p) xs else xs)"

definition machine_view :: "plan \<Rightarrow> sim_kernel \<Rightarrow> machine" where
  "machine_view p k = \<lparr>mAddrs = set (kAddrs k), mRoutes = set (kRoutes k), mRules = kRules k, mSysctl = kSysctl k,
     mIfaces = kIfaces k, mUnmanaged = unmanaged_view p (kUnmanaged k), mIftype = kIftype k,
     mRefuseSetType = RefuseSetType k, mRefuseIfaceAdd = RefuseIfaceAdd k\<rparr>"

lemma machine_view_eq_iff:
  "machine_view p k1 = machine_view p k2 \<longleftrightarrow>
     set (kAddrs k1) = set (kAddrs k2) \<and> set (kRoutes k1) = set (kRoutes k2) \<and> kRules k1 = kRules k2 \<and>
     kSysctl k1 = kSysctl k2 \<and> kIfaces k1 = kIfaces k2 \<and> unmanaged_view p (kUnmanaged k1) = unmanaged_view p (kUnmanaged k2) \<and>
     kIftype k1 = kIftype k2 \<and> RefuseSetType k1 = RefuseSetType k2 \<and> RefuseIfaceAdd k1 = RefuseIfaceAdd k2"
  by (simp add: machine_view_def)

lemma machine_view_sel:
  "mAddrs (machine_view p k) = set (kAddrs k)" "mRoutes (machine_view p k) = set (kRoutes k)"
  "mRules (machine_view p k) = kRules k" "mSysctl (machine_view p k) = kSysctl k"
  "mIfaces (machine_view p k) = kIfaces k" "mUnmanaged (machine_view p k) = unmanaged_view p (kUnmanaged k)"
  "mIftype (machine_view p k) = kIftype k"
  by (simp_all add: machine_view_def)

lemma unmanaged_view_flag:
  "unmanaged_view p (set_flag n b xs) =
     (if HotspotIsVirtual p \<and> n = Hotspot p then unmanaged_view p xs else set_flag n b (unmanaged_view p xs))"
  by (auto simp: unmanaged_view_def set_flag_def set_true_def removeAll_filter_not_eq filter_filter conj_commute)

lemma unmanaged_view_remove:
  "unmanaged_view p (removeAll n xs) = removeAll n (unmanaged_view p xs)"
  by (auto simp: unmanaged_view_def removeAll_filter_not_eq filter_filter conj_commute)

section \<open>Every command acts on the view alone\<close>

lemma iw_add_simps [simp]:
  "kAddrs (iw_add ord a k) = kAddrs k" "kRoutes (iw_add ord a k) = kRoutes k" "kRules (iw_add ord a k) = kRules k"
  "kSysctl (iw_add ord a k) = kSysctl k" "kIfaces (iw_add ord a k) = kIfaces k @ [a ! 4]"
  "kUnmanaged (iw_add ord a k) = kUnmanaged k" "kIftype (iw_add ord a k) = AList.update (a ! 4) (a ! 6) (kIftype k)"
  "RefuseSetType (iw_add ord a k) = RefuseSetType k" "RefuseIfaceAdd (iw_add ord a k) = RefuseIfaceAdd k"
  by (simp_all add: iw_add_def Let_def split: option.splits)

lemmas answer_defs = sim_ok_def sim_says_def simFail_def

lemma sim_defer_snd [simp]: "snd (sim_defer c k) = k"
  by (simp add: sim_defer_def sim_ok_def split: option.splits)

lemma runNft_view: "machine_view p (snd (runNft c k)) = machine_view p k"
  by (simp add: runNft_def answer_defs machine_view_def Let_def)

lemma runSysctl_view:
  "machine_view p k1 = machine_view p k2 \<Longrightarrow> machine_view p (snd (runSysctl c k1)) = machine_view p (snd (runSysctl c k2))"
  by (simp add: runSysctl_def answer_defs machine_view_eq_iff Let_def)

lemma runNmcli_view:
  "machine_view p k1 = machine_view p k2 \<Longrightarrow> machine_view p (snd (runNmcli c k1)) = machine_view p (snd (runNmcli c k2))"
  by (simp add: runNmcli_def answer_defs machine_view_eq_iff Let_def unmanaged_view_flag)

lemma runIw_view:
  "machine_view p k1 = machine_view p k2 \<Longrightarrow> machine_view p (snd (runIw ord c k1)) = machine_view p (snd (runIw ord c k2))"
  by (simp add: runIw_def answer_defs machine_view_eq_iff Let_def iw_del_def unmanaged_view_remove)

lemma runLinkUp_view: "machine_view p (snd (runLinkUp n k)) = machine_view p k"
  by (simp add: runLinkUp_def answer_defs machine_view_def)

lemma runLinkShowDev_snd: "snd (runLinkShowDev n k) = k"
  by (simp add: runLinkShowDev_def answer_defs Let_def)

lemma runIPAddr_view:
  "machine_view p k1 = machine_view p k2 \<Longrightarrow> machine_view p (snd (runIPAddr a k1)) = machine_view p (snd (runIPAddr a k2))"
  by (simp add: runIPAddr_def answer_defs machine_view_eq_iff Let_def)

lemma runIPRoute_view:
  "machine_view p k1 = machine_view p k2 \<Longrightarrow> machine_view p (snd (runIPRoute f a k1)) = machine_view p (snd (runIPRoute f a k2))"
  by (simp add: runIPRoute_def answer_defs machine_view_eq_iff Let_def)

lemma runIPRule_view:
  "machine_view p k1 = machine_view p k2 \<Longrightarrow> machine_view p (snd (runIPRule a k1)) = machine_view p (snd (runIPRule a k2))"
  by (simp add: runIPRule_def answer_defs machine_view_eq_iff Let_def)

lemma runIP_view:
  assumes "machine_view p k1 = machine_view p k2"
  shows "machine_view p (snd (runIP c k1)) = machine_view p (snd (runIP c k2))"
  using assms
  by (cases "strip_flags '''' (Args c)")
    (simp add: runIP_def Let_def runLinkUp_view runLinkShowDev_snd sim_ok_def runIPAddr_view [OF assms]
      runIPRoute_view [OF assms] runIPRule_view [OF assms])

lemma kernel_run_view:
  assumes "machine_view p k1 = machine_view p k2"
  shows "machine_view p (after (kernel_run ord) c k1) = machine_view p (after (kernel_run ord) c k2)"
proof -
  have v: "machine_view p (k1\<lparr>kCmds := xs\<rparr>) = machine_view p (k2\<lparr>kCmds := ys\<rparr>)" for xs ys
    using assms by (simp add: machine_view_def)
  note views = runNft_view runSysctl_view [OF v] runNmcli_view [OF v] runIw_view [OF v] runIP_view [OF v]
  have "machine_view p (snd (runSysctl c (k1\<lparr>kCmds := xs\<rparr>))) = machine_view p (snd (runSysctl c (k2\<lparr>kCmds := ys\<rparr>)))"
    "machine_view p (snd (runNmcli c (k1\<lparr>kCmds := xs\<rparr>))) = machine_view p (snd (runNmcli c (k2\<lparr>kCmds := ys\<rparr>)))"
    "machine_view p (snd (runIw ord c (k1\<lparr>kCmds := xs\<rparr>))) = machine_view p (snd (runIw ord c (k2\<lparr>kCmds := ys\<rparr>)))"
    "machine_view p (snd (runIP c (k1\<lparr>kCmds := xs\<rparr>))) = machine_view p (snd (runIP c (k2\<lparr>kCmds := ys\<rparr>)))" for xs ys
    by (rule views)+
  with v assms show ?thesis
    by (cases "ValidateCommand c") (simp_all add: after_def kernel_run_def Let_def runNft_view)
qed

section \<open>The shapes of the generated steps\<close>

abbreviation nul_free :: "string \<Rightarrow> bool" where
  "nul_free s \<equiv> CHR 0x00 \<notin> set s"

inductive fits_kernel :: "plan \<Rightarrow> step \<Rightarrow> machine \<Rightarrow> bool" for p where
  nft: "fits_kernel p (mk_step OpNft why (nft_load t1 w1) (nft_load t2 w2)) v"
| sysctl: "map_of (mSysctl v) knob = Some prev \<Longrightarrow> CHR ''='' \<notin> set knob \<Longrightarrow> nul_free prev \<Longrightarrow>
    fits_kernel p (mk_step OpSysctl why (mk_command BinSysctl [''-w'', knob @ ''='' @ val] w1)
      (mk_command BinSysctl [''-w'', knob @ ''='' @ prev] w2)) v"
| create: "HotspotIsVirtual p \<Longrightarrow> Hotspot p \<notin> set (mIfaces v) \<Longrightarrow> Hotspot p \<notin> fst ` set (mIftype v) \<Longrightarrow>
    fits_kernel p ((mk_step OpCreateIface why (mk_command BinIw [''phy'', phy, ''interface'', ''add'', Hotspot p, ''type'', ''__ap''] w1)
      (mk_command BinIw [''dev'', Hotspot p, ''del''] w2))\<lparr>Pre := Some (ifacePresent (Hotspot p))\<rparr>) v"
| release_created: "HotspotIsVirtual p \<Longrightarrow>
    fits_kernel p (mk_step OpLink why (mk_command BinNmcli [''device'', ''set'', Hotspot p, ''managed'', ''no''] w1) zero_command) v"
| release: "\<not> HotspotIsVirtual p \<Longrightarrow> d \<notin> set (mUnmanaged v) \<Longrightarrow>
    fits_kernel p (mk_step OpLink why (mk_command BinNmcli [''device'', ''set'', d, ''managed'', ''no''] w1)
      (mk_command BinNmcli [''device'', ''set'', d, ''managed'', ''yes''] w2)) v"
| strip: "fits_kernel p (mk_step OpAddr why (ipCmd w1 [''address'', ''del'', x, ''dev'', d]) (ipCmd w2 [''address'', ''add'', x, ''dev'', d])) v"
| down: "fits_kernel p (mk_step OpLink why (ipCmd w1 [''link'', ''set'', ''dev'', d, ''down'']) (ipCmd w2 [''link'', ''set'', ''dev'', d, ''up''])) v"
| retype: "\<not> HotspotIsVirtual p \<Longrightarrow> map_of (mIftype v) d = Some ''managed'' \<Longrightarrow>
    fits_kernel p (mk_step OpCreateIface why (mk_command BinIw [''dev'', d, ''set'', ''type'', t] w1)
      (mk_command BinIw [''dev'', d, ''set'', ''type'', ''managed''] w2)) v"
| up: "fits_kernel p (mk_step OpLink why (ipCmd w1 [''link'', ''set'', ''dev'', d, ''up'']) zero_command) v"
| addr: "fits_kernel p (mk_step OpAddr why (ipCmd w1 [''address'', ''add'', x, ''dev'', d]) (ipCmd w2 [''address'', ''del'', x, ''dev'', d])) v"
| route: "fl \<in> {[], [''-6'']} \<Longrightarrow> argAfter (x # r1) ''table'' = argAfter (x # r2) ''table'' \<Longrightarrow> list_all nul_free r1 = list_all nul_free r2 \<Longrightarrow>
    fits_kernel p (mk_step OpRoute why (ipCmd w1 (fl @ ''route'' # ''add'' # x # r1)) (ipCmd w2 (fl @ ''route'' # ''del'' # x # r2))) v"
| rule: "argAfter r ''priority'' \<noteq> '''' \<Longrightarrow>
    fits_kernel p (mk_step OpRule why (ipCmd w1 (''rule'' # ''add'' # r)) (ipCmd w2 (''rule'' # ''del'' # r))) v"

definition step_target :: "step \<Rightarrow> string option" where
  "step_target st =
     (if Path (Do st) = BinSysctl then Some (takeWhile (\<lambda>x. x \<noteq> CHR ''='') (Args (Do st) ! 1))
      else if Path (Do st) = BinIw \<or> Path (Do st) = BinNmcli then Some (Path (Do st))
      else None)"

definition steps_clash :: "step \<Rightarrow> step \<Rightarrow> bool" where
  "steps_clash a b \<longleftrightarrow> step_target a \<noteq> None \<and> step_target a = step_target b"

section \<open>Every shape reverts\<close>

lemma nul_argument_None: "nul_argument i as = None \<longleftrightarrow> (\<forall>a \<in> set as. nul_free a)"
  by (induction as arbitrary: i) auto

lemma ValidateCommand_mk:
  "ValidateCommand (mk_command path args why) = None \<longleftrightarrow> path \<in> set allowedBinaries \<and> (\<forall>a \<in> set args. nul_free a)"
  by (auto simp: ValidateCommand_def validate_with_def mk_command_def IsZero_def nul_argument_None allowedBinaries_def bin_defs)

lemma kernel_invalid: "ValidateCommand c \<noteq> None \<Longrightarrow> after (kernel_run ord) c k = k"
  by (auto simp: after_def kernel_run_def)

lemma kernel_valid:
  assumes "ValidateCommand c = None"
  shows "kernel_run ord c k =
     (let k = k\<lparr>kCmds := kCmds k @ [c]\<rparr>
      in if Path c = BinNft then runNft c k
         else if Path c = BinSysctl then runSysctl c k
         else if Path c = BinNmcli then runNmcli c k
         else if Path c = BinIw then runIw ord c k
         else if Path c = BinIP then runIP c k
         else ((no_result, Some (''netcfg: SimulatedKernel does not model '' @ go_quote (Path c))), k))"
  using assms by (simp add: kernel_run_def)

lemma mk_command_simps [simp]:
  "Path (mk_command path args why) = path" "Args (mk_command path args why) = args"
  by (simp_all add: mk_command_def)

lemma mk_step_simps [simp]:
  "Op (mk_step op why d u) = op" "Do (mk_step op why d u) = d" "Undo (mk_step op why d u) = u" "Pre (mk_step op why d u) = None"
  by (simp_all add: mk_step_def)

lemma bins_differ [simp]:
  "BinNft \<noteq> BinSysctl" "BinNft \<noteq> BinNmcli" "BinNft \<noteq> BinIw" "BinNft \<noteq> BinIP" "BinSysctl \<noteq> BinNmcli" "BinSysctl \<noteq> BinIw"
  "BinSysctl \<noteq> BinIP" "BinNmcli \<noteq> BinIw" "BinNmcli \<noteq> BinIP" "BinIw \<noteq> BinIP" "BinSysctl \<noteq> BinNft" "BinNmcli \<noteq> BinNft"
  "BinIw \<noteq> BinNft" "BinIP \<noteq> BinNft" "BinNmcli \<noteq> BinSysctl" "BinIw \<noteq> BinSysctl" "BinIP \<noteq> BinSysctl" "BinIw \<noteq> BinNmcli"
  "BinIP \<noteq> BinNmcli" "BinIP \<noteq> BinIw"
  by (simp_all add: bin_defs)

lemma bins_allowed [simp]: "BinNft \<in> set allowedBinaries" "BinSysctl \<in> set allowedBinaries" "BinNmcli \<in> set allowedBinaries"
  "BinIw \<in> set allowedBinaries" "BinIP \<in> set allowedBinaries"
  by (simp_all add: allowedBinaries_def)

lemma nul_free_const [simp]: "nul_free ''-w''" "nul_free ''=''"
  by simp_all

lemma nft_neutral: "neutral (kernel_run ord) (machine_view p) (nft_load t why)"
  unfolding neutral_def
proof
  fix k
  show "machine_view p (after (kernel_run ord) (nft_load t why) k) = machine_view p k"
  proof (cases "ValidateCommand (nft_load t why)")
    case None
    have "machine_view p (k\<lparr>kCmds := xs\<rparr>) = machine_view p k" for xs by (simp add: machine_view_def)
    with None show ?thesis by (simp add: after_def kernel_valid runNft_view Let_def nft_load_def)
  qed (simp add: kernel_invalid)
qed

lemma nft_reverts: "reverts (kernel_run ord) (machine_view p) (mk_step op why (nft_load t1 w1) (nft_load t2 w2)) k"
  using nft_neutral by (simp add: reverts_def neutral_def)

lemma cut_setting:
  assumes "CHR ''='' \<notin> set knob"
  shows "takeWhile (\<lambda>x. x \<noteq> CHR ''='') (knob @ ''='' @ v) = knob" "tl (dropWhile (\<lambda>x. x \<noteq> CHR ''='') (knob @ ''='' @ v)) = v"
proof -
  have "\<forall>x \<in> set knob. x \<noteq> CHR ''=''" using assms by blast
  then show "takeWhile (\<lambda>x. x \<noteq> CHR ''='') (knob @ ''='' @ v) = knob" "tl (dropWhile (\<lambda>x. x \<noteq> CHR ''='') (knob @ ''='' @ v)) = v"
    by (simp_all add: takeWhile_append dropWhile_append)
qed

lemma update_same: "map_of m k = Some v \<Longrightarrow> AList.update k v m = m"
  by (induction m) (auto split: if_splits)

lemma update_twice: "AList.update k v (AList.update k u m) = AList.update k v m"
  by (induction m) auto

lemma sysctl_after:
  assumes "CHR ''='' \<notin> set knob" "nul_free knob" "nul_free v"
  shows "kernel_run ord (mk_command BinSysctl [''-w'', knob @ ''='' @ v] why) k =
    sim_ok (k\<lparr>kCmds := kCmds k @ [mk_command BinSysctl [''-w'', knob @ ''='' @ v] why], kSysctl := AList.update knob v (kSysctl k)\<rparr>)"
proof -
  have "ValidateCommand (mk_command BinSysctl [''-w'', knob @ ''='' @ v] why) = None"
    using assms by (simp add: ValidateCommand_mk)
  then show ?thesis
    by (simp add: kernel_valid Let_def runSysctl_def cut_setting [OF assms(1)] del: append_Cons append.simps)
qed

lemma runIP_error:
  assumes "runIP c k = ((res, Some e), k')"
  shows "k' = k"
proof -
  have sub: "runLinkShowDev n k = ((res, Some e), k') \<Longrightarrow> k' = k" "runLinkUp n k = ((res, Some e), k') \<Longrightarrow> k' = k"
    "runIPAddr a k = ((res, Some e), k') \<Longrightarrow> k' = k" "runIPRoute f a k = ((res, Some e), k') \<Longrightarrow> k' = k"
    "runIPRule a k = ((res, Some e), k') \<Longrightarrow> k' = k" "sim_defer c k = ((res, Some e), k') \<Longrightarrow> k' = k"
    "sim_ok k = ((res, Some e), k') \<Longrightarrow> k' = k" for n a f
    by (auto simp: runLinkShowDev_def runLinkUp_def runIPAddr_def runIPRoute_def runIPRule_def sim_defer_def answer_defs Let_def
        split: if_splits option.splits)
  show ?thesis
    using assms sub by (auto simp: runIP_def Let_def split: prod.splits if_splits)
qed

lemma kernel_error:
  assumes "kernel_run ord c k = ((res, Some e), k')"
  shows "machine_view p k' = machine_view p k"
proof (cases "ValidateCommand c")
  case None
  have frame: "machine_view p (k\<lparr>kCmds := xs\<rparr>) = machine_view p k" for xs by (simp add: machine_view_def)
  define k1 where "k1 = k\<lparr>kCmds := kCmds k @ [c]\<rparr>"
  have "runNft c k1 = ((res, Some e), k') \<Longrightarrow> k' = k1" "runSysctl c k1 = ((res, Some e), k') \<Longrightarrow> k' = k1"
    "runNmcli c k1 = ((res, Some e), k') \<Longrightarrow> k' = k1" "runIw ord c k1 = ((res, Some e), k') \<Longrightarrow> k' = k1"
    by (auto simp: runNft_def runSysctl_def runNmcli_def runIw_def sim_defer_def answer_defs Let_def split: if_splits option.splits)
  then have "k' = k1"
    using assms None runIP_error [of c k1 res e k'] by (auto simp: kernel_valid Let_def k1_def [symmetric] split: if_splits)
  with frame show ?thesis by (simp add: k1_def)
qed (use assms in \<open>simp add: kernel_run_def\<close>)

lemma reverts_kernelI:
  assumes "Do st = d" "Undo st = u"
    and "\<And>res k'. kernel_run ord d k = ((res, None), k') \<Longrightarrow>
      machine_view p (if IsZero u then k' else after (kernel_run ord) u k') = machine_view p k"
    and "\<And>res e k'. kernel_run ord d k = ((res, Some e), k') \<Longrightarrow> outcome_phase d res (Some e) = PhaseFailed \<Longrightarrow>
      \<not> IsZero u \<Longrightarrow> machine_view p (after (kernel_run ord) u k) = machine_view p k"
  shows "reverts (kernel_run ord) (machine_view p) st k"
proof -
  obtain res err k' where r: "kernel_run ord (Do st) k = ((res, err), k')" by (metis prod.exhaust)
  show ?thesis
  proof (cases err)
    case None
    with r have "phase_of (kernel_run ord) (Do st) k = PhaseDone" by (simp add: phase_of_def outcome_phase_def)
    with assms(1-3) r None show ?thesis by (auto simp: reverts_def after_def split: if_splits)
  next
    case (Some e)
    have v: "machine_view p k' = machine_view p k" using kernel_error r Some by blast
    have "phase_of (kernel_run ord) (Do st) k \<in> {PhasePreexisting, PhaseFailed}"
      using r Some by (simp add: phase_of_def outcome_phase_def)
    with v assms(1,2,4) r Some kernel_run_view [OF v, of ord "Undo st"] show ?thesis
      by (auto simp: reverts_def phase_of_def after_def)
  qed
qed

lemma IsZero_mk: "IsZero (mk_command path args why) \<longleftrightarrow> path = '''' \<and> args = []"
  by (auto simp: IsZero_def mk_command_def)

lemma IsZero_bins [simp]:
  "\<not> IsZero (mk_command BinIP args why)" "\<not> IsZero (mk_command BinIw args why)" "\<not> IsZero (mk_command BinNmcli args why)"
  "\<not> IsZero (mk_command BinSysctl args why)" "IsZero zero_command"
  by (simp_all add: IsZero_mk bin_defs) (simp add: IsZero_def zero_command_def)

abbreviation logged :: "command \<Rightarrow> sim_kernel \<Rightarrow> sim_kernel" where
  "logged c k \<equiv> k\<lparr>kCmds := kCmds k @ [c]\<rparr>"

lemma kernel_ip:
  assumes "\<forall>a \<in> set args. nul_free a"
  shows "kernel_run ord (ipCmd why args) k = runIP (ipCmd why args) (logged (ipCmd why args) k)"
  using assms by (simp add: kernel_valid ValidateCommand_mk ipCmd_def Let_def)

lemma kernel_iw:
  assumes "\<forall>a \<in> set args. nul_free a"
  shows "kernel_run ord (mk_command BinIw args why) k = runIw ord (mk_command BinIw args why) (logged (mk_command BinIw args why) k)"
  using assms by (simp add: kernel_valid ValidateCommand_mk Let_def)

lemma kernel_nmcli:
  assumes "\<forall>a \<in> set args. nul_free a"
  shows "kernel_run ord (mk_command BinNmcli args why) k = runNmcli (mk_command BinNmcli args why) (logged (mk_command BinNmcli args why) k)"
  using assms by (simp add: kernel_valid ValidateCommand_mk Let_def)

lemma kernel_bad_args:
  assumes "\<not> (\<forall>a \<in> set args. nul_free a)"
  shows "after (kernel_run ord) (mk_command path args why) k = k" "kernel_run ord (mk_command path args why) k = ((res, None), k') \<Longrightarrow> False"
proof -
  have v: "ValidateCommand (mk_command path args why) \<noteq> None" using assms ValidateCommand_mk by auto
  then show "after (kernel_run ord) (mk_command path args why) k = k" by (rule kernel_invalid)
  show "kernel_run ord (mk_command path args why) k = ((res, None), k') \<Longrightarrow> False"
    using v by (auto simp: kernel_run_def)
qed

lemma runIP_shapes:
  "runIP (ipCmd why (''address'' # ''add'' # r)) k = runIPAddr (''address'' # ''add'' # r) k"
  "runIP (ipCmd why (''address'' # ''del'' # r)) k = runIPAddr (''address'' # ''del'' # r) k"
  "runIP (ipCmd why (''route'' # ''add'' # r)) k = runIPRoute '''' (''route'' # ''add'' # r) k"
  "runIP (ipCmd why (''route'' # ''del'' # r)) k = runIPRoute '''' (''route'' # ''del'' # r) k"
  "runIP (ipCmd why (''-6'' # ''route'' # ''add'' # r)) k = runIPRoute ''v6:'' (''route'' # ''add'' # r) k"
  "runIP (ipCmd why (''-6'' # ''route'' # ''del'' # r)) k = runIPRoute ''v6:'' (''route'' # ''del'' # r) k"
  "runIP (ipCmd why (''rule'' # r)) k = runIPRule (''rule'' # r) k"
  "runIP (ipCmd why [''link'', ''set'', ''dev'', d, ''up'']) k = runLinkUp d k"
  "runIP (ipCmd why [''link'', ''set'', ''dev'', d, ''down'']) k = sim_ok k"
  by (simp_all add: runIP_def ipCmd_def has_prefix_def Let_def)

lemma sysctl_reverts:
  assumes "map_of (kSysctl k) knob = Some prev" "CHR ''='' \<notin> set knob" "nul_free prev"
  shows "reverts (kernel_run ord) (machine_view p) (mk_step OpSysctl why (mk_command BinSysctl [''-w'', knob @ ''='' @ val] w1)
      (mk_command BinSysctl [''-w'', knob @ ''='' @ prev] w2)) k"
proof -
  have restored: "machine_view p (after (kernel_run ord) (mk_command BinSysctl [''-w'', knob @ ''='' @ prev] w2)
      (k\<lparr>kCmds := xs, kSysctl := AList.update knob v (kSysctl k)\<rparr>)) = machine_view p k" if "nul_free knob" for xs v
    using sysctl_after [OF assms(2) that assms(3)] assms(1)
    by (simp add: after_def sim_ok_def machine_view_def update_twice update_same del: append_Cons append.simps)
  show ?thesis
  proof (rule reverts_kernelI [OF mk_step_simps(2,3)])
    fix res k' assume r: "kernel_run ord (mk_command BinSysctl [''-w'', knob @ ''='' @ val] w1) k = ((res, None), k')"
    then have nf: "nul_free knob" "nul_free val"
      using kernel_bad_args(2) [of "[''-w'', knob @ ''='' @ val]" ord BinSysctl w1 k res k'] by auto
    have "k' = k\<lparr>kCmds := kCmds k @ [mk_command BinSysctl [''-w'', knob @ ''='' @ val] w1], kSysctl := AList.update knob val (kSysctl k)\<rparr>"
      using r sysctl_after [OF assms(2) nf, of ord w1 k] by (simp add: sim_ok_def)
    with restored nf(1) show "machine_view p (if IsZero (mk_command BinSysctl [''-w'', knob @ ''='' @ prev] w2) then k'
        else after (kernel_run ord) (mk_command BinSysctl [''-w'', knob @ ''='' @ prev] w2) k') = machine_view p k" by simp
  next
    show "machine_view p (after (kernel_run ord) (mk_command BinSysctl [''-w'', knob @ ''='' @ prev] w2) k) = machine_view p k"
      using restored [where v = prev and xs = "kCmds k"] kernel_bad_args(1) [of "[''-w'', knob @ ''='' @ prev]" ord BinSysctl w2 k] assms(1)
      by (cases "nul_free knob") (auto simp: update_same)
  qed
qed

lemma view_logged [simp]: "machine_view p (k\<lparr>kCmds := xs\<rparr>) = machine_view p k"
  by (simp add: machine_view_def)

lemma delete_update_fresh: "x \<notin> fst ` set m \<Longrightarrow> AList.delete x (AList.update x v m) = m"
  by (induction m) (auto simp: AList.delete_eq)

lemma create_reverts:
  assumes "HotspotIsVirtual p" "Hotspot p \<notin> set (kIfaces k)" "Hotspot p \<notin> fst ` set (kIftype k)"
    and "Do st = mk_command BinIw [''phy'', phy, ''interface'', ''add'', Hotspot p, ''type'', ''__ap''] w1"
    and "Undo st = mk_command BinIw [''dev'', Hotspot p, ''del''] w2"
  shows "reverts (kernel_run ord) (machine_view p) st k"
proof (rule reverts_kernelI [OF assms(4,5)])
  fix res k' assume r: "kernel_run ord (mk_command BinIw [''phy'', phy, ''interface'', ''add'', Hotspot p, ''type'', ''__ap''] w1) k = ((res, None), k')"
  then have nf: "nul_free phy" "nul_free (Hotspot p)"
    using kernel_bad_args(2) [of "[''phy'', phy, ''interface'', ''add'', Hotspot p, ''type'', ''__ap'']" ord BinIw w1 k res k'] by auto
  define a where "a = [''phy'', phy, ''interface'', ''add'', Hotspot p, ''type'', ''__ap'']"
  have "k' = iw_add ord a (logged (mk_command BinIw a w1) k)"
    using r nf assms(2) by (simp add: kernel_iw runIw_def Let_def answer_defs a_def split: if_splits)
  then show "machine_view p (if IsZero (mk_command BinIw [''dev'', Hotspot p, ''del''] w2) then k'
      else after (kernel_run ord) (mk_command BinIw [''dev'', Hotspot p, ''del''] w2) k') = machine_view p k"
    using nf assms(1-3)
    by (simp add: after_def kernel_iw runIw_def Let_def sim_ok_def iw_del_def machine_view_eq_iff a_def delete_update_fresh
        unmanaged_view_def)
next
  show "machine_view p (after (kernel_run ord) (mk_command BinIw [''dev'', Hotspot p, ''del''] w2) k) = machine_view p k"
    using assms(2) kernel_bad_args(1) [of "[''dev'', Hotspot p, ''del'']" ord BinIw w2 k]
    by (cases "nul_free (Hotspot p)") (auto simp: after_def kernel_iw runIw_def Let_def simFail_def)
qed

lemma release_created_reverts:
  assumes "HotspotIsVirtual p"
  shows "reverts (kernel_run ord) (machine_view p)
    (mk_step OpLink why (mk_command BinNmcli [''device'', ''set'', Hotspot p, ''managed'', ''no''] w1) zero_command) k"
proof (rule reverts_kernelI [OF mk_step_simps(2,3)])
  fix res k' assume r: "kernel_run ord (mk_command BinNmcli [''device'', ''set'', Hotspot p, ''managed'', ''no''] w1) k = ((res, None), k')"
  then have "nul_free (Hotspot p)"
    using kernel_bad_args(2) [of "[''device'', ''set'', Hotspot p, ''managed'', ''no'']" ord BinNmcli w1 k res k'] by auto
  with r assms show "machine_view p (if IsZero zero_command then k' else after (kernel_run ord) zero_command k') = machine_view p k"
    by (auto simp: kernel_nmcli runNmcli_def Let_def answer_defs machine_view_eq_iff unmanaged_view_flag split: if_splits)
qed simp

lemma removeAll_set_true: "x \<notin> set xs \<Longrightarrow> removeAll x (set_true x xs) = xs"
  by (simp add: set_true_def)

lemma release_reverts:
  assumes "\<not> HotspotIsVirtual p" "d \<notin> set (kUnmanaged k)"
  shows "reverts (kernel_run ord) (machine_view p)
    (mk_step OpLink why (mk_command BinNmcli [''device'', ''set'', d, ''managed'', ''no''] w1)
      (mk_command BinNmcli [''device'', ''set'', d, ''managed'', ''yes''] w2)) k"
proof (rule reverts_kernelI [OF mk_step_simps(2,3)])
  fix res k' assume r: "kernel_run ord (mk_command BinNmcli [''device'', ''set'', d, ''managed'', ''no''] w1) k = ((res, None), k')"
  then have nf: "nul_free d"
    using kernel_bad_args(2) [of "[''device'', ''set'', d, ''managed'', ''no'']" ord BinNmcli w1 k res k'] by auto
  with r assms show "machine_view p (if IsZero (mk_command BinNmcli [''device'', ''set'', d, ''managed'', ''yes''] w2) then k'
      else after (kernel_run ord) (mk_command BinNmcli [''device'', ''set'', d, ''managed'', ''yes''] w2) k') = machine_view p k"
    by (auto simp: after_def kernel_nmcli runNmcli_def Let_def answer_defs machine_view_eq_iff unmanaged_view_def set_flag_def
        removeAll_set_true split: if_splits)
next
  show "machine_view p (after (kernel_run ord) (mk_command BinNmcli [''device'', ''set'', d, ''managed'', ''yes''] w2) k) = machine_view p k"
    using assms kernel_bad_args(1) [of "[''device'', ''set'', d, ''managed'', ''yes'']" ord BinNmcli w2 k]
    by (cases "nul_free d") (auto simp: after_def kernel_nmcli runNmcli_def Let_def answer_defs machine_view_eq_iff set_flag_def)
qed

lemma retype_reverts:
  assumes "map_of (kIftype k) d = Some ''managed''"
  shows "reverts (kernel_run ord) (machine_view p)
    (mk_step OpCreateIface why (mk_command BinIw [''dev'', d, ''set'', ''type'', t] w1)
      (mk_command BinIw [''dev'', d, ''set'', ''type'', ''managed''] w2)) k"
proof (rule reverts_kernelI [OF mk_step_simps(2,3)])
  fix res k' assume r: "kernel_run ord (mk_command BinIw [''dev'', d, ''set'', ''type'', t] w1) k = ((res, None), k')"
  then have nf: "nul_free d" "nul_free t"
    using kernel_bad_args(2) [of "[''dev'', d, ''set'', ''type'', t]" ord BinIw w1 k res k'] by auto
  with r assms show "machine_view p (if IsZero (mk_command BinIw [''dev'', d, ''set'', ''type'', ''managed''] w2) then k'
      else after (kernel_run ord) (mk_command BinIw [''dev'', d, ''set'', ''type'', ''managed''] w2) k') = machine_view p k"
    by (auto simp: after_def kernel_iw runIw_def Let_def answer_defs machine_view_eq_iff update_twice update_same split: if_splits)
next
  show "machine_view p (after (kernel_run ord) (mk_command BinIw [''dev'', d, ''set'', ''type'', ''managed''] w2) k) = machine_view p k"
    using assms kernel_bad_args(1) [of "[''dev'', d, ''set'', ''type'', ''managed'']" ord BinIw w2 k]
    by (cases "nul_free d") (auto simp: after_def kernel_iw runIw_def Let_def answer_defs machine_view_eq_iff update_same)
qed

lemma ip_bad_args:
  assumes "\<not> (\<forall>a \<in> set args. nul_free a)"
  shows "after (kernel_run ord) (ipCmd why args) k = k" "kernel_run ord (ipCmd why args) k = ((res, None), k') \<Longrightarrow> False"
  using kernel_bad_args [OF assms] by (auto simp: ipCmd_def)

lemma ipCmd_simps [simp]: "Path (ipCmd why args) = BinIP" "Args (ipCmd why args) = args" "\<not> IsZero (ipCmd why args)"
  by (simp_all add: ipCmd_def)

lemma marked_answers:
  "str_contains (to_lower (simNoDev @ '' '' @ simNoDev)) ''cannot find device''"
  "str_contains (to_lower (simNoEntry @ '' '' @ simNoEntry)) ''no such file or directory''"
  "str_contains (to_lower (simExists @ '' '' @ simExists)) ''file exists''"
  by code_simp+

lemma not_found_answers:
  "IsNotFound \<lparr>Stdout = '''', Stderr = simNoDev, ExitCode = 2\<rparr> (Some simNoDev)"
  "IsNotFound \<lparr>Stdout = '''', Stderr = simNoEntry, ExitCode = 2\<rparr> (Some simNoEntry)"
  "IsAlreadyExists \<lparr>Stdout = '''', Stderr = simExists, ExitCode = 2\<rparr> (Some simExists)"
  using marked_answers
  by (simp_all add: IsNotFound_def IsAlreadyExists_def marked_def notFoundMarkers_def alreadyExistsMarkers_def)

lemma not_failed:
  "commandRemoves c \<Longrightarrow> IsNotFound res (Some e) \<Longrightarrow> outcome_phase c res (Some e) \<noteq> PhaseFailed"
  "IsAlreadyExists res (Some e) \<Longrightarrow> outcome_phase c res (Some e) \<noteq> PhaseFailed"
  by (simp_all add: outcome_phase_def)

lemma link_up_neutral: "neutral (kernel_run ord) (machine_view p) (ipCmd why [''link'', ''set'', ''dev'', d, ''up''])"
  unfolding neutral_def
proof
  fix k
  show "machine_view p (after (kernel_run ord) (ipCmd why [''link'', ''set'', ''dev'', d, ''up'']) k) = machine_view p k"
    using ip_bad_args(1) [of "[''link'', ''set'', ''dev'', d, ''up'']" ord why k]
    by (cases "nul_free d") (auto simp: after_def kernel_ip runIP_shapes runLinkUp_view)
qed

lemma link_down_neutral: "neutral (kernel_run ord) (machine_view p) (ipCmd why [''link'', ''set'', ''dev'', d, ''down''])"
  unfolding neutral_def
proof
  fix k
  show "machine_view p (after (kernel_run ord) (ipCmd why [''link'', ''set'', ''dev'', d, ''down'']) k) = machine_view p k"
    using ip_bad_args(1) [of "[''link'', ''set'', ''dev'', d, ''down'']" ord why k]
    by (cases "nul_free d") (auto simp: after_def kernel_ip runIP_shapes sim_ok_def)
qed

lemma neutral_reverts:
  assumes "neutral run view (Do st)" "\<not> IsZero (Undo st) \<Longrightarrow> neutral run view (Undo st)"
  shows "reverts run view st w"
  using assms by (simp add: reverts_def neutral_def)

text \<open>Adding to and deleting from a list the way addresses, routes and rules are: adding what is there and deleting
  what is not are refused.\<close>

lemma add_del_reverts:
  fixes d u :: command
  assumes "Do st = d" "Undo st = u" "\<not> IsZero u"
    and add: "kernel_run ord d k = (if bad then simFail simNoDev k1 else if there then simFail simExists k1 else sim_ok k2)"
    and undo: "\<And>k'. machine_view p k' = machine_view p k2 \<Longrightarrow> \<not> bad \<Longrightarrow> \<not> there \<Longrightarrow> machine_view p (after (kernel_run ord) u k') = machine_view p k"
    and undo_bad: "bad \<Longrightarrow> machine_view p (after (kernel_run ord) u k) = machine_view p k"
  shows "reverts (kernel_run ord) (machine_view p) st k"
proof (rule reverts_kernelI [OF assms(1,2)])
  fix res k' assume "kernel_run ord d k = ((res, None), k')"
  then have "\<not> bad" "\<not> there" "k' = k2" using add by (auto simp: answer_defs split: if_splits)
  with undo [of k'] assms(3) show "machine_view p (if IsZero u then k' else after (kernel_run ord) u k') = machine_view p k" by simp
next
  fix res e k' assume r: "kernel_run ord d k = ((res, Some e), k')" "outcome_phase d res (Some e) = PhaseFailed"
  then have "\<not> IsAlreadyExists res (Some e)" using not_failed(2) by blast
  with r(1) add not_found_answers(3) have bad by (auto simp: answer_defs split: if_splits)
  then show "machine_view p (after (kernel_run ord) u k) = machine_view p k" by (rule undo_bad)
qed

abbreviation addr_dev :: "string \<Rightarrow> string \<Rightarrow> string" where
  "addr_dev x d \<equiv> if x = ''dev'' then ''dev'' else d"

lemma kernel_addr:
  assumes "nul_free x" "nul_free d"
  shows "kernel_run ord (ipCmd w [''address'', ''add'', x, ''dev'', d]) k =
      (let k1 = logged (ipCmd w [''address'', ''add'', x, ''dev'', d]) k; y = (addr_dev x d, x)
       in if fst y = '''' \<or> fst y \<notin> set (kIfaces k) then simFail simNoDev k1
          else if y \<in> set (kAddrs k) then simFail simExists k1 else sim_ok (k1\<lparr>kAddrs := kAddrs k @ [y]\<rparr>))"
    and "kernel_run ord (ipCmd w [''address'', ''del'', x, ''dev'', d]) k =
      (let k1 = logged (ipCmd w [''address'', ''del'', x, ''dev'', d]) k; y = (addr_dev x d, x)
       in if fst y = '''' \<or> fst y \<notin> set (kIfaces k) then simFail simNoDev k1
          else if y \<notin> set (kAddrs k) then simFail simNoEntry k1 else sim_ok (k1\<lparr>kAddrs := removeAll y (kAddrs k)\<rparr>))"
  using assms by (simp_all add: kernel_ip runIP_shapes runIPAddr_def Let_def)

lemma strip_reverts:
  "reverts (kernel_run ord) (machine_view p)
    (mk_step OpAddr why (ipCmd w1 [''address'', ''del'', x, ''dev'', d]) (ipCmd w2 [''address'', ''add'', x, ''dev'', d])) k"
proof (cases "nul_free x \<and> nul_free d")
  case True
  define y where "y = (addr_dev x d, x)"
  note add = kernel_addr(1) [of x d ord w2, folded y_def, unfolded Let_def] and del = kernel_addr(2) [of x d ord w1, folded y_def, unfolded Let_def]
  show ?thesis
  proof (rule reverts_kernelI [OF mk_step_simps(2,3)])
    fix res k' assume "kernel_run ord (ipCmd w1 [''address'', ''del'', x, ''dev'', d]) k = ((res, None), k')"
    then have "fst y \<noteq> ''''" "fst y \<in> set (kIfaces k)" "y \<in> set (kAddrs k)"
      "k' = (logged (ipCmd w1 [''address'', ''del'', x, ''dev'', d]) k)\<lparr>kAddrs := removeAll y (kAddrs k)\<rparr>"
      using True by (auto simp: del answer_defs split: if_splits)
    then show "machine_view p (if IsZero (ipCmd w2 [''address'', ''add'', x, ''dev'', d]) then k'
        else after (kernel_run ord) (ipCmd w2 [''address'', ''add'', x, ''dev'', d]) k') = machine_view p k"
      using True by (simp add: after_def add sim_ok_def machine_view_eq_iff) blast
  next
    fix res e k' assume r: "kernel_run ord (ipCmd w1 [''address'', ''del'', x, ''dev'', d]) k = ((res, Some e), k')"
    have "commandRemoves (ipCmd w1 [''address'', ''del'', x, ''dev'', d])" by (simp add: commandRemoves_def)
    moreover have "IsNotFound res (Some e)"
      using r True not_found_answers by (auto simp: del answer_defs split: if_splits)
    ultimately have "outcome_phase (ipCmd w1 [''address'', ''del'', x, ''dev'', d]) res (Some e) \<noteq> PhaseFailed" by (rule not_failed)
    then show "outcome_phase (ipCmd w1 [''address'', ''del'', x, ''dev'', d]) res (Some e) = PhaseFailed \<Longrightarrow>
        machine_view p (after (kernel_run ord) (ipCmd w2 [''address'', ''add'', x, ''dev'', d]) k) = machine_view p k"
      by contradiction
  qed
next
  case False
  then show ?thesis
    by (intro neutral_reverts) (auto simp: neutral_def ip_bad_args)
qed

lemma addr_reverts:
  "reverts (kernel_run ord) (machine_view p)
    (mk_step OpAddr why (ipCmd w1 [''address'', ''add'', x, ''dev'', d]) (ipCmd w2 [''address'', ''del'', x, ''dev'', d])) k"
proof (cases "nul_free x \<and> nul_free d")
  case True
  define y where "y = (addr_dev x d, x)"
  note add = kernel_addr(1) [of x d ord w1 k, folded y_def, unfolded Let_def] and del = kernel_addr(2) [of x d ord w2, folded y_def, unfolded Let_def]
  show ?thesis
  proof (rule add_del_reverts [OF mk_step_simps(2,3) ipCmd_simps(3) add])
    fix k' assume v: "machine_view p k' = machine_view p ((logged (ipCmd w1 [''address'', ''add'', x, ''dev'', d]) k)\<lparr>kAddrs := kAddrs k @ [y]\<rparr>)"
      and c: "\<not> (fst y = '''' \<or> fst y \<notin> set (kIfaces k))" "y \<notin> set (kAddrs k)"
    then have "fst y \<in> set (kIfaces k')" "y \<in> set (kAddrs k')" by (simp_all add: machine_view_eq_iff)
    then have "after (kernel_run ord) (ipCmd w2 [''address'', ''del'', x, ''dev'', d]) k' =
        (logged (ipCmd w2 [''address'', ''del'', x, ''dev'', d]) k')\<lparr>kAddrs := removeAll y (kAddrs k')\<rparr>"
      using c True by (simp add: after_def del sim_ok_def)
    with v c show "machine_view p (after (kernel_run ord) (ipCmd w2 [''address'', ''del'', x, ''dev'', d]) k') = machine_view p k"
      by (simp add: machine_view_eq_iff)
  next
    assume "fst y = '''' \<or> fst y \<notin> set (kIfaces k)"
    then show "machine_view p (after (kernel_run ord) (ipCmd w2 [''address'', ''del'', x, ''dev'', d]) k) = machine_view p k"
      using True by (simp add: after_def del simFail_def)
  qed (use True in simp_all)
next
  case False
  then show ?thesis
    by (intro neutral_reverts) (auto simp: neutral_def ip_bad_args)
qed

abbreviation route_table :: "string list \<Rightarrow> string" where
  "route_table r \<equiv> if argAfter r ''table'' = '''' then ''main'' else argAfter r ''table''"

abbreviation route_family :: "string list \<Rightarrow> string" where
  "route_family fl \<equiv> if fl = [] then '''' else ''v6:''"

lemma kernel_route:
  assumes "\<forall>a \<in> set (x # r). nul_free a" "fl \<in> {[], [''-6'']}"
  shows "kernel_run ord (ipCmd w (fl @ ''route'' # ''add'' # x # r)) k =
      (let k1 = logged (ipCmd w (fl @ ''route'' # ''add'' # x # r)) k; y = (route_table (x # r), route_family fl @ x)
       in if False then simFail simNoDev k1
          else if y \<in> set (kRoutes k) then simFail simExists k1 else sim_ok (k1\<lparr>kRoutes := kRoutes k @ [y]\<rparr>))"
    and "kernel_run ord (ipCmd w (fl @ ''route'' # ''del'' # x # r)) k =
      (let k1 = logged (ipCmd w (fl @ ''route'' # ''del'' # x # r)) k; y = (route_table (x # r), route_family fl @ x)
       in if y \<notin> set (kRoutes k) then simFail simNoEntry k1 else sim_ok (k1\<lparr>kRoutes := removeAll y (kRoutes k)\<rparr>))"
  using assms by (auto simp: kernel_ip runIP_shapes runIPRoute_def Let_def)

lemma route_reverts:
  assumes fl: "fl \<in> {[], [''-6'']}" and tb: "argAfter (x # r1) ''table'' = argAfter (x # r2) ''table''"
    and nf: "list_all nul_free r1 = list_all nul_free r2"
  shows "reverts (kernel_run ord) (machine_view p)
    (mk_step OpRoute why (ipCmd w1 (fl @ ''route'' # ''add'' # x # r1)) (ipCmd w2 (fl @ ''route'' # ''del'' # x # r2))) k"
proof (cases "nul_free x \<and> list_all nul_free r1")
  case True
  define y where "y = (route_table (x # r1), route_family fl @ x)"
  have ok: "\<forall>a \<in> set (x # r1). nul_free a" "\<forall>a \<in> set (x # r2). nul_free a" using True nf by (auto simp: list_all_iff)
  note add = kernel_route(1) [OF ok(1) fl, of ord w1 k, folded y_def, unfolded Let_def]
    and del = kernel_route(2) [OF ok(2) fl, of ord w2, folded tb, folded y_def, unfolded Let_def]
  show ?thesis
  proof (rule add_del_reverts [OF mk_step_simps(2,3) ipCmd_simps(3) add])
    fix k' assume v: "machine_view p k' = machine_view p ((logged (ipCmd w1 (fl @ ''route'' # ''add'' # x # r1)) k)\<lparr>kRoutes := kRoutes k @ [y]\<rparr>)"
      and c: "y \<notin> set (kRoutes k)"
    then have "y \<in> set (kRoutes k')" by (simp add: machine_view_eq_iff)
    then have "after (kernel_run ord) (ipCmd w2 (fl @ ''route'' # ''del'' # x # r2)) k' =
        (logged (ipCmd w2 (fl @ ''route'' # ''del'' # x # r2)) k')\<lparr>kRoutes := removeAll y (kRoutes k')\<rparr>"
      by (simp add: after_def del sim_ok_def)
    with v c show "machine_view p (after (kernel_run ord) (ipCmd w2 (fl @ ''route'' # ''del'' # x # r2)) k') = machine_view p k"
      by (simp add: machine_view_eq_iff)
  qed simp
next
  case False
  then have bad: "\<not> (\<forall>a \<in> set (fl @ ''route'' # ''add'' # x # r1). nul_free a)" "\<not> (\<forall>a \<in> set (fl @ ''route'' # ''del'' # x # r2). nul_free a)"
    using nf by (auto simp: list_all_iff)
  show ?thesis
    by (intro neutral_reverts) (simp_all add: neutral_def ip_bad_args(1) [OF bad(1)] ip_bad_args(1) [OF bad(2)])
qed

abbreviation rule_of :: "string list \<Rightarrow> sim_rule" where
  "rule_of r \<equiv> \<lparr>srPriority = argAfter r ''priority'', srSelector = join '' '' (rule_selector r)\<rparr>"

lemma argAfter_skip: "a \<noteq> key \<Longrightarrow> argAfter (a # r) key = argAfter r key"
  by (cases r) auto

lemma kernel_rule:
  assumes "\<forall>a \<in> set r. nul_free a" "argAfter r ''priority'' \<noteq> ''''"
  shows "kernel_run ord (ipCmd w (''rule'' # ''add'' # r)) k =
      (let k1 = logged (ipCmd w (''rule'' # ''add'' # r)) k
       in if False then simFail simNoDev k1
          else if rule_of r \<in> set (kRules k) then simFail simExists k1 else sim_ok (k1\<lparr>kRules := kRules k @ [rule_of r]\<rparr>))"
    and "kernel_run ord (ipCmd w (''rule'' # ''del'' # r)) k =
      (let k1 = logged (ipCmd w (''rule'' # ''del'' # r)) k
       in if rule_of r \<in> set (kRules k) then sim_ok (k1\<lparr>kRules := remove1 (rule_of r) (kRules k)\<rparr>) else simFail simNoEntry k1)"
  using assms by (simp_all add: kernel_ip runIP_shapes runIPRule_def Let_def argAfter_skip)

lemma rule_reverts:
  assumes "argAfter r ''priority'' \<noteq> ''''"
  shows "reverts (kernel_run ord) (machine_view p)
    (mk_step OpRule why (ipCmd w1 (''rule'' # ''add'' # r)) (ipCmd w2 (''rule'' # ''del'' # r))) k"
proof (cases "\<forall>a \<in> set r. nul_free a")
  case True
  note add = kernel_rule(1) [OF True assms, of ord w1 k, unfolded Let_def]
    and del = kernel_rule(2) [OF True assms, of ord w2, unfolded Let_def]
  show ?thesis
  proof (rule add_del_reverts [OF mk_step_simps(2,3) ipCmd_simps(3) add])
    fix k' assume v: "machine_view p k' = machine_view p ((logged (ipCmd w1 (''rule'' # ''add'' # r)) k)\<lparr>kRules := kRules k @ [rule_of r]\<rparr>)"
      and c: "rule_of r \<notin> set (kRules k)"
    then have "after (kernel_run ord) (ipCmd w2 (''rule'' # ''del'' # r)) k' =
        (logged (ipCmd w2 (''rule'' # ''del'' # r)) k')\<lparr>kRules := remove1 (rule_of r) (kRules k')\<rparr>"
      by (simp add: after_def del sim_ok_def machine_view_eq_iff)
    with v c show "machine_view p (after (kernel_run ord) (ipCmd w2 (''rule'' # ''del'' # r)) k') = machine_view p k"
      by (simp add: machine_view_eq_iff remove1_append)
  qed simp
next
  case False
  then have bad: "\<not> (\<forall>a \<in> set (''rule'' # ''add'' # r). nul_free a)" "\<not> (\<forall>a \<in> set (''rule'' # ''del'' # r). nul_free a)"
    by auto
  show ?thesis
    by (intro neutral_reverts) (simp_all add: neutral_def ip_bad_args(1) [OF bad(1)] ip_bad_args(1) [OF bad(2)])
qed

end
