(* ===== verification/PlanProps.thy ===== *)
theory PlanProps
  imports Plan
begin

text \<open>
  What a plan promises: which interface it may put the access point on, that an asked band is honoured,
  that its subnets collide with nothing, and that its servers are pinned or named as unpinnable.
\<close>

section \<open>Candidates\<close>

lemma cPhy_candidate_iface [simp]: "cPhy (candidate_iface f u w c) = cPhy c"
  by (simp add: candidate_iface_def Let_def)

lemma cPhy_fold_candidate [simp]: "cPhy (fold (candidate_iface f u) ws c) = cPhy c"
  by (induction ws arbitrary: c) simp_all

lemma cPhy_candidate [simp]: "cPhy (candidate f u ph) = ph"
  by (simp add: candidate_def)

lemma candidate_iface_uplink:
  assumes "wName (cIface c) = u \<Longrightarrow> wName (cStation c) = u" "u \<noteq> ''''"
    and "wName (cIface (candidate_iface f u w c)) = u"
  shows "wName (cStation (candidate_iface f u w c)) = u"
  using assms by (auto simp: candidate_iface_def Let_def split: if_splits)

lemma fold_candidate_uplink:
  assumes "wName (cIface c) = u \<Longrightarrow> wName (cStation c) = u" "u \<noteq> ''''"
    and "wName (cIface (fold (candidate_iface f u) ws c)) = u"
  shows "wName (cStation (fold (candidate_iface f u) ws c)) = u"
  using assms
proof (induction ws arbitrary: c)
  case (Cons w ws)
  show ?case
    using Cons.IH [of "candidate_iface f u w c"] candidate_iface_uplink [OF Cons.prems(1,2)] Cons.prems by simp
qed simp

text \<open>A radio whose interface is the uplink has the uplink as its station link.\<close>

lemma candidate_uplink:
  assumes "c \<in> set (apCandidates f u)" "u \<noteq> ''''" "wName (cIface c) = u"
  shows "wName (cStation c) = u"
proof -
  obtain ph where "c = candidate f u ph"
    using assms(1) by (auto simp: apCandidates_def)
  then show ?thesis
    using assms(2,3) fold_candidate_uplink [of "\<lparr>cPhy = ph, cIface = zero_wireless, cStation = zero_wireless, cBus = ''''\<rparr>" u f]
    by (simp add: candidate_def)
qed

lemma candidate_radio:
  "c \<in> set (apCandidates f u) \<Longrightarrow> cPhy c \<in> set (Phys f) \<and> SupportsAP (cPhy c)"
  by (auto simp: apCandidates_def)

lemma fold_usb_over_in: "fold usb_over cs b \<in> insert b (set cs)"
  by (induction cs arbitrary: b) (auto simp: usb_over_def split: if_splits)

lemma preferUSB_in: "cs \<noteq> [] \<Longrightarrow> preferUSB cs \<in> set cs"
  using fold_usb_over_in [of cs "hd cs"] by (cases cs) (auto simp: preferUSB_def)

lemma fold_last_resort_in: "fold (last_resort_step u) cs b \<in> insert b (set cs)"
  by (induction cs arbitrary: b) (auto simp: last_resort_step_def usb_over_def Let_def split: if_splits)

lemma last_resort_in: "cs \<noteq> [] \<Longrightarrow> fold (last_resort_step u) cs (hd cs) \<in> set cs"
  using fold_last_resort_in [of u cs "hd cs"] by auto

lemmas cand_group_defs = free_cands_def shared_cands_def takeoverable_cands_def blocked_cands_def

lemma find_in: "List.find P xs = Some x \<Longrightarrow> x \<in> set xs \<and> P x"
  by (auto simp: find_Some_iff)

definition with_mode :: "facts \<Rightarrow> plan \<Rightarrow> plan" where
  "with_mode f p = p\<lparr>Mode := (if WirelessByName f (Uplink p) \<noteq> None then ModeWirelessUplink else ModeWiredUplink)\<rparr>"

lemma with_mode_simps [simp]:
  "Uplink (with_mode f p) = Uplink p" "Opts (with_mode f p) = Opts p" "Platform (with_mode f p) = Platform p" "HotspotFallback (with_mode f p) = HotspotFallback p"
  "Hotspot (with_mode f p) = Hotspot p" "HotspotTakenOver (with_mode f p) = HotspotTakenOver p"
  "ChannelPinned (with_mode f p) = ChannelPinned p" "HotspotIsVirtual (with_mode f p) = HotspotIsVirtual p"
  by (simp_all add: with_mode_def)

text \<open>Whatever radio is chosen, it is one of the candidates, and it went through \<open>acceptHotspot\<close>.\<close>

lemma no_blocked_elsewhere [simp]: "List.find (\<lambda>c. wName (cStation c) \<noteq> u) (blocked_cands u cs) = None"
  by (auto simp: find_None_iff blocked_cands_def)

definition chosen_radio :: "options \<Rightarrow> string \<Rightarrow> ap_candidate list \<Rightarrow> ap_candidate option" where
  "chosen_radio opt u cs =
     (if HotspotOverride opt \<noteq> ''''
      then List.find (\<lambda>c. wName (cIface c) = HotspotOverride opt \<or> phyName (cPhy c) = HotspotOverride opt) cs
      else if free_cands cs \<noteq> [] then Some (preferUSB (free_cands cs))
      else if filter (\<lambda>c. wName (cStation c) \<noteq> u) (shared_cands cs) \<noteq> []
        then Some (preferUSB (filter (\<lambda>c. wName (cStation c) \<noteq> u) (shared_cands cs)))
      else if takeoverable_cands u cs \<noteq> [] then Some (preferUSB (takeoverable_cands u cs))
      else if shared_cands cs \<noteq> [] then Some (fold (last_resort_step u) (shared_cands cs) (hd (shared_cands cs)))
      else None)"

lemma chosen_radio_in:
  assumes "chosen_radio opt u cs = Some c"
  shows "c \<in> set cs"
proof -
  have sub: "set (free_cands cs) \<subseteq> set cs" "set (shared_cands cs) \<subseteq> set cs" "set (takeoverable_cands u cs) \<subseteq> set cs"
    by (auto simp: cand_group_defs)
  show ?thesis
    using assms sub find_in [of _ cs c] preferUSB_in [of "free_cands cs"] preferUSB_in [of "takeoverable_cands u cs"]
      preferUSB_in [of "filter (\<lambda>c. wName (cStation c) \<noteq> u) (shared_cands cs)"] last_resort_in [of "shared_cands cs" u]
    by (simp add: chosen_radio_def split: if_splits) blast+
qed

lemma chooseHotspot_chosen:
  "chooseHotspot f opt p =
     (let cs = apCandidates f (Uplink p)
      in if cs = [] then Inl NoAPCapableInterface
         else case chosen_radio opt (Uplink p) cs of
           Some c \<Rightarrow> acceptHotspot c opt (with_mode f p)
         | None \<Rightarrow>
             if HotspotOverride opt \<noteq> '''' then Inl (OverrideNotAPCapable (HotspotOverride opt))
             else if list_ex (\<lambda>c. wName (cStation c) = Uplink p) cs then Inl OnlyRadioCarriesUplink
             else Inl EveryRadioBusy)"
  unfolding chooseHotspot_def with_mode_def [symmetric] Let_def by (simp add: chosen_radio_def)

lemma chooseHotspot_accepts:
  assumes "chooseHotspot f opt p = Inr q"
  obtains c where "chosen_radio opt (Uplink p) (apCandidates f (Uplink p)) = Some c"
    "c \<in> set (apCandidates f (Uplink p))" "acceptHotspot c opt (with_mode f p) = Inr q"
  using assms chosen_radio_in by (auto simp: chooseHotspot_chosen Let_def split: if_splits option.splits)

section \<open>What each stage leaves alone\<close>

lemma chooseChannel_frame:
  assumes "chooseChannel ph b p = Inr q"
  shows "q = p\<lparr>Channel := Channel q\<rparr>" "b \<noteq> BandAuto \<Longrightarrow> Channel q \<in> set (UsableChannelsIn ph b)"
  using assms by (auto simp: chooseChannel_def split: if_splits list.splits)

lemma refuseBandAgainstPin_frame:
  assumes "refuseBandAgainstPin ph st b p = Inr q"
  shows "q = p" "b \<noteq> BandAuto \<Longrightarrow> pinned_band ph st (Channel p) = b"
  using assms by (auto simp: refuseBandAgainstPin_def Let_def split: if_splits)

lemma name_beside_frame:
  assumes "name_beside c opt p = Inr q"
  shows "Uplink q = Uplink p" "UplinkV6Gw q = UplinkV6Gw p" "UplinkV6Dev q = UplinkV6Dev p" "Opts q = Opts p"
    "Platform q = Platform p" "HotspotPhy q = HotspotPhy p" "HotspotTakenOver q = HotspotTakenOver p"
    "ChannelPinned q = ChannelPinned p"
    "oPlatform opt \<noteq> PlatformWindows \<Longrightarrow> HotspotIsVirtual q \<and> Hotspot q = ap_name opt \<and>
       HotspotFallback q = (if wName (cStation c) \<noteq> Uplink p then wName (cStation c) else HotspotFallback p)"
  using assms by (auto simp: name_beside_def Let_def split: if_splits)

lemma beside_station_frame:
  assumes "beside_station c opt p = Inr q"
  obtains p1 where "name_beside c opt p = Inr p1" "\<exists>ch pin ns. q = p1\<lparr>Channel := ch, ChannelPinned := pin, Notes := ns\<rparr>"
    "HotspotBand opt \<noteq> BandAuto \<Longrightarrow> \<not> ChannelPinned p \<Longrightarrow>
       if ChannelPinned q then Channel q = wChannel (cStation c) \<and> pinned_band (cPhy c) (cStation c) (Channel q) = HotspotBand opt
       else Channel q \<in> set (UsableChannelsIn (cPhy c) (HotspotBand opt))"
proof -
  obtain p1 combo where p1: "name_beside c opt p = Inr p1" and combo: "APWithStation (cPhy c) = Some combo"
    using assms by (auto simp: beside_station_def split: sum.splits option.splits)
  show thesis
  proof (cases "cChannels combo = 1 \<and> StationLink (cStation c)")
    case True
    let ?p2 = "p1\<lparr>Channel := wChannel (cStation c), ChannelPinned := True\<rparr>"
    obtain p3 ns where r: "refuseBandAgainstPin (cPhy c) (cStation c) (HotspotBand opt) ?p2 = Inr p3"
      and q: "q = p3\<lparr>Notes := ns\<rparr>"
      using assms p1 combo True by (auto simp: beside_station_def split: sum.splits)
    show thesis
    proof (rule that [OF p1])
      show "\<exists>ch pin ns. q = p1\<lparr>Channel := ch, ChannelPinned := pin, Notes := ns\<rparr>"
        by (rule exI [of _ "wChannel (cStation c)"], rule exI [of _ True], rule exI [of _ ns])
          (simp add: q refuseBandAgainstPin_frame(1) [OF r])
    qed (use refuseBandAgainstPin_frame [OF r] q in simp)
  next
    case False
    then have ch: "chooseChannel (cPhy c) (HotspotBand opt) p1 = Inr q"
      using assms p1 combo by (auto simp: beside_station_def)
    show thesis
    proof (rule that [OF p1])
      show "\<exists>ch pin ns. q = p1\<lparr>Channel := ch, ChannelPinned := pin, Notes := ns\<rparr>"
        by (rule exI [of _ "Channel q"], rule exI [of _ "ChannelPinned p1"], rule exI [of _ "Notes p1"])
          (subst chooseChannel_frame(1) [OF ch], simp)
      have "ChannelPinned q = ChannelPinned p1"
        by (subst chooseChannel_frame(1) [OF ch]) simp
      then show "if ChannelPinned q then Channel q = wChannel (cStation c) \<and>
          pinned_band (cPhy c) (cStation c) (Channel q) = HotspotBand opt
        else Channel q \<in> set (UsableChannelsIn (cPhy c) (HotspotBand opt))"
        if "HotspotBand opt \<noteq> BandAuto" "\<not> ChannelPinned p"
        using that chooseChannel_frame(2) [OF ch] name_beside_frame(8) [OF p1] by simp
    qed
  qed
qed

text \<open>The arrangement \<open>acceptHotspot\<close> settled on, apart from the closing note.\<close>

definition accept_branch :: "ap_candidate \<Rightarrow> options \<Rightarrow> plan \<Rightarrow> planned" where
  "accept_branch c opt p =
     (if wName (cStation c) \<noteq> '''' \<and> \<not> DeclaresAPWithStation (cPhy c) \<and> wName (cStation c) \<noteq> Uplink p
        then takeOver c opt p
      else if wName (cStation c) \<noteq> '''' then beside_station c opt p
      else if wName (cIface c) \<noteq> '''' then on_free_iface c opt p
      else on_bare_radio c opt p)"

lemma acceptHotspot_alt:
  "acceptHotspot c opt p =
     (case accept_branch c opt (p\<lparr>HotspotPhy := phyName (cPhy c), UsableChannel := UsableChannels (cPhy c)\<rparr>) of
        Inl e \<Rightarrow> Inl e
      | Inr q \<Rightarrow> Inr (if Channel q = 0 \<and> UsableChannel q = []
                     then q\<lparr>Notes := Notes q @ [NoUsableChannelNote (phyName (cPhy c))]\<rparr> else q))"
  unfolding acceptHotspot_def accept_branch_def Let_def by (rule refl)

lemma acceptHotspot_branch:
  assumes "acceptHotspot c opt p = Inr q"
  obtains q' ns where "accept_branch c opt (p\<lparr>HotspotPhy := phyName (cPhy c), UsableChannel := UsableChannels (cPhy c)\<rparr>) = Inr q'"
    "q = q'\<lparr>Notes := ns\<rparr>"
proof -
  let ?p = "p\<lparr>HotspotPhy := phyName (cPhy c), UsableChannel := UsableChannels (cPhy c)\<rparr>"
  obtain q' where q': "accept_branch c opt ?p = Inr q'"
    and q: "q = (if Channel q' = 0 \<and> UsableChannel q' = []
                 then q'\<lparr>Notes := Notes q' @ [NoUsableChannelNote (phyName (cPhy c))]\<rparr> else q')"
    using assms by (auto simp: acceptHotspot_alt split: sum.splits)
  have "q = q'\<lparr>Notes := Notes q\<rparr>" by (simp add: q)
  then show thesis by (rule that [OF q'])
qed

text \<open>
  The same for all four arrangements: what they keep of the plan, where the access point goes, and the
  channel an asked band leads to. A plan on which nothing about the hotspot was decided is \<open>undecided\<close>.
\<close>

definition undecided :: "plan \<Rightarrow> bool" where
  "undecided p \<longleftrightarrow> \<not> HotspotIsVirtual p \<and> HotspotFallback p = '''' \<and> \<not> ChannelPinned p \<and> \<not> HotspotTakenOver p"

definition kept :: "plan \<Rightarrow> plan \<Rightarrow> bool" where
  "kept p q \<longleftrightarrow> Uplink q = Uplink p \<and> UplinkV6Gw q = UplinkV6Gw p \<and> UplinkV6Dev q = UplinkV6Dev p \<and>
     Opts q = Opts p \<and> Platform q = Platform p \<and> HotspotPhy q = HotspotPhy p"

definition clear_of_uplink :: "options \<Rightarrow> plan \<Rightarrow> bool" where
  "clear_of_uplink opt q \<longleftrightarrow>
     (if HotspotIsVirtual q then Hotspot q = ap_name opt else Hotspot q \<noteq> Uplink q) \<and>
     (HotspotFallback q = '''' \<or> HotspotFallback q \<noteq> Uplink q)"

definition band_honoured :: "radio_band \<Rightarrow> ap_candidate \<Rightarrow> plan \<Rightarrow> bool" where
  "band_honoured b c q \<longleftrightarrow>
     (if ChannelPinned q then Channel q = wChannel (cStation c) \<and> pinned_band (cPhy c) (cStation c) (Channel q) = b
      else Channel q \<in> set (UsableChannelsIn (cPhy c) b))"

lemma takeOver_arranges:
  assumes "takeOver c opt p = Inr q" "undecided p" "wName (cStation c) \<noteq> Uplink p"
  shows "kept p q" "clear_of_uplink opt q" "HotspotTakenOver q"
    "HotspotBand opt \<noteq> BandAuto \<Longrightarrow> band_honoured (HotspotBand opt) c q"
proof -
  let ?p = "p\<lparr>Hotspot := wName (cStation c), HotspotIsVirtual := False, HotspotTakenOver := True, HotspotParent := '''',
    HotspotFallback := '''', HotspotManager := wManager (cStation c), ChannelPinned := False\<rparr>"
  obtain r ns where r: "chooseChannel (cPhy c) (HotspotBand opt) ?p = Inr r" and q: "q = r\<lparr>Notes := ns\<rparr>"
    using assms(1) by (auto simp: takeOver_def Let_def split: if_splits sum.splits)
  obtain ch where r': "r = ?p\<lparr>Channel := ch\<rparr>"
    using chooseChannel_frame(1) [OF r] by blast
  show "kept p q" "clear_of_uplink opt q" "HotspotTakenOver q"
    using assms(3) by (simp_all add: q r' kept_def clear_of_uplink_def)
  show "band_honoured (HotspotBand opt) c q" if "HotspotBand opt \<noteq> BandAuto"
    using chooseChannel_frame(2) [OF r that] by (simp add: q r' band_honoured_def)
qed

lemma beside_station_arranges:
  assumes "beside_station c opt p = Inr q" "undecided p"
  shows "kept p q" "oPlatform opt \<noteq> PlatformWindows \<Longrightarrow> clear_of_uplink opt q" "\<not> HotspotTakenOver q"
    "HotspotBand opt \<noteq> BandAuto \<Longrightarrow> band_honoured (HotspotBand opt) c q"
proof -
  from assms(1) obtain p1 where p1: "name_beside c opt p = Inr p1"
    and ex: "\<exists>ch pin ns. q = p1\<lparr>Channel := ch, ChannelPinned := pin, Notes := ns\<rparr>"
    and band: "HotspotBand opt \<noteq> BandAuto \<Longrightarrow> \<not> ChannelPinned p \<Longrightarrow>
       if ChannelPinned q then Channel q = wChannel (cStation c) \<and> pinned_band (cPhy c) (cStation c) (Channel q) = HotspotBand opt
       else Channel q \<in> set (UsableChannelsIn (cPhy c) (HotspotBand opt))"
    using beside_station_frame by blast
  from ex obtain ch pin ns where q: "q = p1\<lparr>Channel := ch, ChannelPinned := pin, Notes := ns\<rparr>"
    by blast
  note fr = name_beside_frame [OF p1]
  show "kept p q" "\<not> HotspotTakenOver q"
    using fr(1-7) assms(2) by (simp_all add: q kept_def undecided_def)
  show "clear_of_uplink opt q" if "oPlatform opt \<noteq> PlatformWindows"
    using fr(9) [OF that] fr(1) assms(2) by (simp add: q clear_of_uplink_def undecided_def)
  show "band_honoured (HotspotBand opt) c q" if "HotspotBand opt \<noteq> BandAuto"
    using band [OF that] assms(2) by (simp add: band_honoured_def undecided_def)
qed

lemma on_free_iface_arranges:
  assumes "on_free_iface c opt p = Inr q" "undecided p" "wName (cIface c) \<noteq> Uplink p"
  shows "kept p q" "clear_of_uplink opt q" "\<not> HotspotTakenOver q"
    "HotspotBand opt \<noteq> BandAuto \<Longrightarrow> band_honoured (HotspotBand opt) c q"
proof -
  let ?p = "p\<lparr>Hotspot := wName (cIface c), HotspotManager := wManager (cIface c)\<rparr>"
  have r: "chooseChannel (cPhy c) (HotspotBand opt) ?p = Inr q"
    using assms(1) by (simp add: on_free_iface_def split: if_splits)
  obtain ch where q: "q = ?p\<lparr>Channel := ch\<rparr>"
    using chooseChannel_frame(1) [OF r] by blast
  show "kept p q" "clear_of_uplink opt q" "\<not> HotspotTakenOver q"
    using assms(2,3) by (simp_all add: q kept_def clear_of_uplink_def undecided_def)
  show "band_honoured (HotspotBand opt) c q" if "HotspotBand opt \<noteq> BandAuto"
    using chooseChannel_frame(2) [OF r that] assms(2) by (simp add: q band_honoured_def undecided_def)
qed

lemma on_bare_radio_arranges:
  assumes "on_bare_radio c opt p = Inr q" "undecided p"
  shows "kept p q" "clear_of_uplink opt q" "\<not> HotspotTakenOver q"
    "HotspotBand opt \<noteq> BandAuto \<Longrightarrow> band_honoured (HotspotBand opt) c q"
proof -
  let ?p = "p\<lparr>Hotspot := ap_name opt, HotspotIsVirtual := True, HotspotManager := ManagedByUnknown\<rparr>"
  have r: "chooseChannel (cPhy c) (HotspotBand opt) ?p = Inr q"
    using assms(1) by (simp add: on_bare_radio_def split: if_splits)
  obtain ch where q: "q = ?p\<lparr>Channel := ch\<rparr>"
    using chooseChannel_frame(1) [OF r] by blast
  show "kept p q" "clear_of_uplink opt q" "\<not> HotspotTakenOver q"
    using assms(2) by (simp_all add: q kept_def clear_of_uplink_def undecided_def)
  show "band_honoured (HotspotBand opt) c q" if "HotspotBand opt \<noteq> BandAuto"
    using chooseChannel_frame(2) [OF r that] assms(2) by (simp add: q band_honoured_def undecided_def)
qed

lemma accept_branch_arranges:
  assumes acc: "accept_branch c opt p = Inr q" and und: "undecided p" and c: "c \<in> set (apCandidates f (Uplink p))"
  shows "kept p q \<and> (oPlatform opt \<noteq> PlatformWindows \<longrightarrow> clear_of_uplink opt q) \<and>
    (HotspotBand opt \<noteq> BandAuto \<longrightarrow> band_honoured (HotspotBand opt) c q) \<and>
    (HotspotTakenOver q \<longrightarrow> wName (cStation c) \<noteq> '''' \<and> \<not> DeclaresAPWithStation (cPhy c) \<and> wName (cStation c) \<noteq> Uplink p)"
proof (cases "wName (cStation c) = ''''")
  case True
  have "wName (cIface c) \<noteq> Uplink p" if "wName (cIface c) \<noteq> ''''"
    using candidate_uplink [OF c] True that by auto
  then show ?thesis
    using acc True on_free_iface_arranges [OF _ und, of c opt q] on_bare_radio_arranges [OF _ und, of c opt q]
    by (simp add: accept_branch_def split: if_splits)
next
  case False
  then show ?thesis
    using acc takeOver_arranges [OF _ und, of c opt q] beside_station_arranges [OF _ und, of c opt q]
    by (simp add: accept_branch_def split: if_splits)
qed

lemma undecided_start [simp]:
  "undecided (with_mode f (with_uplink f r p)) = undecided p"
  by (simp add: undecided_def with_mode_def with_uplink_def Let_def split: option.splits)

lemma plan_socks_frame:
  assumes "plan_socks f opt p = Inr q"
  obtains st where "q = p\<lparr>SystemSOCKS := st\<rparr>"
proof -
  have "q = p\<lparr>SystemSOCKS := SystemSOCKS q\<rparr>"
    using assms by (auto simp: plan_socks_def split: if_splits sum.splits)
  then show thesis by (rule that)
qed

lemma plan_hotspot_subnet_frame:
  assumes "plan_hotspot_subnet f opt p = Inr q"
  shows "q = p\<lparr>HotspotSubnet := HotspotSubnet q, Notes := Notes q\<rparr>"
    "if valid_prefix (oHotspotSubnet opt) then HotspotSubnet q = Masked (oHotspotSubnet opt)
     else ChooseSubnet (HotspotPool opt) (OccupiedPrefixes f) = Inr (HotspotSubnet q)"
  using assms by (auto simp: plan_hotspot_subnet_def Let_def split: if_splits sum.splits)

text \<open>What \<open>plan_addresses\<close> decides, and that it decides nothing else.\<close>

lemma plan_addresses_frame:
  assumes "plan_addresses f opt p = Inr q"
  shows "q = p\<lparr>HotspotSubnet := HotspotSubnet q, HotspotGateway := HotspotGateway q,
      HotspotStationPrefixes := HotspotStationPrefixes q, TunSubnet := TunSubnet q, TunAddr := TunAddr q,
      TunPeer := TunPeer q, Notes := Notes q\<rparr>"
    "if valid_prefix (oHotspotSubnet opt) then HotspotSubnet q = Masked (oHotspotSubnet opt)
     else ChooseSubnet (HotspotPool opt) (OccupiedPrefixes f) = Inr (HotspotSubnet q)"
    "GatewayAddr (HotspotSubnet q) = Inr (HotspotGateway q)"
    "ChooseSubnet (TunnelPool opt) (OccupiedPrefixes f @ [HotspotSubnet q]) = Inr (TunSubnet q)"
    "GatewayAddr (TunSubnet q) = Inr (TunAddr q)" "PeerAddr (TunSubnet q) = Inr (TunPeer q)"
    "Hotspot p \<noteq> '''' \<Longrightarrow> \<not> HotspotIsVirtual p \<Longrightarrow>
       HotspotStationPrefixes q = foreignPrefixes f (Hotspot p) (HotspotSubnet q)"
proof -
  obtain p1 where p1: "plan_hotspot_subnet f opt p = Inr p1"
    using assms by (auto simp: plan_addresses_def split: sum.splits)
  obtain s ns where p1': "p1 = p\<lparr>HotspotSubnet := s, Notes := ns\<rparr>"
    and s: "if valid_prefix (oHotspotSubnet opt) then s = Masked (oHotspotSubnet opt)
      else ChooseSubnet (HotspotPool opt) (OccupiedPrefixes f) = Inr s"
    using plan_hotspot_subnet_frame [OF p1] by (rule that)
  obtain gw ts ta tp where
    ok: "GatewayAddr s = Inr gw" "ChooseSubnet (TunnelPool opt) (OccupiedPrefixes f @ [s]) = Inr ts"
      "GatewayAddr ts = Inr ta" "PeerAddr ts = Inr tp"
    using assms p1 by (auto simp: plan_addresses_def p1' Let_def split: sum.splits if_splits)
  have q: "q = p\<lparr>HotspotSubnet := s, Notes := ns, HotspotGateway := gw,
      HotspotStationPrefixes := (if Hotspot p \<noteq> '''' \<and> \<not> HotspotIsVirtual p then foreignPrefixes f (Hotspot p) s
        else HotspotStationPrefixes p), TunSubnet := ts, TunAddr := ta, TunPeer := tp\<rparr>"
    using assms p1 ok by (auto simp: plan_addresses_def p1' Let_def split: if_splits)
  show "q = p\<lparr>HotspotSubnet := HotspotSubnet q, HotspotGateway := HotspotGateway q,
      HotspotStationPrefixes := HotspotStationPrefixes q, TunSubnet := TunSubnet q, TunAddr := TunAddr q,
      TunPeer := TunPeer q, Notes := Notes q\<rparr>"
    by (simp add: q)
  show "if valid_prefix (oHotspotSubnet opt) then HotspotSubnet q = Masked (oHotspotSubnet opt)
     else ChooseSubnet (HotspotPool opt) (OccupiedPrefixes f) = Inr (HotspotSubnet q)"
    "GatewayAddr (HotspotSubnet q) = Inr (HotspotGateway q)"
    "ChooseSubnet (TunnelPool opt) (OccupiedPrefixes f @ [HotspotSubnet q]) = Inr (TunSubnet q)"
    "GatewayAddr (TunSubnet q) = Inr (TunAddr q)" "PeerAddr (TunSubnet q) = Inr (TunPeer q)"
    "Hotspot p \<noteq> '''' \<Longrightarrow> \<not> HotspotIsVirtual p \<Longrightarrow>
       HotspotStationPrefixes q = foreignPrefixes f (Hotspot p) (HotspotSubnet q)"
    using s ok by (simp_all add: q)
qed

lemma plan_servers_frame:
  assumes "plan_servers servers p = Inr q"
  shows "q = p\<lparr>ServerAddr := ServerAddr q, UnpinnableServers := UnpinnableServers q, Notes := Notes q\<rparr>"
    "ServerAddr q = map Unmap (filter IsValid servers)" "ServerAddr q \<noteq> []"
    "UnpinnableServers q = filter (\<lambda>s. \<not> canPin q s) (ServerAddr q)" "\<exists>s \<in> set (ServerAddr q). canPin q s"
proof -
  have pin: "canPin (p\<lparr>ServerAddr := a, UnpinnableServers := b, Notes := n\<rparr>) = canPin p"
    "canPin (p\<lparr>ServerAddr := a\<rparr>) = canPin p" for a b n
    by (simp_all add: canPin_def fun_eq_iff)
  show "q = p\<lparr>ServerAddr := ServerAddr q, UnpinnableServers := UnpinnableServers q, Notes := Notes q\<rparr>"
    "ServerAddr q = map Unmap (filter IsValid servers)" "ServerAddr q \<noteq> []"
    "UnpinnableServers q = filter (\<lambda>s. \<not> canPin q s) (ServerAddr q)"
    using assms by (auto simp: plan_servers_def Let_def pin split: if_splits)
  have "length (filter (\<lambda>s. \<not> canPin p s) (ServerAddr q)) \<noteq> length (ServerAddr q)" "canPin q = canPin p"
    using assms by (auto simp: plan_servers_def Let_def pin split: if_splits)
  then show "\<exists>s \<in> set (ServerAddr q). canPin q s"
    by (metis filter_True)
qed

section \<open>The stages of a plan that was made\<close>

lemma PlanNetwork_stages:
  assumes "PlanNetwork f servers opt = Inr q"
  obtains r c p1 p2 p3 where "choose_uplink f (effective_options opt) = Inr r" "undecided p1"
    "Uplink p1 = dDev r" "Opts p1 = effective_options opt" "Platform p1 = oPlatform (effective_options opt)"
    "chosen_radio (effective_options opt) (dDev r) (apCandidates f (dDev r)) = Some c"
    "c \<in> set (apCandidates f (dDev r))" "acceptHotspot c (effective_options opt) p1 = Inr p2"
    "plan_addresses f (effective_options opt) p2 = Inr p3" "plan_servers servers p3 = Inr q"
proof -
  let ?o = "effective_options opt"
  obtain p0 r p2 p3 where st: "plan_socks f ?o (new_plan f ?o) = Inr p0" "choose_uplink f ?o = Inr r"
    "chooseHotspot f ?o (with_uplink f r p0) = Inr p2" "plan_addresses f ?o p2 = Inr p3" "plan_servers servers p3 = Inr q"
    using assms by (auto simp: PlanNetwork_def Let_def split: if_splits sum.splits)
  obtain sts where p0: "p0 = new_plan f ?o\<lparr>SystemSOCKS := sts\<rparr>"
    using st(1) by (rule plan_socks_frame)
  have up: "Uplink (with_uplink f r p0) = dDev r" "Opts (with_uplink f r p0) = ?o"
    "Platform (with_uplink f r p0) = oPlatform ?o" "undecided p0"
    by (simp_all add: with_uplink_def p0 new_plan_def undecided_def Let_def split: option.splits)
  obtain c where c: "chosen_radio ?o (dDev r) (apCandidates f (dDev r)) = Some c" "c \<in> set (apCandidates f (dDev r))"
    "acceptHotspot c ?o (with_mode f (with_uplink f r p0)) = Inr p2"
    using st(3) chooseHotspot_accepts up(1) by metis
  show thesis
    by (rule that [OF st(2) _ _ _ _ c st(4,5)]) (use up in simp_all)
qed

lemma acceptHotspot_arranges:
  assumes "acceptHotspot c opt p = Inr q" "undecided p" "c \<in> set (apCandidates f (Uplink p))"
  shows "Uplink q = Uplink p" "Opts q = Opts p" "Platform q = Platform p" "HotspotPhy q = phyName (cPhy c)"
    "oPlatform opt \<noteq> PlatformWindows \<Longrightarrow> clear_of_uplink opt q"
    "HotspotBand opt \<noteq> BandAuto \<Longrightarrow> band_honoured (HotspotBand opt) c q"
    "HotspotTakenOver q \<Longrightarrow> wName (cStation c) \<noteq> '''' \<and> \<not> DeclaresAPWithStation (cPhy c) \<and> wName (cStation c) \<noteq> Uplink p"
proof -
  let ?p = "p\<lparr>HotspotPhy := phyName (cPhy c), UsableChannel := UsableChannels (cPhy c)\<rparr>"
  from assms(1) obtain q' ns where q': "accept_branch c opt ?p = Inr q'" and q: "q = q'\<lparr>Notes := ns\<rparr>"
    by (rule acceptHotspot_branch)
  have "undecided ?p" using assms(2) by (simp add: undecided_def)
  note br = accept_branch_arranges [OF q' this, of f]
  have simps: "clear_of_uplink opt q = clear_of_uplink opt q'" "band_honoured b c q = band_honoured b c q'" for b
    by (simp_all add: q clear_of_uplink_def band_honoured_def)
  show "Uplink q = Uplink p" "Opts q = Opts p" "Platform q = Platform p" "HotspotPhy q = phyName (cPhy c)"
    "HotspotTakenOver q \<Longrightarrow> wName (cStation c) \<noteq> '''' \<and> \<not> DeclaresAPWithStation (cPhy c) \<and> wName (cStation c) \<noteq> Uplink p"
    using br assms(3) by (auto simp: q kept_def)
  show "clear_of_uplink opt q" if "oPlatform opt \<noteq> PlatformWindows"
    using br assms(3) that by (simp add: simps)
  show "band_honoured (HotspotBand opt) c q" if "HotspotBand opt \<noteq> BandAuto"
    using br assms(3) that by (simp add: simps)
qed

lemma later_stages_keep:
  assumes "plan_addresses f opt p2 = Inr p3" "plan_servers servers p3 = Inr q"
  shows "Uplink q = Uplink p2" "Opts q = Opts p2" "Platform q = Platform p2" "HotspotPhy q = HotspotPhy p2"
    "clear_of_uplink opt' q = clear_of_uplink opt' p2" "band_honoured b c q = band_honoured b c p2"
    "HotspotTakenOver q = HotspotTakenOver p2" "HotspotSubnet q = HotspotSubnet p3" "HotspotGateway q = HotspotGateway p3"
    "TunSubnet q = TunSubnet p3" "TunAddr q = TunAddr p3" "TunPeer q = TunPeer p3"
proof -
  obtain a u n where q: "q = p3\<lparr>ServerAddr := a, UnpinnableServers := u, Notes := n\<rparr>"
    using plan_servers_frame(1) [OF assms(2)] by blast
  obtain s g h t ta tp n' where p3: "p3 = p2\<lparr>HotspotSubnet := s, HotspotGateway := g, HotspotStationPrefixes := h,
      TunSubnet := t, TunAddr := ta, TunPeer := tp, Notes := n'\<rparr>"
    using plan_addresses_frame(1) [OF assms(1)] by blast
  show "HotspotSubnet q = HotspotSubnet p3" "HotspotGateway q = HotspotGateway p3"
    "TunSubnet q = TunSubnet p3" "TunAddr q = TunAddr p3" "TunPeer q = TunPeer p3"
    by (simp_all add: q)
  show "Uplink q = Uplink p2" "Opts q = Opts p2" "Platform q = Platform p2" "HotspotPhy q = HotspotPhy p2"
    "clear_of_uplink opt' q = clear_of_uplink opt' p2" "band_honoured b c q = band_honoured b c p2"
    "HotspotTakenOver q = HotspotTakenOver p2"
    by (simp_all add: q p3 clear_of_uplink_def band_honoured_def)
qed

lemma PlanNetwork_arranges:
  assumes "PlanNetwork f servers opt = Inr p"
  shows "Opts p = effective_options opt \<and> Platform p = oPlatform (effective_options opt) \<and>
    (oPlatform (effective_options opt) \<noteq> PlatformWindows \<longrightarrow> clear_of_uplink (effective_options opt) p) \<and>
    (\<exists>c \<in> set (apCandidates f (Uplink p)). HotspotPhy p = phyName (cPhy c) \<and>
       chosen_radio (effective_options opt) (Uplink p) (apCandidates f (Uplink p)) = Some c \<and>
       (HotspotBand (effective_options opt) \<noteq> BandAuto \<longrightarrow> band_honoured (HotspotBand (effective_options opt)) c p) \<and>
       (HotspotTakenOver p \<longrightarrow> wName (cStation c) \<noteq> '''' \<and> \<not> DeclaresAPWithStation (cPhy c) \<and> wName (cStation c) \<noteq> Uplink p))"
proof -
  let ?o = "effective_options opt"
  from assms obtain r c p1 p2 p3 where "choose_uplink f ?o = Inr r"
    and st: "undecided p1" "Uplink p1 = dDev r" "Opts p1 = ?o" "Platform p1 = oPlatform ?o"
    "chosen_radio ?o (dDev r) (apCandidates f (dDev r)) = Some c" "c \<in> set (apCandidates f (dDev r))"
    "acceptHotspot c ?o p1 = Inr p2" "plan_addresses f ?o p2 = Inr p3" "plan_servers servers p3 = Inr p"
    by (rule PlanNetwork_stages)
  have c: "c \<in> set (apCandidates f (Uplink p1))" using st by simp
  note ar = acceptHotspot_arranges [OF st(7,1) c] and keep = later_stages_keep [OF st(8,9)]
  show ?thesis
  proof (intro conjI bexI [of _ c] impI)
    show "HotspotTakenOver p \<Longrightarrow> wName (cStation c) \<noteq> ''''" "HotspotTakenOver p \<Longrightarrow> \<not> DeclaresAPWithStation (cPhy c)"
      "HotspotTakenOver p \<Longrightarrow> wName (cStation c) \<noteq> Uplink p"
      using ar(7) ar(1) keep by simp_all
  qed (use st keep ar in simp_all)
qed

section \<open>A machine to try the plans on\<close>

text \<open>A wired uplink, and one radio that is joined to a network and can hold one access point beside it.\<close>

definition sample_phy :: phy where
  "sample_phy = \<lparr>phyName = ''phy0'', phyIndex = 0, phyModes = [''managed'', ''AP''], phyCommands = [],
     phyCombinations = [\<lparr>cRaw = '''', cLimits = [\<lparr>clMax = 1, clTypes = [''managed'']\<rparr>, \<lparr>clMax = 1, clTypes = [''AP'']\<rparr>],
       cTotal = 4, cChannels = 1, cNotes = []\<rparr>],
     phyBands = [\<lparr>bNumber = 1, bFrequencies = [\<lparr>fMHz = 2412, fChannel = 1, fNoIR = False, fDisabled = False, fRadar = False\<rparr>]\<rparr>,
       \<lparr>bNumber = 2, bFrequencies = [\<lparr>fMHz = 5180, fChannel = 36, fNoIR = False, fDisabled = False, fRadar = False\<rparr>]\<rparr>]\<rparr>"

definition sample_facts :: facts where
  "sample_facts = \<lparr>Links = [\<lparr>lName = ''eth0'', lState = ''UP'', lPrefixes = [PrefixFrom (ip4 192 168 1 20) 24], lBus = ''pci''\<rparr>,
       \<lparr>lName = ''wlan0'', lState = ''UP'', lPrefixes = [PrefixFrom (ip4 10 83 51 7) 24], lBus = ''sdio''\<rparr>],
     Routes = [\<lparr>dFamily = 4, dGateway = ip4 192 168 1 1, dDev = ''eth0'', dSrc = NoAddr, dProto = ''dhcp'', dMetric = 100,
       dLinkDown = False, dOnLink = False\<rparr>],
     Wireless = [\<lparr>wName = ''wlan0'', wPhy = ''phy0'', wType = ''managed'', wSSID = ''Home'', wChannel = 36, wFreqMHz = 5180,
       wMAC = '''', wManager = ManagedByNetworkManager, wAssociated = True, wLinkKnown = True\<rparr>],
     Phys = [sample_phy], factsSOCKS = [], SystemSOCKSKnown = False, factsNMPresent = True, factsSysctl = []\<rparr>"

definition sample_options :: options where
  "sample_options = DefaultOptions\<lparr>HotspotBand := Band5GHz\<rparr>"

definition sample_servers :: "addr list" where
  "sample_servers = [ip4 203 0 113 9]"

lemma sample_plan:
  obtains p where "PlanNetwork sample_facts sample_servers sample_options = Inr p" "Hotspot p = ''ap0''" "Uplink p = ''eth0''"
    "HotspotIsVirtual p" "HotspotFallback p = ''wlan0''" "ChannelPinned p" "Channel p = 36" "ServerAddr p = sample_servers"
    "HotspotBand (Opts p) = Band5GHz" "case HotspotTakeover sample_facts p of Inr q \<Rightarrow> Hotspot q = ''wlan0'' \<and> Channel q = 1 | _ \<Rightarrow> False"
proof -
  have ev: "case PlanNetwork sample_facts sample_servers sample_options of Inl e \<Rightarrow> False | Inr p \<Rightarrow>
      Hotspot p = ''ap0'' \<and> Uplink p = ''eth0'' \<and> HotspotIsVirtual p \<and> HotspotFallback p = ''wlan0'' \<and> ChannelPinned p \<and>
      Channel p = 36 \<and> ServerAddr p = sample_servers \<and> HotspotBand (Opts p) = Band5GHz \<and>
      (case HotspotTakeover sample_facts p of Inr q \<Rightarrow> Hotspot q = ''wlan0'' \<and> Channel q = 1 | _ \<Rightarrow> False)"
    by code_simp
  show thesis
  proof (cases "PlanNetwork sample_facts sample_servers sample_options")
    case (Inr p)
    then show thesis using ev by (intro that [OF Inr]) simp_all
  qed (use ev in simp)
qed

definition sample_busy_facts :: facts where
  "sample_busy_facts = sample_facts\<lparr>Phys := [sample_phy\<lparr>phyCombinations := []\<rparr>]\<rparr>"

section \<open>Properties\<close>



text \<open>C15. A plan made for an explicitly chosen band stays in it: an access point that is free to choose gets
  a usable channel of that band on the chosen radio, and one that is pinned to a station's channel is
  only accepted if that channel lies in the band.\<close>

theorem asked_band_is_honoured:
  assumes "PlanNetwork f servers opt = Inr p" "HotspotBand (effective_options opt) \<noteq> BandAuto"
  shows "\<exists>c \<in> set (apCandidates f (Uplink p)). HotspotPhy p = phyName (cPhy c) \<and>
    (if ChannelPinned p
     then Channel p = wChannel (cStation c) \<and> pinned_band (cPhy c) (cStation c) (Channel p) = HotspotBand (Opts p)
     else Channel p \<in> set (UsableChannelsIn (cPhy c) (HotspotBand (Opts p))))"
proof -
  obtain c where "c \<in> set (apCandidates f (Uplink p))" "HotspotPhy p = phyName (cPhy c)"
    "band_honoured (HotspotBand (effective_options opt)) c p" "Opts p = effective_options opt"
    using PlanNetwork_arranges [OF assms(1)] assms(2) by auto
  then show ?thesis
    by (intro bexI [of _ c]) (auto simp: band_honoured_def split: if_splits)
qed

theorem asked_band_is_honoured_witness:
  "\<exists>p. PlanNetwork sample_facts sample_servers sample_options = Inr p \<and> Channel p = 36 \<and>
     (\<exists>c \<in> set (apCandidates sample_facts (Uplink p)). pinned_band (cPhy c) (cStation c) (Channel p) = HotspotBand (Opts p))"
proof -
  obtain p where p: "PlanNetwork sample_facts sample_servers sample_options = Inr p" "ChannelPinned p" "Channel p = 36"
    by (rule sample_plan) (rule that, assumption+)
  have "HotspotBand (effective_options sample_options) \<noteq> BandAuto" by code_simp
  from asked_band_is_honoured [OF p(1) this] p show ?thesis by auto
qed


text \<open>C14. The networks of a plan collide with nothing: unless the user set the hotspot subnet by hand it shares
  no address with a network the machine is on; the tunnel subnet shares none with those or with the
  hotspot; and the addresses the box takes lie inside their subnets.\<close>

theorem plan_networks_are_disjoint:
  assumes "PlanNetwork f servers opt = Inr p"
    and "\<forall>x \<in> set (HotspotPool (Opts p)) \<union> set (TunnelPool (Opts p)) \<union> set (OccupiedPrefixes f) \<union> {oHotspotSubnet (Opts p)}. prefix_wf x"
  shows "(valid_prefix (oHotspotSubnet (Opts p)) \<or> (\<forall>t \<in> set (OccupiedPrefixes f). \<forall>a. \<not> (Contains (HotspotSubnet p) a \<and> Contains t a))) \<and>
    (\<forall>t \<in> insert (HotspotSubnet p) (set (OccupiedPrefixes f)). \<forall>a. \<not> (Contains (TunSubnet p) a \<and> Contains t a)) \<and>
    Contains (HotspotSubnet p) (HotspotGateway p) \<and> Contains (TunSubnet p) (TunAddr p) \<and> Contains (TunSubnet p) (TunPeer p)"
proof -
  let ?o = "effective_options opt"
  from assms(1) obtain r c p1 p2 p3 where "choose_uplink f ?o = Inr r" "undecided p1" "Uplink p1 = dDev r" "Opts p1 = ?o"
    "Platform p1 = oPlatform ?o" "chosen_radio ?o (dDev r) (apCandidates f (dDev r)) = Some c"
    "c \<in> set (apCandidates f (dDev r))" "acceptHotspot c ?o p1 = Inr p2"
    and st: "plan_addresses f ?o p2 = Inr p3" "plan_servers servers p3 = Inr p"
    by (rule PlanNetwork_stages)
  have opts: "Opts p = ?o" using PlanNetwork_arranges [OF assms(1)] by simp
  note keep = later_stages_keep [OF st]
  note fr = plan_addresses_frame [OF st(1)]
  have wfs: "prefix_wf (HotspotSubnet p)"
    using fr(2) assms(2) ChooseSubnet_wf [of "HotspotPool ?o"] Masked_wf by (auto simp: opts keep split: if_splits)
  have "\<not> (Contains (HotspotSubnet p) a \<and> Contains t a)"
    if "\<not> valid_prefix (oHotspotSubnet ?o)" "t \<in> set (OccupiedPrefixes f)" for t a
    using ChooseSubnet_apart [of "HotspotPool ?o" "OccupiedPrefixes f" "HotspotSubnet p3" t a] fr(2) that assms(2)
    by (auto simp: opts keep)
  moreover have "\<not> (Contains (TunSubnet p) a \<and> Contains t a)"
    if "t \<in> insert (HotspotSubnet p) (set (OccupiedPrefixes f))" for t a
    using ChooseSubnet_apart [OF fr(4), of t a] that assms(2) wfs by (auto simp: opts keep)
  ultimately show ?thesis
    using fr(3,5,6) by (auto simp: opts keep dest: GatewayAddr_in PeerAddr_in)
qed

theorem plan_networks_are_disjoint_witness:
  "\<exists>p. PlanNetwork sample_facts sample_servers sample_options = Inr p \<and>
     (\<forall>t \<in> set (OccupiedPrefixes sample_facts). \<forall>a. \<not> (Contains (HotspotSubnet p) a \<and> Contains t a))"
proof -
  obtain p where p: "PlanNetwork sample_facts sample_servers sample_options = Inr p"
    by (rule sample_plan)
  then have o: "Opts p = effective_options sample_options"
    using PlanNetwork_arranges by blast
  have "\<forall>x \<in> set (HotspotPool (Opts p)) \<union> set (TunnelPool (Opts p)) \<union> set (OccupiedPrefixes sample_facts) \<union> {oHotspotSubnet (Opts p)}. prefix_wf x"
    "\<not> valid_prefix (oHotspotSubnet (Opts p))"
    unfolding o by code_simp+
  with plan_networks_are_disjoint [OF p] p show ?thesis by blast
qed

text \<open>
  The servers of a plan are the valid addresses it was given, in order and unmapped; each of them is
  either pinned by a host route or named as unpinnable, never both, and at least one can be pinned. On
  Windows the pinned set leaves the IPv6 addresses out.\<close>

theorem servers_pinned_or_named:
  assumes "PlanNetwork f servers opt = Inr p"
  shows "ServerAddr p = map Unmap (filter IsValid servers) \<and> (\<exists>s \<in> set (ServerAddr p). canPin p s) \<and>
    set (PinnedServers p) \<inter> set (UnpinnableServers p) = {} \<and>
    (if Platform p = PlatformWindows then set (PinnedServers p) = {s \<in> set (ServerAddr p) - set (UnpinnableServers p). \<not> Is6 s}
     else set (ServerAddr p) = set (PinnedServers p) \<union> set (UnpinnableServers p) \<and> PinnedServers p \<noteq> [])"
proof -
  let ?o = "effective_options opt"
  from assms obtain r c p1 p2 p3 where "choose_uplink f ?o = Inr r" "undecided p1" "Uplink p1 = dDev r" "Opts p1 = ?o"
    "Platform p1 = oPlatform ?o" "chosen_radio ?o (dDev r) (apCandidates f (dDev r)) = Some c"
    "c \<in> set (apCandidates f (dDev r))" "acceptHotspot c ?o p1 = Inr p2" "plan_addresses f ?o p2 = Inr p3"
    and st: "plan_servers servers p3 = Inr p"
    by (rule PlanNetwork_stages)
  note fr = plan_servers_frame [OF st]
  show ?thesis
    using fr(5) by (auto simp: fr(2) [symmetric] fr(4) PinnedServers_def filter_empty_conv)
qed

theorem servers_pinned_or_named_witness:
  "\<exists>p. PlanNetwork sample_facts sample_servers sample_options = Inr p \<and>
     (\<exists>s \<in> set (ServerAddr p). canPin p s) \<and> set (PinnedServers p) \<inter> set (UnpinnableServers p) = {}"
proof -
  obtain p where p: "PlanNetwork sample_facts sample_servers sample_options = Inr p"
    by (rule sample_plan)
  with servers_pinned_or_named [OF p] show ?thesis by blast
qed

text \<open>
  Left to choose by itself, the planner ends somebody's Wi-Fi connection only when nothing better is
  there: a plan that takes an interface over means that every radio that could host the access point
  carries a link, and that the only links beside which one of them could host it is the uplink.\<close>

theorem connection_ended_as_last_choice:
  assumes "PlanNetwork f servers opt = Inr p" "HotspotTakenOver p" "HotspotOverride (Opts p) = ''''"
  shows "\<forall>c \<in> set (apCandidates f (Uplink p)). wName (cStation c) \<noteq> '''' \<and>
    (DeclaresAPWithStation (cPhy c) \<longrightarrow> wName (cStation c) = Uplink p)"
proof -
  obtain c where c: "chosen_radio (Opts p) (Uplink p) (apCandidates f (Uplink p)) = Some c"
    "wName (cStation c) \<noteq> ''''" "\<not> DeclaresAPWithStation (cPhy c)"
    using PlanNetwork_arranges [OF assms(1)] assms(2) by auto
  let ?cs = "apCandidates f (Uplink p)" and ?nu = "\<lambda>c. wName (cStation c) \<noteq> Uplink p"
  have "free_cands ?cs = []"
  proof (rule ccontr)
    assume ne: "free_cands ?cs \<noteq> []"
    then have "c \<in> set (free_cands ?cs)"
      using preferUSB_in [OF ne] c(1) assms(3) by (simp add: chosen_radio_def)
    with c(2) show False by (simp add: free_cands_def)
  qed
  moreover have "filter ?nu (shared_cands ?cs) = []"
  proof (rule ccontr)
    assume ne: "filter ?nu (shared_cands ?cs) \<noteq> []"
    then have "c = preferUSB (filter ?nu (shared_cands ?cs))"
      using c(1) assms(3) \<open>free_cands ?cs = []\<close> by (simp add: chosen_radio_def)
    then have "c \<in> set (filter ?nu (shared_cands ?cs))"
      using preferUSB_in [OF ne] by simp
    with c(3) show False by (simp add: shared_cands_def)
  qed
  ultimately show ?thesis
    by (auto simp: free_cands_def shared_cands_def filter_empty_conv)
qed

theorem connection_ended_as_last_choice_witness:
  "list_all (\<lambda>c. wName (cStation c) \<noteq> '''') (apCandidates sample_busy_facts ''eth0'')"
proof -
  have "case PlanNetwork sample_busy_facts sample_servers sample_options of Inl e \<Rightarrow> False | Inr p \<Rightarrow>
      HotspotTakenOver p \<and> HotspotOverride (Opts p) = '''' \<and> Uplink p = ''eth0''"
    by code_simp
  then obtain p where "PlanNetwork sample_busy_facts sample_servers sample_options = Inr p"
    "HotspotTakenOver p" "HotspotOverride (Opts p) = ''''" "Uplink p = ''eth0''"
    by (cases "PlanNetwork sample_busy_facts sample_servers sample_options") simp_all
  with connection_ended_as_last_choice [of sample_busy_facts sample_servers sample_options p] show ?thesis
    by (auto simp: list_all_iff)
qed

text \<open>
  The refusal that asks the user to disconnect an adapter first is never given: a radio that carries a
  link other than the uplink and cannot share is always taken over instead.\<close>

theorem blocked_refusal_is_unreachable: "chooseHotspot f opt p \<noteq> Inl (HotspotNotReleased radio iface)"
proof -
  have ch: "chooseChannel ph b q \<noteq> Inl (HotspotNotReleased radio iface)" for ph b q
    by (auto simp: chooseChannel_def split: list.splits)
  have "refuseBandAgainstPin ph w b q \<noteq> Inl (HotspotNotReleased radio iface)" for ph w b q
    by (auto simp: refuseBandAgainstPin_def Let_def)
  moreover have "name_beside c opt q \<noteq> Inl (HotspotNotReleased radio iface)" for c q
    by (auto simp: name_beside_def Let_def)
  ultimately have "beside_station c opt q \<noteq> Inl (HotspotNotReleased radio iface)" for c q
    using ch by (auto simp: beside_station_def split: sum.splits option.splits)
  moreover have "takeOver c opt q \<noteq> Inl (HotspotNotReleased radio iface)"
    "on_free_iface c opt q \<noteq> Inl (HotspotNotReleased radio iface)"
    "on_bare_radio c opt q \<noteq> Inl (HotspotNotReleased radio iface)" for c q
    using ch by (auto simp: takeOver_def on_free_iface_def on_bare_radio_def Let_def split: sum.splits)
  ultimately have "accept_branch c opt q \<noteq> Inl (HotspotNotReleased radio iface)" for c q
    by (simp add: accept_branch_def)
  then have "acceptHotspot c opt q \<noteq> Inl (HotspotNotReleased radio iface)" for c q
    by (auto simp: acceptHotspot_alt split: sum.splits)
  then show ?thesis
    by (auto simp: chooseHotspot_chosen Let_def split: option.splits)
qed

end
