(* ===== verification/KernelSteps.thy ===== *)
theory KernelSteps
  imports SimProps PlanProps
begin

text \<open>
  The laws of reversible steps hold of the simulated kernel and of every step the Linux backend generates, no two
  steps of a plan touch the same target, and every command keeps the kernel well formed.
\<close>

section \<open>The laws hold\<close>

definition kernel_core :: "sim_kernel \<Rightarrow> (string, string) gomap \<times> string list \<times> (string, string) gomap \<times> string list" where
  "kernel_core k = (kSysctl k, kIfaces k, kIftype k, kUnmanaged k)"

lemma runIP_core: "kernel_core (snd (runIP c k)) = kernel_core k"
proof -
  have "kernel_core (snd (runLinkUp n k)) = kernel_core k" for n
    by (simp add: runLinkUp_def answer_defs kernel_core_def)
  moreover have "kernel_core (snd (runIPAddr a k)) = kernel_core k" for a
    by (simp add: runIPAddr_def answer_defs kernel_core_def Let_def)
  moreover have "kernel_core (snd (runIPRoute f a k)) = kernel_core k" for f a
    by (simp add: runIPRoute_def answer_defs kernel_core_def Let_def)
  moreover have "kernel_core (snd (runIPRule a k)) = kernel_core k" for a
    by (simp add: runIPRule_def answer_defs kernel_core_def Let_def)
  ultimately show ?thesis
    by (simp add: runIP_def runLinkShowDev_snd sim_ok_def Let_def split: prod.splits)
qed

lemma runNft_core: "kernel_core (snd (runNft c k)) = kernel_core k"
  by (simp add: runNft_def answer_defs kernel_core_def Let_def)

lemma run_frames:
  "kIfaces (snd (runSysctl c k)) = kIfaces k" "kIftype (snd (runSysctl c k)) = kIftype k" "kUnmanaged (snd (runSysctl c k)) = kUnmanaged k"
  "kSysctl (snd (runNmcli c k)) = kSysctl k" "kIfaces (snd (runNmcli c k)) = kIfaces k" "kIftype (snd (runNmcli c k)) = kIftype k"
  by (simp_all add: runSysctl_def runNmcli_def answer_defs Let_def)

lemma runIw_frame: "kSysctl (snd (runIw ord c k)) = kSysctl k"
  by (simp add: runIw_def iw_del_def answer_defs Let_def)

lemma kernel_frame:
  "Path c \<noteq> BinSysctl \<Longrightarrow> kSysctl (after (kernel_run ord) c k) = kSysctl k"
  "Path c \<noteq> BinIw \<Longrightarrow> kIfaces (after (kernel_run ord) c k) = kIfaces k"
  "Path c \<noteq> BinIw \<Longrightarrow> kIftype (after (kernel_run ord) c k) = kIftype k"
  "Path c \<noteq> BinIw \<Longrightarrow> Path c \<noteq> BinNmcli \<Longrightarrow> kUnmanaged (after (kernel_run ord) c k) = kUnmanaged k"
  using runIP_core [of c "k\<lparr>kCmds := kCmds k @ [c]\<rparr>"] runNft_core [of c "k\<lparr>kCmds := kCmds k @ [c]\<rparr>"]
  by (cases "ValidateCommand c"; simp add: after_def kernel_run_def Let_def run_frames runIw_frame kernel_core_def)+

lemma retype_unmanaged:
  "kUnmanaged (after (kernel_run ord) (mk_command BinIw [''dev'', d, ''set'', ''type'', t] w) k) = kUnmanaged k"
proof (cases "ValidateCommand (mk_command BinIw [''dev'', d, ''set'', ''type'', t] w)")
  case None
  then show ?thesis by (simp add: after_def kernel_valid runIw_def answer_defs Let_def)
qed (simp add: kernel_invalid)

lemma sysctl_other:
  assumes "CHR ''='' \<notin> set knob'" "knob \<noteq> knob'"
  shows "map_of (kSysctl (after (kernel_run ord) (mk_command BinSysctl [''-w'', knob' @ ''='' @ v] w) k)) knob = map_of (kSysctl k) knob"
proof (cases "nul_free knob' \<and> nul_free v")
  case True
  then show ?thesis
    using assms sysctl_after [OF assms(1), of v ord w k]
    by (simp add: after_def sim_ok_def AList.update_conv' del: append_Cons append.simps)
next
  case False
  then show ?thesis using kernel_bad_args(1) [of "[''-w'', knob' @ ''='' @ v]" ord BinSysctl w k] by auto
qed

lemma fits_kernel_reverts:
  assumes "fits_kernel p st (machine_view p k)"
  shows "reverts (kernel_run ord) (machine_view p) st k"
  using assms
proof cases
  case (down why w1 d w2)
  then show ?thesis using link_up_neutral link_down_neutral by (auto intro!: neutral_reverts)
next
  case (up why w1 d)
  then show ?thesis using link_up_neutral by (auto intro!: neutral_reverts)
next
  case (create why phy w1 w2)
  then show ?thesis
    by (intro create_reverts [of p k st phy w1 w2]) (auto simp: machine_view_sel)
next
  case (sysctl knob prev why val w1 w2)
  then show ?thesis using sysctl_reverts [of k knob prev] by (simp add: machine_view_sel)
qed (auto simp: machine_view_sel unmanaged_view_def intro!: nft_reverts release_created_reverts release_reverts
    strip_reverts retype_reverts addr_reverts route_reverts rule_reverts)

lemma fits_kernel_after:
  assumes "fits_kernel p st (machine_view p k)" "fits_kernel p st' (machine_view p k)" "\<not> steps_clash st st'"
  shows "fits_kernel p st' (machine_view p (after (kernel_run ord) (Do st) k))"
  using assms(2)
proof cases
  case (sysctl knob prev why val w1 w2)
  have "map_of (kSysctl (after (kernel_run ord) (Do st) k)) knob = map_of (kSysctl k) knob"
  proof (cases "Path (Do st) = BinSysctl")
    case True
    with assms(1) obtain knob' val' w where st: "Do st = mk_command BinSysctl [''-w'', knob' @ ''='' @ val'] w" "CHR ''='' \<notin> set knob'"
      by cases (auto simp: nft_load_def)
    then have "knob \<noteq> knob'"
      using assms(3) sysctl by (auto simp: steps_clash_def step_target_def cut_setting(1) simp del: append_Cons append.simps)
    with st show ?thesis by (simp add: sysctl_other del: append_Cons append.simps)
  qed (simp add: kernel_frame)
  with sysctl show ?thesis by (simp add: machine_view_sel fits_kernel.sysctl del: append_Cons append.simps)
next
  case (create why phy w1 w2)
  then have "Path (Do st) \<noteq> BinIw" using assms(3) by (auto simp: steps_clash_def step_target_def)
  with create show ?thesis by (simp add: machine_view_sel kernel_frame fits_kernel.create)
next
  case (release d why w1 w2)
  then have "Path (Do st) \<noteq> BinNmcli" using assms(3) by (auto simp: steps_clash_def step_target_def)
  then have "kUnmanaged (after (kernel_run ord) (Do st) k) = kUnmanaged k"
  proof (cases "Path (Do st) = BinIw")
    case True
    with assms(1) release(2) show ?thesis by cases (auto simp: retype_unmanaged nft_load_def)
  qed (simp add: kernel_frame)
  with release show ?thesis by (simp add: machine_view_sel unmanaged_view_def fits_kernel.release)
next
  case (retype d why t w1 w2)
  then have "Path (Do st) \<noteq> BinIw" using assms(3) by (auto simp: steps_clash_def step_target_def)
  with retype show ?thesis by (simp add: machine_view_sel kernel_frame fits_kernel.retype)
qed (auto intro: fits_kernel.intros)

lemma query_neutral: "neutral (kernel_run ord) (machine_view p) (Query (ifacePresent n))"
  unfolding neutral_def
proof
  fix k
  show "machine_view p (after (kernel_run ord) (Query (ifacePresent n)) k) = machine_view p k"
    using kernel_bad_args(1) [of "[''-br'', ''link'', ''show'', ''dev'', n]" ord BinIP _ k]
    by (cases "nul_free n")
      (auto simp: ifacePresent_def after_def kernel_valid ValidateCommand_mk runIP_def has_prefix_def runLinkShowDev_snd Let_def)
qed

interpretation kernel: reversible_steps "kernel_run ord" "machine_view p" "fits_kernel p" steps_clash for ord p
proof
  show "machine_view p k1 = machine_view p k2 \<Longrightarrow>
      machine_view p (after (kernel_run ord) c k1) = machine_view p (after (kernel_run ord) c k2)" for k1 k2 c
    by (rule kernel_run_view)
  show "fits_kernel p st (machine_view p w) \<Longrightarrow> reverts (kernel_run ord) (machine_view p) st w" for st w
    by (rule fits_kernel_reverts)
  show "fits_kernel p st v \<Longrightarrow> Op st = OpNft \<Longrightarrow>
      neutral (kernel_run ord) (machine_view p) (Do st) \<and> neutral (kernel_run ord) (machine_view p) (Undo st)" for st v
    by (erule fits_kernel.cases) (simp_all add: op_defs nft_neutral)
  show "fits_kernel p st v \<Longrightarrow> Pre st = Some q \<Longrightarrow> neutral (kernel_run ord) (machine_view p) (Query q)" for st v q
    by (erule fits_kernel.cases) (auto simp: query_neutral)
  show "fits_kernel p st (machine_view p w) \<Longrightarrow> fits_kernel p st' (machine_view p w) \<Longrightarrow> \<not> steps_clash st st' \<Longrightarrow>
      fits_kernel p st' (machine_view p (after (kernel_run ord) (Do st) w))" for st st' w
    by (rule fits_kernel_after)
qed

section \<open>The generated steps fit\<close>

definition arranged :: "plan \<Rightarrow> bool" where
  "arranged q \<longleftrightarrow> (HotspotIsVirtual q \<longrightarrow> \<not> HotspotTakenOver q \<and> HotspotManager q = ManagedByUnknown)"

lemma chooseChannel_arranged: "chooseChannel ph b p = Inr q \<Longrightarrow> arranged p \<Longrightarrow> arranged q"
  by (subst chooseChannel_frame(1)) (simp_all add: arranged_def)

lemma name_beside_arranged: "name_beside c opt p = Inr q \<Longrightarrow> undecided p \<Longrightarrow> arranged q"
  by (auto simp: name_beside_def arranged_def undecided_def Let_def split: if_splits)

lemma takeOver_arranged:
  assumes "takeOver c opt p = Inr q"
  shows "arranged q"
proof -
  let ?p = "p\<lparr>Hotspot := wName (cStation c), HotspotIsVirtual := False, HotspotTakenOver := True, HotspotParent := '''',
    HotspotFallback := '''', HotspotManager := wManager (cStation c), ChannelPinned := False\<rparr>"
  obtain r ns where r: "chooseChannel (cPhy c) (HotspotBand opt) ?p = Inr r" and q: "q = r\<lparr>Notes := ns\<rparr>"
    using assms(1) by (auto simp: takeOver_def Let_def split: if_splits sum.splits)
  have "arranged r" by (rule chooseChannel_arranged [OF r]) (simp add: arranged_def)
  then show ?thesis by (simp add: q arranged_def)
qed

lemma beside_station_arranged:
  assumes "beside_station c opt p = Inr q" "undecided p"
  shows "arranged q"
proof -
  obtain p1 where p1: "name_beside c opt p = Inr p1" and ex: "\<exists>ch pin ns. q = p1\<lparr>Channel := ch, ChannelPinned := pin, Notes := ns\<rparr>"
    using beside_station_frame [OF assms(1)] by metis
  from ex obtain ch pin ns where "q = p1\<lparr>Channel := ch, ChannelPinned := pin, Notes := ns\<rparr>" by blast
  with name_beside_arranged [OF p1 assms(2)] show ?thesis by (simp add: arranged_def)
qed

lemma on_radio_arranged:
  assumes "on_free_iface c opt p = Inr q \<or> on_bare_radio c opt p = Inr q" "undecided p"
  shows "arranged q"
proof -
  obtain r where r: "chooseChannel (cPhy c) (HotspotBand opt) r = Inr q"
    "r = p\<lparr>Hotspot := wName (cIface c), HotspotManager := wManager (cIface c)\<rparr> \<or>
     r = p\<lparr>Hotspot := ap_name opt, HotspotIsVirtual := True, HotspotManager := ManagedByUnknown\<rparr>"
    using assms(1) by (auto simp: on_free_iface_def on_bare_radio_def split: if_splits)
  from r(2) assms(2) have "arranged r" by (auto simp: arranged_def undecided_def)
  with r(1) show ?thesis by (rule chooseChannel_arranged)
qed

lemma accept_branch_arranged:
  assumes "accept_branch c opt p = Inr q" "undecided p"
  shows "arranged q"
  using assms takeOver_arranged [of c opt p q] beside_station_arranged [of c opt p q] on_radio_arranged [of c opt p q]
  by (simp add: accept_branch_def split: if_splits)

lemma PlanNetwork_arranged:
  assumes "PlanNetwork f servers opt = Inr q"
  shows "arranged q"
proof -
  from assms obtain r c p1 p2 p3 where st: "undecided p1" "acceptHotspot c (effective_options opt) p1 = Inr p2"
    "plan_addresses f (effective_options opt) p2 = Inr p3" "plan_servers servers p3 = Inr q"
    by (rule PlanNetwork_stages) (rule that, assumption+)
  obtain q' ns where q': "accept_branch c (effective_options opt) (p1\<lparr>HotspotPhy := phyName (cPhy c), UsableChannel := UsableChannels (cPhy c)\<rparr>) = Inr q'"
    "p2 = q'\<lparr>Notes := ns\<rparr>" by (rule acceptHotspot_branch [OF st(2)])
  have "arranged q'" using accept_branch_arranged [OF q'(1)] st(1) by (simp add: undecided_def)
  moreover obtain a u n where q: "q = p3\<lparr>ServerAddr := a, UnpinnableServers := u, Notes := n\<rparr>"
    using plan_servers_frame(1) [OF st(4)] by blast
  moreover obtain s g h t ta tp n' where p3: "p3 = p2\<lparr>HotspotSubnet := s, HotspotGateway := g, HotspotStationPrefixes := h,
      TunSubnet := t, TunAddr := ta, TunPeer := tp, Notes := n'\<rparr>"
    using plan_addresses_frame(1) [OF st(3)] by blast
  ultimately show ?thesis by (simp add: q'(2) arranged_def)
qed

lemma HotspotTakeover_arranged: "HotspotTakeover f p = Inr q \<Longrightarrow> arranged q"
  by (auto simp: HotspotTakeover_def taken_over_plan_def arranged_def split: if_splits option.splits interface_manager.splits)

definition clean_start :: "plan \<Rightarrow> (string, string) gomap \<Rightarrow> sim_kernel \<Rightarrow> bool" where
  "clean_start p current k \<longleftrightarrow>
     (HotspotIsVirtual p \<longrightarrow> Hotspot p \<notin> set (kIfaces k)) \<and>
     (HotspotManager p = ManagedByNetworkManager \<longrightarrow> Hotspot p \<notin> set (kUnmanaged k)) \<and>
     (HotspotTakenOver p \<longrightarrow> map_of (kIftype k) (Hotspot p) = Some ''managed'') \<and>
     (\<forall>knob \<in> set BaseSysctlKnobs. map_of current knob = map_of (kSysctl k) knob \<and>
        (case map_of current knob of None \<Rightarrow> False | Some v \<Rightarrow> nul_free v))"

definition kernel_wf :: "sim_kernel \<Rightarrow> bool" where
  "kernel_wf k \<longleftrightarrow> distinct (kAddrs k) \<and> distinct (kRoutes k) \<and> set (kUnmanaged k) \<subseteq> set (kIfaces k) \<and>
     fst ` set (kIftype k) \<subseteq> set (kIfaces k)"

lemma knob_shape:
  assumes "clean_start p current k" "knob \<in> set BaseSysctlKnobs"
  shows "fits_kernel p (sysctlStep knob v current why) (machine_view p k)"
proof -
  obtain prev where "map_of current knob = Some prev" "map_of (kSysctl k) knob = Some prev" "nul_free prev"
    using assms by (auto simp: clean_start_def split: option.splits)
  moreover have "CHR ''='' \<notin> set knob" using assms(2) by (auto simp: BaseSysctlKnobs_def)
  ultimately show ?thesis
    unfolding sysctlStep_def Let_def by (simp add: machine_view_sel fits_kernel.sysctl del: append_Cons append.simps)
qed

lemma SysctlSteps_fit:
  assumes "clean_start p current k"
  shows "\<forall>st \<in> set (SysctlSteps p current). fits_kernel p st (machine_view p k)"
proof -
  have "\<forall>st \<in> set (SysctlSteps p current). \<exists>knob \<in> set BaseSysctlKnobs. \<exists>v why. st = sysctlStep knob v current why"
    unfolding SysctlSteps_def Let_def BaseSysctlKnobs_def by (cases "IPv6 (Opts p)") (simp, blast)+
  with knob_shape [OF assms] show ?thesis by metis
qed

lemma VirtualIfaceSteps_fit:
  assumes "clean_start p current k" "kernel_wf k"
  shows "\<forall>st \<in> set (VirtualIfaceSteps p). fits_kernel p st (machine_view p k)"
proof (cases "HotspotIsVirtual p")
  case True
  then have "Hotspot p \<notin> set (mIfaces (machine_view p k))" "Hotspot p \<notin> fst ` set (mIftype (machine_view p k))"
    using assms by (auto simp: clean_start_def kernel_wf_def machine_view_sel)
  with True show ?thesis by (auto simp: VirtualIfaceSteps_def Let_def intro: fits_kernel.create fits_kernel.release_created)
qed (simp add: VirtualIfaceSteps_def)

lemma HotspotReleaseSteps_fit:
  assumes "clean_start p current k" "arranged p"
  shows "\<forall>st \<in> set (HotspotReleaseSteps p). fits_kernel p st (machine_view p k)"
proof -
  have "fits_kernel p (release_from_manager p) (machine_view p k)" if "HotspotManager p = ManagedByNetworkManager"
    using that assms unfolding release_from_manager_def Let_def
    by (intro fits_kernel.release) (auto simp: clean_start_def arranged_def machine_view_sel unmanaged_view_def)
  moreover have "fits_kernel p st (machine_view p k)" if "HotspotTakenOver p" "st \<in> set (retype_steps p)" for st
    using that assms unfolding retype_steps_def Let_def
    by (auto simp: clean_start_def arranged_def machine_view_sel intro: fits_kernel.down fits_kernel.retype)
  moreover have "fits_kernel p (strip_prefix p pfx) (machine_view p k)" for pfx
    unfolding strip_prefix_def Let_def by (rule fits_kernel.strip)
  ultimately show ?thesis by (auto simp: HotspotReleaseSteps_def split: if_splits)
qed

lemma HotspotAddrSteps_fit: "\<forall>st \<in> set (HotspotAddrSteps p). fits_kernel p st v"
  by (auto simp: HotspotAddrSteps_def Let_def intro: fits_kernel.up fits_kernel.addr)

lemma TunnelAddrSteps_fit: "\<forall>st \<in> set (TunnelAddrSteps p). fits_kernel p st v"
  by (auto simp: TunnelAddrSteps_def Let_def intro: fits_kernel.addr)

lemma argAfter_const: "key \<notin> set r \<Longrightarrow> argAfter r key = ''''"
  by (induction r key rule: argAfter.induct) auto

text \<open>The kernel reads the routing table off the word after \<open>table\<close>: no interface carries that name.\<close>

definition ordinary_names :: "plan \<Rightarrow> bool" where
  "ordinary_names p \<longleftrightarrow> ''table'' \<notin> {Uplink p, UplinkV6Dev p, Hotspot p, Tun p}"

lemma ServerRouteSteps_fit:
  assumes "ordinary_names p"
  shows "\<forall>st \<in> set (ServerRouteSteps p). fits_kernel p st v"
proof
  fix st assume "st \<in> set (ServerRouteSteps p)"
  then obtain s where st: "st = mk_step OpRoute serverRouteWhy (ipCmd serverRouteWhy (hostRouteArgs p ''add'' s))
      (ipCmd ''remove the pinned host route'' (hostRouteArgs p ''del'' s))"
    by (auto simp: ServerRouteSteps_def)
  define gw where "gw = (if Is6 s then UplinkV6Gw p else UplinkGateway p)"
  define dev where "dev = (if Is6 s then (if UplinkV6Dev p = '''' then Uplink p else UplinkV6Dev p) else Uplink p)"
  define via where "via = (if \<not> (if Is6 s then \<not> IsValid gw else UplinkOnLink p) \<and> IsValid gw then [''via'', addr_string gw] else [])"
  define x where "x = prefix_string (PrefixFrom s (if Is6 s then 128 else 32))"
  define m where "m = int_to_string pinnedRouteMetric"
  have args: "hostRouteArgs p verb s = (if Is6 s then [''-6''] else []) @ ''route'' # verb # x # via @ [''dev'', dev] @
      (if verb = ''add'' then [''proto'', ''static''] else []) @ [''metric'', m]" for verb
    by (simp add: hostRouteArgs_def Let_def gw_def dev_def via_def x_def m_def)
  have tail: "argAfter (x # via @ [''dev'', dev] @ r @ [''metric'', m]) ''table'' =
      argAfter (x # via @ [''dev'', dev] @ [''metric'', m]) ''table''" if "r = [] \<or> r = [''proto'', ''static'']" for r
    using that assms by (auto simp: via_def dev_def ordinary_names_def)
  show "fits_kernel p st v"
    unfolding st args by (rule fits_kernel.route) (use tail [of "[''proto'', ''static'']"] in \<open>auto simp: list_all_iff\<close>)
qed

lemma TunnelRouteSteps_fit:
  assumes "ordinary_names p"
  shows "\<forall>st \<in> set (TunnelRouteSteps p). fits_kernel p st v"
proof -
  have prio: "int_to_string i \<noteq> ''''" for i by (simp add: int_to_string_def)
  have route: "fits_kernel p (mk_step OpRoute why (ipCmd w1 (''route'' # ''add'' # x # r1)) (ipCmd w2 (''route'' # ''del'' # x # r2))) v"
    if "argAfter (x # r1) ''table'' = argAfter (x # r2) ''table''" "list_all nul_free r1 = list_all nul_free r2" for why w1 w2 x r1 r2
    using fits_kernel.route [of "[]" x r1 r2] that by simp
  have "fits_kernel p (half_step p half) v" for half
    unfolding half_step_def by (rule route) (use assms in \<open>auto simp: list_all_iff ordinary_names_def\<close>)
  then show ?thesis
    unfolding TunnelRouteSteps_def Let_def using prio assms
    by (auto intro!: route fits_kernel.rule simp: list_all_iff argAfter_const ordinary_names_def split: if_splits)
qed

section \<open>No two steps of a plan touch the same target\<close>

lemma sorted_no_clash: "distinct (List.map_filter step_target sts) \<Longrightarrow> sorted_wrt (\<lambda>a b. \<not> steps_clash a b) sts"
proof (induction sts)
  case (Cons a sts)
  have "\<not> steps_clash a b" if "b \<in> set sts" for b
    using that Cons.prems
    by (cases "step_target a") (auto simp: steps_clash_def List.map_filter_def image_iff split: option.splits if_splits, metis option.sel option.simps(3))
  moreover have "distinct (List.map_filter step_target sts)"
    using Cons.prems by (auto simp: List.map_filter_def split: if_splits)
  ultimately show ?case using Cons.IH by simp
qed simp

lemma map_filter_simps [simp]:
  "List.map_filter f [] = []" "List.map_filter f (x # xs) = (case f x of None \<Rightarrow> List.map_filter f xs | Some y \<Rightarrow> y # List.map_filter f xs)"
  "List.map_filter f (xs @ ys) = List.map_filter f xs @ List.map_filter f ys"
  by (simp_all add: List.map_filter_def split: option.splits)

lemma map_filter_None: "\<forall>x \<in> set xs. f x = None \<Longrightarrow> List.map_filter f xs = []"
  by (induction xs) auto

lemma step_target_ip [simp]: "Path (Do st) = BinIP \<Longrightarrow> step_target st = None"
  by (simp add: step_target_def)

lemma targets_ip:
  "List.map_filter step_target (HotspotAddrSteps p) = []" "List.map_filter step_target (ServerRouteSteps p) = []"
  "List.map_filter step_target (TunnelAddrSteps p) = []" "List.map_filter step_target (TunnelRouteSteps p) = []"
  "List.map_filter step_target (map (strip_prefix p) pfxs) = []"
  by (intro map_filter_None; auto simp: HotspotAddrSteps_def ServerRouteSteps_def TunnelAddrSteps_def TunnelRouteSteps_def
      half_step_def strip_prefix_def Let_def)+

lemma target_firewall: "step_target (FirewallStep p) = None"
  by (simp add: step_target_def FirewallStep_def nft_step_def nft_load_def)

lemma target_sysctl: "knob \<in> set BaseSysctlKnobs \<Longrightarrow> step_target (sysctlStep knob v current why) = Some knob"
  using cut_setting(1) [of knob v]
  by (auto simp: step_target_def sysctlStep_def Let_def BaseSysctlKnobs_def split: option.splits)

lemma targets_sysctl: "List.map_filter step_target (SysctlSteps p current) = BaseSysctlKnobs"
  using target_sysctl
  by (cases "IPv6 (Opts p)") (simp_all add: SysctlSteps_def Let_def BaseSysctlKnobs_def)

lemma targets_virtual:
  "List.map_filter step_target (VirtualIfaceSteps p) \<in> (if HotspotIsVirtual p then {[], [BinIw], [BinIw, BinNmcli]} else {[]})"
  by (auto simp: VirtualIfaceSteps_def Let_def step_target_def)

lemma targets_release:
  assumes "arranged p"
  shows "List.map_filter step_target (HotspotReleaseSteps p) \<in>
    (if HotspotIsVirtual p then {[]} else {[], [BinIw], [BinNmcli], [BinNmcli, BinIw]})"
  using assms
  by (auto simp: HotspotReleaseSteps_def arranged_def targets_ip release_from_manager_def retype_steps_def step_target_def Let_def)

lemma pre_steps_ready:
  assumes "clean_start p current k" "kernel_wf k" "arranged p" "ordinary_names p"
  shows "ready_steps (fits_kernel p) steps_clash (linuxPreEngineSteps p current) (machine_view p k)"
  unfolding ready_steps_def
proof
  have "fits_kernel p (FirewallStep p) (machine_view p k)"
    unfolding FirewallStep_def nft_step_def by (rule fits_kernel.nft)
  with assms SysctlSteps_fit VirtualIfaceSteps_fit HotspotReleaseSteps_fit HotspotAddrSteps_fit ServerRouteSteps_fit
  show "\<forall>st \<in> set (linuxPreEngineSteps p current). fits_kernel p st (machine_view p k)"
    unfolding linuxPreEngineSteps_def by (metis Un_iff set_append list.set_intros(1) set_ConsD empty_iff empty_set)
  have "BinIw \<notin> set BaseSysctlKnobs" "BinNmcli \<notin> set BaseSysctlKnobs" "distinct BaseSysctlKnobs"
    by (simp_all add: BaseSysctlKnobs_def bin_defs)
  then have "distinct (List.map_filter step_target (linuxPreEngineSteps p current))"
    using targets_virtual [of p] targets_release [OF assms(3)]
    by (auto simp: linuxPreEngineSteps_def targets_ip target_firewall targets_sysctl split: if_splits)
  then show "sorted_wrt (\<lambda>a b. \<not> steps_clash a b) (linuxPreEngineSteps p current)" by (rule sorted_no_clash)
qed

lemma post_steps_ready:
  assumes "ordinary_names p"
  shows "ready_steps (fits_kernel p) steps_clash (linuxPostEngineSteps p current) v"
  unfolding ready_steps_def
proof
  show "\<forall>st \<in> set (linuxPostEngineSteps p current). fits_kernel p st v"
    using TunnelAddrSteps_fit TunnelRouteSteps_fit [OF assms] by (auto simp: linuxPostEngineSteps_def)
  show "sorted_wrt (\<lambda>a b. \<not> steps_clash a b) (linuxPostEngineSteps p current)"
    by (rule sorted_no_clash) (simp add: linuxPostEngineSteps_def targets_ip)
qed

section \<open>Every command keeps the kernel well formed\<close>

lemma distinct_set_true: "distinct xs \<Longrightarrow> distinct (set_true x xs)"
  by (simp add: set_true_def)

lemma set_set_flag: "set (set_flag x b xs) = (if b then insert x (set xs) else set xs - {x})"
  by (auto simp: set_flag_def set_true_def)

lemma fst_update: "fst ` set (AList.update x v m) = insert x (fst ` set m)"
  using AList.dom_update [of x v m] by (simp add: dom_map_of_conv_image_fst)

lemma runIP_wf: "kernel_wf k \<Longrightarrow> kernel_wf (snd (runIP c k))"
proof -
  assume wf: "kernel_wf k"
  have "kernel_wf (snd (runLinkUp n k))" "kernel_wf (snd (runIPAddr a k))" "kernel_wf (snd (runIPRoute f a k))"
    "kernel_wf (snd (runIPRule a k))" for n a f
    using wf by (auto simp: kernel_wf_def runLinkUp_def runIPAddr_def runIPRoute_def runIPRule_def answer_defs Let_def distinct_removeAll)
  with wf show ?thesis by (simp add: runIP_def runLinkShowDev_snd sim_ok_def Let_def split: prod.splits)
qed

lemma kernel_keeps_wf: "keeps (kernel_run ord) kernel_wf"
  unfolding keeps_def
proof (intro allI impI)
  fix c k assume wf: "kernel_wf k"
  have wf': "kernel_wf (k\<lparr>kCmds := xs\<rparr>)" for xs using wf by (simp add: kernel_wf_def)
  have "kernel_wf (snd (runNft c k))" "kernel_wf (snd (runSysctl c k))" if "kernel_wf k" for k
    using that by (simp_all add: kernel_wf_def runNft_def runSysctl_def answer_defs Let_def)
  moreover have "kernel_wf (snd (runNmcli c k))" if "kernel_wf k" for k
    using that by (auto simp: kernel_wf_def runNmcli_def answer_defs set_set_flag Let_def)
  moreover have "kernel_wf (snd (runIw ord c k))" if "kernel_wf k" for k
    using that by (auto simp: kernel_wf_def runIw_def iw_del_def answer_defs fst_update set_delete Let_def)
  ultimately show "kernel_wf (after (kernel_run ord) c k)"
    using wf wf' runIP_wf by (cases "ValidateCommand c") (simp_all add: after_def kernel_run_def Let_def)
qed

lemma NewSimulatedKernel_wf: "kernel_wf (NewSimulatedKernel ns)"
proof -
  have add: "kernel_wf k \<Longrightarrow> kernel_wf (add_iface n k)" for n k
    by (auto simp: kernel_wf_def add_iface_def set_true_def fst_update)
  have fold: "kernel_wf k \<Longrightarrow> kernel_wf (fold add_iface ns k)" for k
    by (induction ns arbitrary: k) (simp_all add: add)
  show ?thesis unfolding NewSimulatedKernel_def by (rule fold) (simp add: kernel_wf_def)
qed

lemma sort_mset_cong: "mset xs = mset ys \<Longrightarrow> sort xs = sort (ys :: string list)"
  by (rule properties_for_sort) simp_all

lemma Snapshot_view:
  assumes "machine_view p k1 = machine_view p k2" "kernel_wf k1" "kernel_wf k2" "HotspotIsVirtual p \<longrightarrow> Hotspot p \<notin> set (kIfaces k1)"
  shows "Snapshot k1 = Snapshot k2"
proof -
  have v: "set (kAddrs k1) = set (kAddrs k2)" "set (kRoutes k1) = set (kRoutes k2)" "kRules k1 = kRules k2" "kSysctl k1 = kSysctl k2"
    "kIfaces k1 = kIfaces k2" "unmanaged_view p (kUnmanaged k1) = unmanaged_view p (kUnmanaged k2)" "kIftype k1 = kIftype k2"
    using assms(1) by (simp_all add: machine_view_eq_iff)
  have m: "mset (kAddrs k1) = mset (kAddrs k2)" "mset (kRoutes k1) = mset (kRoutes k2)"
    using v(1,2) assms(2,3) by (simp_all add: kernel_wf_def set_eq_iff_mset_eq_distinct)
  have u: "kUnmanaged k1 = kUnmanaged k2"
  proof (cases "HotspotIsVirtual p")
    case True
    then have "Hotspot p \<notin> set (kUnmanaged k1)" "Hotspot p \<notin> set (kUnmanaged k2)"
      using assms(2-4) v(5) by (auto simp: kernel_wf_def)
    with v(6) True show ?thesis by (simp add: unmanaged_view_def)
  qed (use v(6) in \<open>simp add: unmanaged_view_def\<close>)
  have "mset (map f (kAddrs k1)) = mset (map f (kAddrs k2))" "mset (map f (kRoutes k1)) = mset (map f (kRoutes k2))"
    for f :: "string \<times> string \<Rightarrow> string"
    using m by simp_all
  then show ?thesis
    unfolding Snapshot_def v(3-5,7) u by (intro sort_mset_cong) (simp only: mset_append)
qed

end
