(* ===== verification/RoundTrip.thy ===== *)
theory RoundTrip
  imports KernelSteps
begin

text \<open>
  The whole machine's round trip: whatever is refused on the way, a teardown gives the machine back as its
  \<open>Snapshot\<close> showed it.
\<close>

section \<open>The round trip\<close>

definition applied :: "'w runner \<Rightarrow> step list list \<Rightarrow> 'w host \<Rightarrow> 'w host" where
  "applied run batches s = fold (\<lambda>b s. snd (Apply run b s)) batches s"

lemma applied_unwinds:
  assumes "clean_start p current (world s)" "kernel_wf (world s)" "arranged p" "ordinary_names p" "host_ok s"
    "load_entries (jfile s) = []" "prefix batches [linuxPreEngineSteps p current, linuxPostEngineSteps p current]"
  shows "host_ok (applied (kernel_run ord) batches s) \<and> kernel_wf (world (applied (kernel_run ord) batches s)) \<and>
    unwinds (kernel_run ord) (machine_view p) (load_entries (jfile (applied (kernel_run ord) batches s)))
      (world (applied (kernel_run ord) batches s)) (machine_view p (world s))"
proof -
  let ?run = "kernel_run ord"
  have u0: "unwinds ?run (machine_view p) (load_entries (jfile s)) (world s) (machine_view p (world s))"
    by (simp add: assms(6) unwinds_Nil)
  define s1 where "s1 = snd (Apply ?run (linuxPreEngineSteps p current) s)"
  note s1 = kernel.Apply_unwinds [OF assms(5) pre_steps_ready [OF assms(1-4)] u0, folded s1_def]
  then have "kernel_wf (world s1)"
    unfolding s1_def using Apply_keeps [OF kernel_keeps_wf assms(2)] assms(5) by (simp add: host_ok_def)
  define s2 where "s2 = snd (Apply ?run (linuxPostEngineSteps p current) s1)"
  have s2: "host_ok s2 \<and> unwinds ?run (machine_view p) (load_entries (jfile s2)) (world s2) (machine_view p (world s))"
    unfolding s2_def using s1 by (intro kernel.Apply_unwinds [OF _ post_steps_ready [OF assms(4)]]) blast+
  have "kernel_wf (world s2)"
    unfolding s2_def using Apply_keeps [OF kernel_keeps_wf \<open>kernel_wf (world s1)\<close>] s1 by (simp add: host_ok_def)
  moreover have "batches \<in> {[], [linuxPreEngineSteps p current], [linuxPreEngineSteps p current, linuxPostEngineSteps p current]}"
    using assms(7) by (auto simp: prefix_Cons)
  ultimately show ?thesis
    using s1 s2 \<open>kernel_wf (world s1)\<close> u0 assms(2,5) by (auto simp: applied_def s1_def s2_def)
qed

text \<open>C1. Applying a plan to a Linux machine and tearing it down again gives the machine back: on the simulated kernel,
  after the steps before the engine, or those and the steps after it, a teardown leaves every address, route, rule,
  knob, interface, interface type and management flag of the snapshot as it was before, whichever commands the
  kernel refused on the way and wherever the apply stopped.\<close>

theorem teardown_restores_machine:
  assumes "PlanNetwork f servers opt = Inr p \<or> HotspotTakeover f q = Inr p" "ordinary_names p"
    and "clean_start p current (world s)" "kernel_wf (world s)" "host_ok s" "load_entries (jfile s) = []"
    and "prefix batches [linuxPreEngineSteps p current, linuxPostEngineSteps p current]"
  shows "Snapshot (world (snd (Teardown (kernel_run ord) (applied (kernel_run ord) batches s)))) = Snapshot (world s)"
proof -
  let ?s = "applied (kernel_run ord) batches s"
  have "arranged p" using assms(1) PlanNetwork_arranged HotspotTakeover_arranged by blast
  note un = applied_unwinds [OF assms(3,4) this assms(2,5-7), of ord]
  then have d: "disk ?s = []" by (simp add: host_ok_def)
  obtain r s' where t: "Teardown (kernel_run ord) ?s = (r, s')" by fastforce
  have v: "machine_view p (world s') = machine_view p (world s)" 
    by (rule Teardown_view [where run = "kernel_run ord" and view = "machine_view p", OF _ d t]) (use un in simp)
  have "kernel_wf (world s')" 
    by (rule Teardown_keeps [OF kernel_keeps_wf _ d t]) (use un in simp)
  moreover have "HotspotIsVirtual p \<longrightarrow> Hotspot p \<notin> set (kIfaces (world s'))"
    using assms(3) v by (simp add: clean_start_def machine_view_eq_iff)
  ultimately show ?thesis using Snapshot_view [OF v _ assms(4)] t by simp
qed

text \<open>A machine with one radio whose driver refuses to bring the new interface up beside the one that is up.\<close>

definition sample_knobs :: "(string, string) gomap" where
  "sample_knobs = map (\<lambda>knob. (knob, ''0'')) BaseSysctlKnobs"

definition sample_kernel :: sim_kernel where
  "sample_kernel = (NewSimulatedKernel [''eth0'', ''wlan0'', ''xray0''])
     \<lparr>kSysctl := sample_knobs, kIfacePhy := [(''wlan0'', ''phy0'')], RefuseLinkUp := ''RTNETLINK answers: Device or resource busy''\<rparr>"

definition sample_kernel_host :: "sim_kernel host" where
  "sample_kernel_host = \<lparr>world = sample_kernel, jfile = Some empty_file, jseq = 0, disk = [], log = []\<rparr>"

theorem teardown_restores_machine_witness:
  "\<exists>p. PlanNetwork sample_facts sample_servers sample_options = Inr p \<and>
    Snapshot (world (snd (Teardown (kernel_run id) (applied (kernel_run id)
      [linuxPreEngineSteps p sample_knobs, linuxPostEngineSteps p sample_knobs] sample_kernel_host)))) = Snapshot sample_kernel"
proof -
  have ev: "case PlanNetwork sample_facts sample_servers sample_options of Inl e \<Rightarrow> False | Inr p \<Rightarrow>
      ordinary_names p \<and> HotspotIsVirtual p \<and> Hotspot p = ''ap0''"
    by code_simp
  obtain p where p: "PlanNetwork sample_facts sample_servers sample_options = Inr p" "ordinary_names p" "HotspotIsVirtual p" "Hotspot p = ''ap0''"
    using ev by (auto split: sum.splits)
  have "arranged p" by (rule PlanNetwork_arranged [OF p(1)])
  then have clean: "clean_start p sample_knobs (world sample_kernel_host)"
    using p(3,4) by (simp add: clean_start_def arranged_def sample_kernel_host_def sample_kernel_def NewSimulatedKernel_def
        add_iface_def set_true_def sample_knobs_def BaseSysctlKnobs_def)
  have wf: "kernel_wf (world sample_kernel_host)"
    using NewSimulatedKernel_wf by (simp add: sample_kernel_host_def sample_kernel_def kernel_wf_def)
  have host: "host_ok sample_kernel_host" "load_entries (jfile sample_kernel_host) = []"
    by (simp_all add: sample_kernel_host_def host_ok_def whole_lines_def empty_file_def load_entries_def scan_def)
  have "world sample_kernel_host = sample_kernel" by (simp add: sample_kernel_host_def)
  with teardown_restores_machine [OF disjI1 [OF p(1)] p(2) clean wf host prefix_order.refl, of id] p(1)
  show ?thesis by metis
qed

end
