(* ===== verification/SystemSocks.thy ===== *)
theory SystemSocks
  imports RouteProps
begin

text \<open>
  Pointing macOS at the engine's SOCKS listener and putting the previous proxy settings back
  (\<open>internal/netcfg/system_socks.go\<close>). What \<open>networksetup\<close> does to a machine is code outside the repository: it is the
  parameter \<open>exec\<close>, of which \<open>networksetup_laws\<close> says what its manual says, that setting an endpoint also switches
  the proxy on.
\<close>

section \<open>Steps\<close>

definition caspianSystemSOCKSBypass :: "string list" where
  "caspianSystemSOCKSBypass = [''localhost'', ''127.0.0.1'', ''::1'', ''*.local'', ''169.254/16'']"

definition add_bypass :: "string \<Rightarrow> string list \<Rightarrow> string list" where
  "add_bypass required out = (if list_ex (\<lambda>have. equal_fold have required) out then out else out @ [required])"

definition mergedSystemSOCKSBypass :: "string list \<Rightarrow> string list" where
  "mergedSystemSOCKSBypass existing = fold add_bypass caspianSystemSOCKSBypass existing"

definition systemSOCKSStateCommand :: "string \<Rightarrow> bool \<Rightarrow> string \<Rightarrow> command" where
  "systemSOCKSStateCommand service enabled why =
     mk_command BinNetworksetup [''-setsocksfirewallproxystate'', service, if enabled then ''on'' else ''off''] why"

definition systemSOCKSEndpointCommand :: "string \<Rightarrow> string \<Rightarrow> nat \<Rightarrow> string \<Rightarrow> command" where
  "systemSOCKSEndpointCommand service server port why =
     mk_command BinNetworksetup [''-setsocksfirewallproxy'', service, server, nat_to_string port, ''off''] why"

definition systemSOCKSBypassCommand :: "string \<Rightarrow> string list \<Rightarrow> string \<Rightarrow> command" where
  "systemSOCKSBypassCommand service domains why =
     mk_command BinNetworksetup ([''-setproxybypassdomains'', service] @ (if domains = [] then [''Empty''] else domains)) why"

definition socks_service_steps :: "socks_options \<Rightarrow> system_socks_state \<Rightarrow> step list" where
  "socks_service_steps o' previous =
     (let service = ssService previous;
          disableWhy = ''pause the previous SOCKS proxy before replacing its endpoint with Caspian's listener'';
          bypassWhy = ''keep loopback and link-local destinations local while macOS applications use Caspian's SOCKS proxy'';
          endpointWhy = ''point this macOS network service at the SOCKS listener created by Caspian's running engine'';
          enableWhy = ''let proxy-aware macOS applications use the configured Caspian tunnel'';
          undoEndpoint = (if ssServer previous \<noteq> '''' \<and> ssPort previous \<noteq> 0
            then systemSOCKSEndpointCommand service (ssServer previous) (ssPort previous) ''restore the SOCKS endpoint read before Caspian started''
            else systemSOCKSStateCommand service False ''the service previously had no SOCKS endpoint; leave it disabled'')
      in [mk_step OpProxy disableWhy (systemSOCKSStateCommand service False disableWhy)
            (systemSOCKSStateCommand service (ssEnabled previous) ''restore the SOCKS proxy state read before Caspian started''),
          mk_step OpProxy bypassWhy (systemSOCKSBypassCommand service (mergedSystemSOCKSBypass (ssBypassDomains previous)) bypassWhy)
            (systemSOCKSBypassCommand service (ssBypassDomains previous) ''restore the proxy bypass domains read before Caspian started''),
          mk_step OpProxy endpointWhy (systemSOCKSEndpointCommand service (soListen o') (soPort o') endpointWhy) undoEndpoint,
          mk_step OpProxy enableWhy (systemSOCKSStateCommand service True enableWhy)
            (systemSOCKSStateCommand service False ''disable Caspian's system SOCKS proxy before restoring the previous endpoint'')])"

definition darwinSystemSOCKSSteps :: "plan \<Rightarrow> step list" where
  "darwinSystemSOCKSSteps p =
     (if \<not> soEnabled (oSystemSOCKS (Opts p)) then []
      else concat (map (socks_service_steps (oSystemSOCKS (Opts p))) (SystemSOCKS p)))"

section \<open>Reading the settings\<close>

definition cut_char :: "char \<Rightarrow> string \<Rightarrow> (string \<times> string) option" where
  "cut_char c s = (if c \<in> set s then Some (takeWhile (\<lambda>x. x \<noteq> c) s, tl (dropWhile (\<lambda>x. x \<noteq> c) s)) else None)"

definition ParseNetworkServices :: "string \<Rightarrow> string list" where
  "ParseNetworkServices out =
     filter (\<lambda>line. \<not> (line = '''' \<or> has_prefix line ''*'' \<or> str_contains (to_lower line) ''asterisk''))
       (map trim_space (lines_of out))"

definition parseNetworksetupBool :: "string \<Rightarrow> bool option" where
  "parseNetworksetupBool value =
     (let v = to_lower (trim_space value)
      in if v \<in> set [''yes'', ''on'', ''1''] then Some True
         else if v \<in> set [''no'', ''off'', ''0''] then Some False
         else None)"

definition parse_uint :: "nat \<Rightarrow> string \<Rightarrow> nat option" where
  "parse_uint bits s = (case parse_nat s of Some n \<Rightarrow> if n < 2 ^ bits then Some n else None | None \<Rightarrow> None)"

fun socks_lines :: "string list \<Rightarrow> system_socks_state \<times> string list \<Rightarrow> (system_socks_state \<times> string list) option" where
  "socks_lines [] (st, seen) = Some (st, seen)"
| "socks_lines (raw # rest) (st, seen) =
     (case cut_char CHR '':'' raw of
        None \<Rightarrow> socks_lines rest (st, seen)
      | Some (k, v) \<Rightarrow>
          (let key = to_lower (trim_space k); value = trim_space v
           in if key = ''enabled'' then
                (case parseNetworksetupBool value of None \<Rightarrow> None
                 | Some b \<Rightarrow> socks_lines rest (st\<lparr>ssEnabled := b\<rparr>, key # seen))
              else if key = ''server'' then socks_lines rest (st\<lparr>ssServer := value\<rparr>, key # seen)
              else if key = ''port'' then
                (case parse_uint 16 value of None \<Rightarrow> None
                 | Some n \<Rightarrow> socks_lines rest (st\<lparr>ssPort := n\<rparr>, key # seen))
              else if key = ''authenticated proxy enabled'' then
                (case parseNetworksetupBool value of None \<Rightarrow> None
                 | Some b \<Rightarrow> socks_lines rest (st\<lparr>ssAuthenticated := b\<rparr>, key # seen))
              else socks_lines rest (st, seen)))"

definition new_socks_state :: "string \<Rightarrow> system_socks_state" where
  "new_socks_state service = \<lparr>ssService = service, ssEnabled = False, ssServer = '''', ssPort = 0,
     ssAuthenticated = False, ssBypassDomains = []\<rparr>"

definition ParseSystemSOCKSState :: "string \<Rightarrow> string \<Rightarrow> system_socks_state option" where
  "ParseSystemSOCKSState service out =
     (case socks_lines (lines_of out) (new_socks_state service, []) of
        None \<Rightarrow> None
      | Some (st, seen) \<Rightarrow>
          if set [''enabled'', ''server'', ''port'', ''authenticated proxy enabled''] \<subseteq> set seen then Some st else None)"

definition ParseProxyBypassDomains :: "string \<Rightarrow> string list option" where
  "ParseProxyBypassDomains out =
     (let trimmed = trim_space out
      in if trimmed = '''' then None
         else if str_contains (to_lower trimmed) ''aren't any bypass domains'' then Some []
         else let domains = filter (\<lambda>d. d \<noteq> '''') (map trim_space (lines_of trimmed))
              in if domains = [] then None else Some domains)"

fun read_services :: "'w runner \<Rightarrow> string list \<Rightarrow> 'w \<Rightarrow> system_socks_state list option \<times> 'w" where
  "read_services run [] w = (Some [], w)"
| "read_services run (service # rest) w =
     (case run (mk_command BinNetworksetup [''-getsocksfirewallproxy'', service]
         ''read the SOCKS proxy endpoint and state to restore on teardown'') w of
        ((res, Some _), w1) \<Rightarrow> (None, w1)
      | ((res, None), w1) \<Rightarrow>
          (case ParseSystemSOCKSState service (Stdout res) of
             None \<Rightarrow> (None, w1)
           | Some st \<Rightarrow>
               (case run (mk_command BinNetworksetup [''-getproxybypassdomains'', service]
                   ''read the proxy bypass domains to restore on teardown'') w1 of
                  ((res2, Some _), w2) \<Rightarrow> (None, w2)
                | ((res2, None), w2) \<Rightarrow>
                    (case ParseProxyBypassDomains (Stdout res2) of
                       None \<Rightarrow> (None, w2)
                     | Some ds \<Rightarrow>
                         (case read_services run rest w2 of
                            (None, w3) \<Rightarrow> (None, w3)
                          | (Some sts, w3) \<Rightarrow> (Some (st\<lparr>ssBypassDomains := ds\<rparr> # sts), w3))))))"

definition darwinDetectSystemSOCKS :: "'w runner \<Rightarrow> facts \<Rightarrow> 'w \<Rightarrow> facts \<times> 'w" where
  "darwinDetectSystemSOCKS run f w =
     (case run (mk_command BinNetworksetup [''-listallnetworkservices'']
         ''the enabled macOS network services whose proxy settings must be preserved'') w of
        ((res, Some _), w1) \<Rightarrow> (f, w1)
      | ((res, None), w1) \<Rightarrow>
          (case read_services run (ParseNetworkServices (Stdout res)) w1 of
             (None, w2) \<Rightarrow> (f, w2)
           | (Some sts, w2) \<Rightarrow> (f\<lparr>factsSOCKS := sts, SystemSOCKSKnown := True\<rparr>, w2)))"

section \<open>What networksetup does\<close>

record proxy =
  pxEnabled :: bool
  pxServer :: string
  pxPort :: nat
  pxBypass :: "string list"

locale networksetup_laws =
  fixes exec :: "command \<Rightarrow> (string \<Rightarrow> proxy) \<Rightarrow> (string \<Rightarrow> proxy)"
  assumes exec_state: "exec (systemSOCKSStateCommand svc b why) m = m(svc := (m svc)\<lparr>pxEnabled := b\<rparr>)"
    and exec_endpoint: "exec (systemSOCKSEndpointCommand svc srv port why) m =
      m(svc := (m svc)\<lparr>pxServer := srv, pxPort := port, pxEnabled := True\<rparr>)"
    and exec_bypass: "ds \<noteq> [''Empty''] \<Longrightarrow> exec (systemSOCKSBypassCommand svc ds why) m = m(svc := (m svc)\<lparr>pxBypass := ds\<rparr>)"

lemma do_all_append: "do_all exec (xs @ ys) m = do_all exec ys (do_all exec xs m)"
  by (simp add: do_all_def)

lemma undo_all_append: "undo_all exec (xs @ ys) m = undo_all exec xs (undo_all exec ys m)"
  by (simp add: undo_all_def)

lemma fold_add_bypass_mono: "length xs \<le> length (fold add_bypass ds xs)"
proof (induction ds arbitrary: xs)
  case (Cons d ds)
  have "length xs \<le> length (add_bypass d xs)" by (simp add: add_bypass_def)
  also have "\<dots> \<le> length (fold add_bypass (d # ds) xs)" using Cons.IH [of "add_bypass d xs"] by simp
  finally show ?case .
qed simp

lemma add_bypass_has: "list_ex (\<lambda>have. equal_fold have d) (add_bypass d xs)"
  by (auto simp: add_bypass_def equal_fold_def)

lemma add_bypass_keeps: "set xs \<subseteq> set (add_bypass d xs)"
  by (auto simp: add_bypass_def)

lemma fold_add_bypass_keeps: "set xs \<subseteq> set (fold add_bypass ds xs)"
proof (induction ds arbitrary: xs)
  case (Cons d ds)
  with add_bypass_keeps [of xs d] show ?case by fastforce
qed simp

lemma merged_covers:
  assumes "d \<in> set caspianSystemSOCKSBypass"
  shows "list_ex (\<lambda>have. equal_fold have d) (mergedSystemSOCKSBypass xs)"
proof -
  obtain as bs where parts: "caspianSystemSOCKSBypass = as @ d # bs" using split_list [OF assms] by blast
  have "mergedSystemSOCKSBypass xs = fold add_bypass bs (add_bypass d (fold add_bypass as xs))"
    unfolding mergedSystemSOCKSBypass_def parts by simp
  with add_bypass_has fold_add_bypass_keeps show ?thesis by (metis list_ex_iff subsetD)
qed

lemma merged_not_Empty: "mergedSystemSOCKSBypass xs \<noteq> [''Empty'']"
proof
  assume "mergedSystemSOCKSBypass xs = [''Empty'']"
  then have "equal_fold ''Empty'' ''localhost''"
    using merged_covers [of "''localhost''" xs] by (simp add: caspianSystemSOCKSBypass_def)
  moreover have "\<not> equal_fold ''Empty'' ''localhost''" by code_simp
  ultimately show False by contradiction
qed

definition measured :: "system_socks_state \<Rightarrow> (string \<Rightarrow> proxy) \<Rightarrow> bool" where
  "measured st m \<longleftrightarrow> m (ssService st) = \<lparr>pxEnabled = ssEnabled st, pxServer = ssServer st, pxPort = ssPort st, pxBypass = ssBypassDomains st\<rparr>"

text \<open>What undoing leaves of a service: all as measured, but an endpoint that was never set stays Caspian's.\<close>

definition left_behind :: "socks_options \<Rightarrow> system_socks_state \<Rightarrow> (string \<Rightarrow> proxy) \<Rightarrow> (string \<Rightarrow> proxy)" where
  "left_behind o' st m =
     (if ssServer st \<noteq> '''' \<and> ssPort st \<noteq> 0 then m
      else m(ssService st := (m (ssService st))\<lparr>pxServer := soListen o', pxPort := soPort o'\<rparr>))"

context networksetup_laws
begin

lemma zero_commands:
  "\<not> IsZero (systemSOCKSStateCommand svc b why)" "\<not> IsZero (systemSOCKSEndpointCommand svc srv port why)"
  "\<not> IsZero (systemSOCKSBypassCommand svc ds why)"
  by (simp_all add: systemSOCKSStateCommand_def systemSOCKSEndpointCommand_def systemSOCKSBypassCommand_def
      IsZero_def mk_command_def bin_defs)

lemma service_do:
  "do_all exec (socks_service_steps o' st) m = m(ssService st := \<lparr>pxEnabled = True, pxServer = soListen o', pxPort = soPort o',
     pxBypass = mergedSystemSOCKSBypass (ssBypassDomains st)\<rparr>)"
  by (simp add: do_all_def socks_service_steps_def mk_step_def Let_def exec_state exec_endpoint
      exec_bypass [OF merged_not_Empty] fun_eq_iff)

lemma service_undo:
  assumes "ssBypassDomains st \<noteq> [''Empty'']"
    and "m (ssService st) = \<lparr>pxEnabled = True, pxServer = soListen o', pxPort = soPort o', pxBypass = bs\<rparr>"
  shows "undo_all exec (socks_service_steps o' st) m = m(ssService st := \<lparr>pxEnabled = ssEnabled st,
     pxServer = (if ssServer st \<noteq> '''' \<and> ssPort st \<noteq> 0 then ssServer st else soListen o'),
     pxPort = (if ssServer st \<noteq> '''' \<and> ssPort st \<noteq> 0 then ssPort st else soPort o'), pxBypass = ssBypassDomains st\<rparr>)"
  using assms
  by (simp add: undo_all_def socks_service_steps_def mk_step_def Let_def exec_state exec_endpoint
      exec_bypass [OF assms(1)] zero_commands)

lemma services_round_trip:
  assumes "\<forall>st \<in> set sts. measured st m \<and> ssBypassDomains st \<noteq> [''Empty'']" "distinct (map ssService sts)"
  shows "undo_all exec (concat (map (socks_service_steps o') sts)) (do_all exec (concat (map (socks_service_steps o') sts)) m) =
    fold (left_behind o') sts m"
  using assms
proof (induction sts arbitrary: m)
  case (Cons st sts)
  let ?dom = "do_all exec (socks_service_steps o' st) m"
  have frame: "fold (left_behind o') sts m1 svc = m1 svc" if "svc \<notin> ssService ` set sts" for m1 svc
    using that by (induction sts arbitrary: m1) (auto simp: left_behind_def)
  have upd: "fold (left_behind o') sts (m1(svc := x)) = (fold (left_behind o') sts m1)(svc := x)"
    if "svc \<notin> ssService ` set sts" for m1 svc x
    using that by (induction sts arbitrary: m1) (auto simp: left_behind_def fun_upd_twist [of svc])
  have st: "ssService st \<notin> ssService ` set sts" "measured st m" "ssBypassDomains st \<noteq> [''Empty'']"
    using Cons.prems by auto
  have "undo_all exec (concat (map (socks_service_steps o') sts)) (do_all exec (concat (map (socks_service_steps o') sts)) ?dom) =
      fold (left_behind o') sts ?dom"
    using Cons.prems by (intro Cons.IH) (auto simp: service_do measured_def, (metis image_eqI)+)
  moreover have "fold (left_behind o') sts ?dom (ssService st) = \<lparr>pxEnabled = True, pxServer = soListen o', pxPort = soPort o',
     pxBypass = mergedSystemSOCKSBypass (ssBypassDomains st)\<rparr>"
    using st(1) by (simp add: frame service_do)
  ultimately have "undo_all exec (concat (map (socks_service_steps o') (st # sts)))
      (do_all exec (concat (map (socks_service_steps o') (st # sts))) m) =
      (fold (left_behind o') sts m)(ssService st := \<lparr>pxEnabled = ssEnabled st,
     pxServer = (if ssServer st \<noteq> '''' \<and> ssPort st \<noteq> 0 then ssServer st else soListen o'),
     pxPort = (if ssServer st \<noteq> '''' \<and> ssPort st \<noteq> 0 then ssPort st else soPort o'), pxBypass = ssBypassDomains st\<rparr>)"
    using st by (simp add: do_all_append undo_all_append service_undo service_do upd)
  also have "\<dots> = fold (left_behind o') (st # sts) m"
    using st by (auto simp: left_behind_def upd frame measured_def fun_eq_iff)
  finally show ?case .
qed (simp add: do_all_def undo_all_def)

end

text \<open>C23. Applying the macOS proxy steps and then undoing them in reverse gives every network service back the
  state, the endpoint and the bypass domains that were measured. The one thing left behind is on a
  service that had no endpoint: the engine's listener stays written there, switched off.\<close>

theorem system_socks_round_trip:
  assumes "networksetup_laws exec" "soEnabled (oSystemSOCKS (Opts p))" "distinct (map ssService (SystemSOCKS p))"
    and "\<forall>st \<in> set (SystemSOCKS p). measured st m \<and> ssBypassDomains st \<noteq> [''Empty'']"
  shows "undo_all exec (darwinSystemSOCKSSteps p) (do_all exec (darwinSystemSOCKSSteps p) m) =
    fold (left_behind (oSystemSOCKS (Opts p))) (SystemSOCKS p) m"
proof -
  have "darwinSystemSOCKSSteps p = concat (map (socks_service_steps (oSystemSOCKS (Opts p))) (SystemSOCKS p))"
    by (simp add: darwinSystemSOCKSSteps_def assms(2))
  then show ?thesis
    using networksetup_laws.services_round_trip [OF assms(1) assms(4,3)] by simp
qed

definition networksetup_exec :: "command \<Rightarrow> (string \<Rightarrow> proxy) \<Rightarrow> (string \<Rightarrow> proxy)" where
  "networksetup_exec c m =
     (case Args c of
        verb # svc # rest \<Rightarrow>
          (if verb = ''-setsocksfirewallproxystate'' then m(svc := (m svc)\<lparr>pxEnabled := rest = [''on'']\<rparr>)
           else if verb = ''-setsocksfirewallproxy'' then
             m(svc := (m svc)\<lparr>pxServer := rest ! 0, pxPort := the (parse_nat (rest ! 1)), pxEnabled := True\<rparr>)
           else if verb = ''-setproxybypassdomains'' then m(svc := (m svc)\<lparr>pxBypass := if rest = [''Empty''] then [] else rest\<rparr>)
           else m)
      | _ \<Rightarrow> m)"

interpretation manual_page: networksetup_laws networksetup_exec
  by unfold_locales
    (simp_all add: networksetup_exec_def systemSOCKSStateCommand_def systemSOCKSEndpointCommand_def
      systemSOCKSBypassCommand_def mk_command_def)

definition sample_socks_states :: "system_socks_state list" where
  "sample_socks_states =
     [\<lparr>ssService = ''Wi-Fi'', ssEnabled = True, ssServer = ''proxy.example'', ssPort = 1080, ssAuthenticated = False, ssBypassDomains = [''*.example'']\<rparr>,
      \<lparr>ssService = ''Ethernet'', ssEnabled = False, ssServer = '''', ssPort = 0, ssAuthenticated = False, ssBypassDomains = []\<rparr>]"

definition sample_proxies :: "string \<Rightarrow> proxy" where
  "sample_proxies svc =
     (if svc = ''Wi-Fi'' then \<lparr>pxEnabled = True, pxServer = ''proxy.example'', pxPort = 1080, pxBypass = [''*.example'']\<rparr>
      else \<lparr>pxEnabled = False, pxServer = '''', pxPort = 0, pxBypass = []\<rparr>)"

definition sample_socks_plan :: plan where
  "sample_socks_plan = sample_nft_plan\<lparr>SystemSOCKS := sample_socks_states,
     Opts := (Opts sample_nft_plan)\<lparr>oSystemSOCKS := \<lparr>soEnabled = True, soListen = ''127.0.0.1'', soPort = 10808\<rparr>\<rparr>\<rparr>"

theorem system_socks_round_trip_witness:
  "undo_all networksetup_exec (darwinSystemSOCKSSteps sample_socks_plan)
     (do_all networksetup_exec (darwinSystemSOCKSSteps sample_socks_plan) sample_proxies) =
   sample_proxies(''Ethernet'' := \<lparr>pxEnabled = False, pxServer = ''127.0.0.1'', pxPort = 10808, pxBypass = []\<rparr>)"
  by (subst system_socks_round_trip [OF manual_page.networksetup_laws_axioms])
    (simp_all add: sample_socks_plan_def sample_socks_states_def sample_proxies_def measured_def left_behind_def)

end
