(* ===== verification/Bytes.thy ===== *)
theory Bytes
  imports Main "HOL-Library.Word" "HOL-Library.Monad_Syntax"
begin

unbundle bit_operations_syntax

text \<open>
  Bytes and what the sources use of \<open>encoding/binary\<close>. Reading or slicing out of range is a run-time panic in Go:
  a computation that may panic is an option, with \<^term>\<open>None\<close> for the panic.
\<close>

type_synonym byte = "8 word"
type_synonym bytes = "byte list"
type_synonym 'a go = "'a option"

definition byte_at :: "bytes \<Rightarrow> nat \<Rightarrow> byte go" where
  "byte_at b i = (if i < length b then Some (b ! i) else None)"

definition slice :: "bytes \<Rightarrow> nat \<Rightarrow> nat \<Rightarrow> bytes go" where
  "slice b i j = (if i \<le> j \<and> j \<le> length b then Some (take (j - i) (drop i b)) else None)"

definition be16 :: "byte \<Rightarrow> byte \<Rightarrow> 16 word" where
  "be16 x y = of_nat (unat x * 256 + unat y)"

definition be32 :: "byte \<Rightarrow> byte \<Rightarrow> byte \<Rightarrow> byte \<Rightarrow> 32 word" where
  "be32 x y z u = of_nat (((unat x * 256 + unat y) * 256 + unat z) * 256 + unat u)"

definition Uint16 :: "bytes \<Rightarrow> 16 word go" where
  "Uint16 b = (case b of x # y # _ \<Rightarrow> Some (be16 x y) | _ \<Rightarrow> None)"

definition Uint32 :: "bytes \<Rightarrow> 32 word go" where
  "Uint32 b = (case b of x # y # z # u # _ \<Rightarrow> Some (be32 x y z u) | _ \<Rightarrow> None)"

definition bytes16 :: "16 word \<Rightarrow> bytes" where
  "bytes16 w = [of_nat (unat w div 256), ucast w]"

definition bytes32 :: "32 word \<Rightarrow> bytes" where
  "bytes32 w = [of_nat (unat w div 16777216), of_nat (unat w div 65536), of_nat (unat w div 256), ucast w]"

text \<open>Writing over a part of a slice.\<close>

definition overwrite :: "nat \<Rightarrow> bytes \<Rightarrow> bytes \<Rightarrow> bytes go" where
  "overwrite i new b = (if i + length new \<le> length b then Some (take i b @ new @ drop (i + length new) b) else None)"

section \<open>Values of the encodings\<close>

lemma unat_byte: "unat (x :: byte) < 256"
  by (rule less_le_trans [OF unsigned_less]) simp

lemma unat_ucast_byte: "unat (ucast w :: byte) = unat w mod 256"
  by (simp add: unsigned_ucast_eq take_bit_eq_mod)

lemma unat_be16: "unat (be16 x y) = unat x * 256 + unat y"
  using unat_byte [of x] unat_byte [of y] unfolding be16_def unat_of_nat by simp

lemma unat_be32: "unat (be32 x y z u) = ((unat x * 256 + unat y) * 256 + unat z) * 256 + unat u"
  using unat_byte [of x] unat_byte [of y] unat_byte [of z] unat_byte [of u] unfolding be32_def unat_of_nat by simp

lemma be16_bytes16: "be16 (of_nat (unat w div 256)) (ucast w) = w"
proof -
  have "unat w < 65536" by (rule less_le_trans [OF unsigned_less]) simp
  then have "unat (be16 (of_nat (unat w div 256)) (ucast w)) = unat w"
    unfolding unat_be16 unat_of_nat unat_ucast_byte by simp
  then show ?thesis by (simp only: unsigned_word_eqI)
qed

lemma be32_bytes32: "be32 (of_nat (unat w div 16777216)) (of_nat (unat w div 65536)) (of_nat (unat w div 256)) (ucast w) = w"
proof -
  have w: "unat w < 4294967296" by (rule less_le_trans [OF unsigned_less]) simp
  have a: "unat w div 16777216 mod 256 = unat w div 16777216" using w by simp
  have "unat w div 16777216 = unat w div 65536 div 256" by (simp add: div_mult2_eq [symmetric])
  then have b: "unat w div 16777216 * 256 + unat w div 65536 mod 256 = unat w div 65536"
    using div_mult_mod_eq [of "unat w div 65536" 256] by simp
  have "unat w div 65536 = unat w div 256 div 256" by (simp add: div_mult2_eq [symmetric])
  then have c: "unat w div 65536 * 256 + unat w div 256 mod 256 = unat w div 256"
    using div_mult_mod_eq [of "unat w div 256" 256] by simp
  have "unat (be32 (of_nat (unat w div 16777216)) (of_nat (unat w div 65536)) (of_nat (unat w div 256)) (ucast w)) =
      ((unat w div 16777216 mod 256 * 256 + unat w div 65536 mod 256) * 256 + unat w div 256 mod 256) * 256 + unat w mod 256"
    unfolding unat_be32 unat_of_nat unat_ucast_byte by simp
  also have "\<dots> = unat w" unfolding a b c by (rule div_mult_mod_eq)
  finally show ?thesis by (simp only: unsigned_word_eqI)
qed

lemma Uint16_bytes16 [simp]: "Uint16 (bytes16 w @ r) = Some w"
  by (simp add: Uint16_def bytes16_def be16_bytes16)

lemma Uint32_bytes32 [simp]: "Uint32 (bytes32 w @ r) = Some w"
  by (simp add: Uint32_def bytes32_def be32_bytes32)

lemma length_bytes16 [simp]: "length (bytes16 w) = 2"
  by (simp add: bytes16_def)

lemma length_bytes32 [simp]: "length (bytes32 w) = 4"
  by (simp add: bytes32_def)

section \<open>Reading after writing\<close>

lemma overwrite_length: "overwrite i new b = Some b' \<Longrightarrow> length b' = length b"
  by (auto simp: overwrite_def split: if_splits)

lemma slice_Some: "slice b i j = Some s \<longleftrightarrow> i \<le> j \<and> j \<le> length b \<and> s = take (j - i) (drop i b)"
  by (auto simp: slice_def)

lemma Uint16_Some: "2 \<le> length b \<Longrightarrow> Uint16 b = Some (be16 (b ! 0) (b ! 1))"
  by (cases b rule: remdups_adj.cases) (auto simp: Uint16_def)

lemma Uint32_Some:
  assumes "4 \<le> length b"
  shows "Uint32 b = Some (be32 (b ! 0) (b ! 1) (b ! 2) (b ! 3))"
  using assms by (auto simp: Uint32_def split: list.split)

end
