(* ===== verification/Packet.thy ===== *)
theory Packet
  imports Bytes Netip
begin

unbundle bit_operations_syntax

text \<open>
  The packet layer of the SNI prelude: \<open>src/internal/snispoof/packet.go\<close> (the parser of captured IPv4/TCP packets,
  the Internet checksum, the forged ClientHello segment) and \<open>ethernet.go\<close>. Indexing and slicing follow Go, so a
  definition of type \<^typ>\<open>'a go\<close> is \<^term>\<open>None\<close> exactly when the code would panic.
\<close>

section \<open>Data\<close>

definition fin_flag :: byte where "fin_flag = 1"
definition syn_flag :: byte where "syn_flag = 2"
definition rst_flag :: byte where "rst_flag = 4"
definition ack_flag :: byte where "ack_flag = 16"

record frame =
  fr_ip :: bytes
  fr_prefix :: bytes
  fr_address :: bytes

record addr_port =
  ap_addr :: addr
  ap_port :: "16 word"

record packet =
  pk_src :: addr_port
  pk_dst :: addr_port
  pk_seq :: "32 word"
  pk_ack :: "32 word"
  pk_flags :: byte
  pk_ipLen :: nat
  pk_tcpLen :: nat
  pk_payloadLen :: nat

section \<open>Parsing\<close>

definition AddrFrom4 :: "bytes \<Rightarrow> addr go" where
  "AddrFrom4 b = map_option V4 (Uint32 b)"

text \<open>The inner option is the boolean result of the source.\<close>

definition parse_tcp :: "bytes \<Rightarrow> nat \<Rightarrow> bytes \<Rightarrow> packet option go" where
  "parse_tcp b ihl tcp = do {
     t12 \<leftarrow> byte_at tcp 12;
     let thl = unat (drop_bit 4 t12) * 4;
     if thl < 20 \<or> thl > length tcp then Some None
     else do {
       sa \<leftarrow> slice b 12 16 \<bind> AddrFrom4;
       sp \<leftarrow> slice tcp 0 2 \<bind> Uint16;
       da \<leftarrow> slice b 16 20 \<bind> AddrFrom4;
       dp \<leftarrow> slice tcp 2 4 \<bind> Uint16;
       sq \<leftarrow> slice tcp 4 8 \<bind> Uint32;
       ak \<leftarrow> slice tcp 8 12 \<bind> Uint32;
       fl \<leftarrow> byte_at tcp 13;
       Some (Some \<lparr>pk_src = \<lparr>ap_addr = sa, ap_port = sp\<rparr>, pk_dst = \<lparr>ap_addr = da, ap_port = dp\<rparr>, pk_seq = sq, pk_ack = ak,
         pk_flags = fl, pk_ipLen = ihl, pk_tcpLen = thl, pk_payloadLen = length tcp - thl\<rparr>)
     }
   }"

definition parsePacket :: "bytes \<Rightarrow> packet option go" where
  "parsePacket b =
    (if length b < 40 then Some None
     else do {
       b0 \<leftarrow> byte_at b 0;
       b9 \<leftarrow> byte_at b 9;
       if drop_bit 4 b0 \<noteq> 4 \<or> b9 \<noteq> 6 then Some None
       else do {
         let ihl = unat (b0 AND 15) * 4;
         total \<leftarrow> map_option unat (slice b 2 4 \<bind> Uint16);
         frag \<leftarrow> slice b 6 8 \<bind> Uint16;
         if ihl < 20 \<or> total > length b \<or> total < ihl + 20 \<or> frag AND 0x3fff \<noteq> 0 then Some None
         else do {
           tcp \<leftarrow> slice b ihl total;
           parse_tcp b ihl tcp
         }
       }
     })"

section \<open>The Internet checksum\<close>

fun sum16 :: "bytes \<Rightarrow> 32 word \<Rightarrow> 32 word" where
  "sum16 (x # y # b) s = sum16 b (s + ucast (be16 x y))"
| "sum16 [x] s = s + push_bit 8 (ucast x)"
| "sum16 [] s = s"

lemma unat_high16: "unat (drop_bit 16 s) = unat s div 65536" for s :: "32 word"
proof -
  have "unat s < 4294967296" by (rule less_le_trans [OF unsigned_less]) simp
  then show ?thesis by (simp only: unsigned_drop_bit_eq) (simp add: drop_bit_eq_div take_bit_eq_mod)
qed

lemma unat_low16: "unat (s AND 0xffff) = unat s mod 65536" for s :: "32 word"
proof -
  have "s AND 0xffff = take_bit 16 s" by (simp add: take_bit_eq_mask mask_eq_exp_minus_1)
  then show ?thesis by (simp only: unsigned_take_bit_eq) (simp add: take_bit_eq_mod)
qed

lemma unat_fold_step: "unat ((s AND 0xffff) + drop_bit 16 s) = unat s mod 65536 + unat s div 65536" for s :: "32 word"
proof -
  have "unat s < 4294967296" by (rule less_le_trans [OF unsigned_less]) simp
  then have "unat s mod 65536 + unat s div 65536 < 4294967296" by simp
  then show ?thesis unfolding unat_plus_if_size word_size unat_high16 unat_low16 by simp
qed

lemma drop_bit_16_zero: "drop_bit 16 s = 0 \<longleftrightarrow> unat s < 65536" for s :: "32 word"
  using unat_high16 [of s] unat_eq_zero [of "drop_bit 16 s"] by (simp only: div_eq_0_iff) simp

function fold_carries :: "32 word \<Rightarrow> 32 word" where
  "fold_carries s = (if drop_bit 16 s \<noteq> 0 then fold_carries ((s AND 0xffff) + drop_bit 16 s) else s)"
  by pat_completeness auto

termination fold_carries
proof (relation "measure unat")
  fix s :: "32 word"
  assume "drop_bit 16 s \<noteq> 0"
  then have "65536 \<le> unat s" by (simp only: drop_bit_16_zero not_less)
  then have "unat s mod 65536 + unat s div 65536 < unat s"
    using div_mult_mod_eq [of "unat s" 65536] by (cases "unat s div 65536") auto
  then show "((s AND 0xffff) + drop_bit 16 s, s) \<in> measure unat" by (simp only: in_measure unat_fold_step)
qed simp

definition checksum :: "bytes \<Rightarrow> 32 word \<Rightarrow> 16 word" where
  "checksum b s = NOT (ucast (fold_carries (sum16 b s)))"

section \<open>The forged segment\<close>

definition fakeFrame :: "frame \<Rightarrow> packet \<Rightarrow> 32 word \<Rightarrow> bytes \<Rightarrow> frame go" where
  "fakeFrame f p isn hello = do {
     hdr \<leftarrow> slice (fr_ip f) 0 (pk_ipLen p + pk_tcpLen p);
     let out = hdr @ hello;
     out \<leftarrow> overwrite 2 (bytes16 (of_nat (length out))) out;
     ident \<leftarrow> slice out 4 6 \<bind> Uint16;
     out \<leftarrow> overwrite 4 (bytes16 (ident + 1)) out;
     out \<leftarrow> overwrite 10 [0, 0] out;
     iph \<leftarrow> slice out 0 (pk_ipLen p);
     out \<leftarrow> overwrite 10 (bytes16 (checksum iph 0)) out;
     flags \<leftarrow> byte_at out (pk_ipLen p + 13);
     out \<leftarrow> overwrite (pk_ipLen p + 13) [flags OR 8] out;
     out \<leftarrow> overwrite (pk_ipLen p + 4) (bytes32 (isn + 1 - of_nat (length hello))) out;
     out \<leftarrow> overwrite (pk_ipLen p + 16) [0, 0] out;
     ends \<leftarrow> slice out 12 20;
     tcp \<leftarrow> slice out (pk_ipLen p) (length out);
     let pseudo = ends @ [0, 6] @ bytes16 (of_nat (length tcp));
     out \<leftarrow> overwrite (pk_ipLen p + 16) (bytes16 (checksum tcp (ucast (NOT (checksum pseudo 0))))) out;
     Some (f\<lparr>fr_ip := out\<rparr>)
   }"

section \<open>Ethernet\<close>

text \<open>The loop over VLAN tags; \<open>tags\<close> counts the tags already skipped, at most two.\<close>

function skip_tags :: "bytes \<Rightarrow> 16 word \<Rightarrow> nat \<Rightarrow> nat \<Rightarrow> (16 word \<times> nat) option go" where
  "skip_tags b typ offset tags =
    (if typ = 0x8100 \<or> typ = 0x88a8 then
       if tags \<ge> 2 \<or> length b < offset + 4 then Some None
       else do {
         typ \<leftarrow> slice b (offset + 2) (offset + 4) \<bind> Uint16;
         skip_tags b typ (offset + 4) (tags + 1)
       }
     else Some (Some (typ, offset)))"
  by pat_completeness auto

termination skip_tags by (relation "measure (\<lambda>(_, _, _, tags). 2 - tags)") auto

definition ethernetFrame :: "bytes \<Rightarrow> frame option go" where
  "ethernetFrame b =
    (if length b < 14 then Some None
     else do {
       typ \<leftarrow> slice b 12 14 \<bind> Uint16;
       r \<leftarrow> skip_tags b typ 14 0;
       case r of
         None \<Rightarrow> Some None
       | Some (typ, offset) \<Rightarrow>
           if typ \<noteq> 0x0800 then Some None
           else do {
             ip \<leftarrow> slice b offset (length b);
             prefix \<leftarrow> slice b 0 offset;
             Some (Some \<lparr>fr_ip = ip, fr_prefix = prefix, fr_address = replicate 80 0\<rparr>)
           }
     })"

declare fold_carries.simps [simp del] skip_tags.simps [simp del]

end
