(* ===== verification/PacketProps.thy ===== *)
theory PacketProps
  imports Packet
begin

unbundle bit_operations_syntax

text \<open>
  Properties of the packet layer: the parser and the Ethernet decoder never panic on any input, the deferred-carry
  checksum is the end-around-carry sum of RFC 1071, and the forged segment is a packet the parser reads back as the
  captured acknowledgement with the forged sequence number, with both checksums correct.
\<close>

section \<open>The parser as a function of the bytes\<close>

definition ihl_of :: "bytes \<Rightarrow> nat" where
  "ihl_of b = unat (b ! 0 AND 15) * 4"

definition total_of :: "bytes \<Rightarrow> nat" where
  "total_of b = unat (be16 (b ! 2) (b ! 3))"

definition thl_of :: "bytes \<Rightarrow> nat" where
  "thl_of b = unat (drop_bit 4 (b ! (ihl_of b + 12))) * 4"

definition is_ipv4_tcp :: "bytes \<Rightarrow> bool" where
  "is_ipv4_tcp b \<longleftrightarrow> 40 \<le> length b \<and> drop_bit 4 (b ! 0) = 4 \<and> b ! 9 = 6 \<and> be16 (b ! 6) (b ! 7) AND 0x3fff = 0 \<and>
     20 \<le> ihl_of b \<and> total_of b \<le> length b \<and> ihl_of b + 20 \<le> total_of b \<and>
     20 \<le> thl_of b \<and> ihl_of b + thl_of b \<le> total_of b"

definition addr_at :: "bytes \<Rightarrow> nat \<Rightarrow> addr" where
  "addr_at b i = V4 (be32 (b ! i) (b ! (i + 1)) (b ! (i + 2)) (b ! (i + 3)))"

definition packet_of :: "bytes \<Rightarrow> packet" where
  "packet_of b = (let i = ihl_of b in
    \<lparr>pk_src = \<lparr>ap_addr = addr_at b 12, ap_port = be16 (b ! i) (b ! (i + 1))\<rparr>,
     pk_dst = \<lparr>ap_addr = addr_at b 16, ap_port = be16 (b ! (i + 2)) (b ! (i + 3))\<rparr>,
     pk_seq = be32 (b ! (i + 4)) (b ! (i + 5)) (b ! (i + 6)) (b ! (i + 7)),
     pk_ack = be32 (b ! (i + 8)) (b ! (i + 9)) (b ! (i + 10)) (b ! (i + 11)),
     pk_flags = b ! (i + 13), pk_ipLen = i, pk_tcpLen = thl_of b, pk_payloadLen = total_of b - i - thl_of b\<rparr>)"

lemma slice_Uint16: "j = i + 2 \<Longrightarrow> j \<le> length b \<Longrightarrow> slice b i j \<bind> Uint16 = Some (be16 (b ! i) (b ! (i + 1)))"
  by (simp add: slice_def Uint16_Some)

lemma slice_Uint32:
  "j = i + 4 \<Longrightarrow> j \<le> length b \<Longrightarrow> slice b i j \<bind> Uint32 = Some (be32 (b ! i) (b ! (i + 1)) (b ! (i + 2)) (b ! (i + 3)))"
  by (simp add: slice_def Uint32_Some)

lemma slice_AddrFrom4: "j = i + 4 \<Longrightarrow> j \<le> length b \<Longrightarrow> slice b i j \<bind> AddrFrom4 = Some (addr_at b i)"
  by (simp add: slice_def AddrFrom4_def addr_at_def Uint32_Some)

lemmas slice_reads = slice_Uint16 slice_Uint32 slice_AddrFrom4

lemma parse_tcp_eq:
  assumes "20 \<le> length b" and "i + 20 \<le> j" and "j \<le> length b" and t: "t = take (j - i) (drop i b)" and i: "i = ihl_of b" and j: "j = total_of b"
  shows "parse_tcp b i t = Some (if 20 \<le> thl_of b \<and> i + thl_of b \<le> j then Some (packet_of b) else None)"
proof -
  have n: "t ! k = b ! (i + k)" if "k < 20" for k using assms that by simp
  have l: "length t = j - i" using assms by simp
  then have l20: "20 \<le> length t" using assms by simp
  have h: "unat (drop_bit 4 (t ! 12)) * 4 = thl_of b" by (simp only: thl_of_def i [symmetric] n [of 12, simplified])
  have c: "(thl_of b < 20 \<or> j - i < thl_of b) = (\<not> (20 \<le> thl_of b \<and> i + thl_of b \<le> j))" using assms by auto
  have "byte_at t 12 = Some (t ! 12)" "byte_at t 13 = Some (t ! 13)" using l20 by (simp_all add: byte_at_def)
  moreover have "slice t 0 2 \<bind> Uint16 = Some (be16 (t ! 0) (t ! 1))" "slice t 2 4 \<bind> Uint16 = Some (be16 (t ! 2) (t ! 3))"
    "slice t 4 8 \<bind> Uint32 = Some (be32 (t ! 4) (t ! 5) (t ! 6) (t ! 7))"
    "slice t 8 12 \<bind> Uint32 = Some (be32 (t ! 8) (t ! 9) (t ! 10) (t ! 11))"
    using l20 by (simp_all add: slice_reads)
  moreover have "slice b 12 16 \<bind> AddrFrom4 = Some (addr_at b 12)" "slice b 16 20 \<bind> AddrFrom4 = Some (addr_at b 16)"
    using assms by (simp_all add: slice_reads)
  ultimately show ?thesis unfolding parse_tcp_def
    by (simp only: bind.bind_lunit Let_def h l c packet_of_def i [symmetric] j [symmetric] if_not_P if_P) (simp add: n)
qed

lemma parsePacket_eq: "parsePacket b = Some (if is_ipv4_tcp b then Some (packet_of b) else None)"
proof (cases "40 \<le> length b \<and> drop_bit 4 (b ! 0) = 4 \<and> b ! 9 = 6")
  case True
  have r: "byte_at b 0 = Some (b ! 0)" "byte_at b 9 = Some (b ! 9)"
    "slice b 2 4 \<bind> Uint16 = Some (be16 (b ! 2) (b ! 3))"
    "slice b 6 8 \<bind> Uint16 = Some (be16 (b ! 6) (b ! 7))"
    using True by (auto simp: byte_at_def slice_reads)
  show ?thesis
  proof (cases "20 \<le> ihl_of b \<and> total_of b \<le> length b \<and> ihl_of b + 20 \<le> total_of b \<and> be16 (b ! 6) (b ! 7) AND 0x3fff = 0")
    case bounds: True
    then have "slice b (ihl_of b) (total_of b) = Some (take (total_of b - ihl_of b) (drop (ihl_of b) b))"
      by (simp add: slice_def)
    moreover have "parse_tcp b (ihl_of b) (take (total_of b - ihl_of b) (drop (ihl_of b) b)) =
        Some (if 20 \<le> thl_of b \<and> ihl_of b + thl_of b \<le> total_of b then Some (packet_of b) else None)"
      using True bounds by (intro parse_tcp_eq) auto
    ultimately show ?thesis using True bounds r
      by (simp add: parsePacket_def is_ipv4_tcp_def Let_def flip: ihl_of_def total_of_def)
  next
    case False
    then show ?thesis using True r by (auto simp: parsePacket_def is_ipv4_tcp_def Let_def simp flip: ihl_of_def total_of_def)
  qed
next
  case False
  then show ?thesis by (auto simp: parsePacket_def is_ipv4_tcp_def byte_at_def)
qed

text \<open>
  The parser reads any byte sequence without an out-of-range access, and whatever it accepts has header lengths
  that fit the packet: the slices taken of an accepted packet later never panic.
\<close>

definition packet_fits :: "bytes \<Rightarrow> packet \<Rightarrow> bool" where
  "packet_fits b p \<longleftrightarrow> 20 \<le> pk_ipLen p \<and> pk_ipLen p \<le> 60 \<and> 20 \<le> pk_tcpLen p \<and> pk_tcpLen p \<le> 60 \<and>
     pk_ipLen p + pk_tcpLen p + pk_payloadLen p \<le> length b \<and> pk_ipLen p + pk_tcpLen p + pk_payloadLen p \<le> 65535"

lemma nibble_bounds: "unat (x AND 15) \<le> 15" "unat (drop_bit 4 x) \<le> 15" for x :: byte
proof -
  have "x AND 15 = take_bit 4 x" by (simp add: take_bit_eq_mask mask_eq_exp_minus_1)
  then show "unat (x AND 15) \<le> 15" by (simp only: unsigned_take_bit_eq) (simp add: take_bit_eq_mod)
  have "unat x < 256" by (rule unat_byte)
  then show "unat (drop_bit 4 x) \<le> 15" by (simp only: unsigned_drop_bit_eq) (simp add: drop_bit_eq_div take_bit_eq_mod)
qed

lemma packet_of_fits: "is_ipv4_tcp b \<Longrightarrow> packet_fits b (packet_of b)"
proof -
  assume b: "is_ipv4_tcp b"
  have "ihl_of b \<le> 60" "thl_of b \<le> 60"
    using nibble_bounds(1) [of "b ! 0"] nibble_bounds(2) [of "b ! (ihl_of b + 12)"] by (simp_all add: ihl_of_def thl_of_def)
  moreover have "total_of b \<le> 65535"
    using unat_byte [of "b ! 2"] unat_byte [of "b ! 3"] unfolding total_of_def unat_be16 by simp
  ultimately show ?thesis using b by (simp add: packet_fits_def packet_of_def is_ipv4_tcp_def Let_def)
qed

text \<open>
  Decoding an Ethernet frame never panics either, whatever the VLAN tags claim, and it only cuts the frame in two.
\<close>

lemma skip_tags_safe:
  "offset \<le> length b \<Longrightarrow>
   \<exists>r. skip_tags b etype offset tags = Some r \<and> (\<forall>t k. r = Some (t, k) \<longrightarrow> offset \<le> k \<and> k \<le> length b)"
proof (induction b etype offset tags rule: skip_tags.induct)
  case (1 b etype offset tags)
  show ?case
  proof (cases "(etype = 0x8100 \<or> etype = 0x88a8) \<and> tags < 2 \<and> offset + 4 \<le> length b")
    case True
    then have "slice b (offset + 2) (offset + 4) \<bind> Uint16 = Some (be16 (b ! (offset + 2)) (b ! (offset + 2 + 1)))"
      by (intro slice_Uint16) auto
    moreover from this obtain r where "skip_tags b (be16 (b ! (offset + 2)) (b ! (offset + 2 + 1))) (offset + 4) (tags + 1) = Some r"
      "\<forall>t k. r = Some (t, k) \<longrightarrow> offset + 4 \<le> k \<and> k \<le> length b"
      using "1.IH" True by fastforce
    ultimately show ?thesis using True by (subst skip_tags.simps) fastforce
  qed (use "1.prems" in \<open>auto simp: skip_tags.simps\<close>)
qed

lemma ethernetFrame_safe:
  "\<exists>r. ethernetFrame b = Some r \<and> (\<forall>f. r = Some f \<longrightarrow> fr_prefix f @ fr_ip f = b \<and> 14 \<le> length (fr_prefix f))"
proof (cases "14 \<le> length b")
  case True
  then have t: "slice b 12 14 \<bind> Uint16 = Some (be16 (b ! 12) (b ! 13))" by (simp add: slice_reads)
  obtain r where r: "skip_tags b (be16 (b ! 12) (b ! 13)) 14 0 = Some r" "\<forall>t k. r = Some (t, k) \<longrightarrow> 14 \<le> k \<and> k \<le> length b"
    using skip_tags_safe [OF True] by blast
  show ?thesis using True t r by (auto simp: ethernetFrame_def slice_def split: option.split)
qed (simp add: ethernetFrame_def)

section \<open>The checksum is the end-around-carry sum\<close>

text \<open>RFC 1071: add 16-bit words, carrying out of the top bit back into the bottom; an odd last byte is padded.\<close>

definition ones_add :: "nat \<Rightarrow> nat \<Rightarrow> nat" where
  "ones_add a b = (if a + b < 65536 then a + b else a + b - 65535)"

fun ones_sum :: "nat \<Rightarrow> bytes \<Rightarrow> nat" where
  "ones_sum s (x # y # b) = ones_sum (ones_add s (unat x * 256 + unat y)) b"
| "ones_sum s [x] = ones_add s (unat x * 256)"
| "ones_sum s [] = s"

text \<open>The same sum with no bound on the width.\<close>

fun wide_sum :: "bytes \<Rightarrow> nat" where
  "wide_sum (x # y # b) = unat x * 256 + unat y + wide_sum b"
| "wide_sum [x] = unat x * 256"
| "wide_sum [] = 0"

text \<open>A sum reduced to sixteen bits: zero only for zero, otherwise the residue modulo 65535 in 1..65535.\<close>

definition reduced :: "nat \<Rightarrow> nat" where
  "reduced n = (if n = 0 then 0 else (n - 1) mod 65535 + 1)"

lemma reduced_bound: "reduced n \<le> 65535"
  by (simp add: reduced_def Suc_le_eq)

lemma reduced_id: "n \<le> 65535 \<Longrightarrow> reduced n = n"
  by (auto simp: reduced_def)

lemma reduced_add_multiple: "0 < n \<Longrightarrow> reduced (n + k * 65535) = reduced n"
proof -
  assume n: "0 < n"
  then have "n + k * 65535 - 1 = (n - 1) + k * 65535" by simp
  then show ?thesis using n by (simp only: reduced_def mod_mult_self1) simp
qed

lemma reduced_decomp: "\<exists>k. n = reduced n + k * 65535"
proof (cases "n = 0")
  case False
  then have "n = reduced n + (n - 1) div 65535 * 65535"
    using div_mult_mod_eq [of "n - 1" 65535] by (simp add: reduced_def)
  then show ?thesis ..
qed (simp add: reduced_def)

lemma reduced_zero: "reduced n = 0 \<longleftrightarrow> n = 0"
  by (simp add: reduced_def)

lemma ones_add_reduced:
  assumes "w \<le> 65535"
  shows "ones_add (reduced m) w = reduced (m + w)"
proof (cases "reduced m + w = 0")
  case False
  obtain k where "m = reduced m + k * 65535" using reduced_decomp by blast
  then have "m + w = (reduced m + w) + k * 65535" by simp
  then have e: "reduced (m + w) = reduced (reduced m + w)" using False by (metis reduced_add_multiple neq0_conv)
  show ?thesis
  proof (cases "reduced m + w < 65536")
    case False
    then have "reduced (reduced m + w) = reduced (reduced m + w - 65535 + 1 * 65535)" by simp
    also have "\<dots> = reduced (reduced m + w - 65535)" using False by (intro reduced_add_multiple) simp
    also have "\<dots> = reduced m + w - 65535" using assms reduced_bound [of m] by (intro reduced_id) simp
    finally show ?thesis using False e by (simp add: ones_add_def)
  qed (simp add: e ones_add_def reduced_id)
qed (simp add: ones_add_def reduced_def)

lemma word16_bound: "unat x * 256 + unat y \<le> 65535" for x y :: byte
  using unat_byte [of x] unat_byte [of y] by simp

lemma ones_sum_reduced: "ones_sum (reduced s) b = reduced (s + wide_sum b)"
proof (induction b arbitrary: s rule: wide_sum.induct)
  case (1 x y b)
  show ?case by (simp add: ones_add_reduced [OF word16_bound] 1 add.assoc)
next
  case (2 x)
  show ?case using ones_add_reduced [of "unat x * 256" s] word16_bound [of x 0] by simp
qed simp

lemma fold_carries_reduced: "unat (fold_carries s) = reduced (unat s)"
proof (induction s rule: fold_carries.induct)
  case (1 s)
  show ?case
  proof (cases "drop_bit 16 s = 0")
    case True
    then show ?thesis using drop_bit_16_zero [of s] by (subst fold_carries.simps) (simp add: reduced_id)
  next
    case False
    then have big: "65536 \<le> unat s" by (simp only: drop_bit_16_zero not_less)
    have "unat (fold_carries s) = reduced (unat s mod 65536 + unat s div 65536)"
      using 1 False by (subst fold_carries.simps) (simp only: unat_fold_step if_True not_False_eq_True)
    also have "\<dots> = reduced (unat s mod 65536 + unat s div 65536 + unat s div 65536 * 65535)"
      using big div_greater_zero_iff [of "unat s" 65536] by (intro reduced_add_multiple [symmetric]) simp
    also have "unat s mod 65536 + unat s div 65536 + unat s div 65536 * 65535 = unat s"
      using div_mult_mod_eq [of "unat s" 65536] by simp
    finally show ?thesis .
  qed
qed

lemma unat_sum16: "unat s + wide_sum b < 2 ^ 32 \<Longrightarrow> unat (sum16 b s) = unat s + wide_sum b"
proof (induction b s rule: sum16.induct)
  case (1 x y b s)
  have "unat (ucast (be16 x y) :: 32 word) = unat x * 256 + unat y"
    using word16_bound [of x y] by (simp add: unsigned_ucast_eq take_bit_eq_mod unat_be16)
  moreover from this have "unat (s + ucast (be16 x y)) = unat s + (unat x * 256 + unat y)"
    using "1.prems" by (simp add: unat_plus_if_size word_size)
  ultimately show ?case using 1 by simp
next
  case (2 x s)
  have "unat (push_bit 8 (ucast x) :: 32 word) = unat x * 256"
    using unat_byte [of x] by (simp add: push_bit_eq_mult unat_word_ariths unsigned_ucast_eq take_bit_eq_mod)
  then show ?case using 2 by (simp add: unat_plus_if_size word_size)
qed simp

lemma wide_sum_bound: "wide_sum b \<le> length b * 65280"
proof (induction b rule: wide_sum.induct)
  case (1 x y b)
  then show ?case using word16_bound [of x y] by simp
next
  case (2 x)
  show ?case using unat_byte [of x] by simp
qed simp

lemma unat_not16: "unat (NOT w) = 65535 - unat w" for w :: "16 word"
proof -
  have "NOT w = 65535 - w" by (simp add: not_eq_complement)
  moreover have "w \<le> 65535"
  proof -
    have "(65535 :: 16 word) = - 1" by simp
    then show ?thesis by (simp only: word_order.extremum)
  qed
  ultimately show ?thesis using unat_sub [of w 65535] by simp
qed

lemma unat_checksum:
  assumes "unat s + wide_sum b < 2 ^ 32"
  shows "unat (checksum b s) = 65535 - reduced (unat s + wide_sum b)"
proof -
  have "unat (ucast (fold_carries (sum16 b s)) :: 16 word) = reduced (unat s + wide_sum b)"
    using fold_carries_reduced [of "sum16 b s"] unat_sum16 [OF assms] reduced_bound [of "unat s + wide_sum b"]
    by (simp add: unsigned_ucast_eq take_bit_eq_mod)
  then show ?thesis by (simp only: checksum_def unat_not16)
qed

section \<open>A field holding the checksum of the rest\<close>

lemma wide_sum_put:
  "Suc (2 * k) < length b \<Longrightarrow> b ! (2 * k) = 0 \<Longrightarrow> b ! Suc (2 * k) = 0 \<Longrightarrow>
   wide_sum (b[2 * k := x, Suc (2 * k) := y]) = wide_sum b + (unat x * 256 + unat y)"
proof (induction b arbitrary: k rule: wide_sum.induct)
  case (1 u v b)
  then show ?case by (cases k) auto
qed auto

lemma wide_sum_append: "even (length a) \<Longrightarrow> wide_sum (a @ b) = wide_sum a + wide_sum b"
  by (induction a rule: wide_sum.induct) auto

lemma bytes16_value: "bytes16 w = [x, y] \<Longrightarrow> unat x * 256 + unat y = unat w"
  using unat_be16 [of x y] be16_bytes16 [of w] by (auto simp: bytes16_def)

lemma reduced_complement: "reduced (n + (65535 - reduced n)) = 65535"
proof -
  obtain k where "n = reduced n + k * 65535" using reduced_decomp by blast
  then have "n + (65535 - reduced n) = 65535 + k * 65535" using reduced_bound [of n] by simp
  then show ?thesis by (simp only: reduced_add_multiple) (simp add: reduced_id)
qed

lemma reduced_absorb: "reduced (reduced m + n) = reduced (m + n)"
proof (cases "reduced m + n = 0")
  case False
  obtain k where "m = reduced m + k * 65535" using reduced_decomp by blast
  then have "m + n = (reduced m + n) + k * 65535" by simp
  then show ?thesis using False by (metis reduced_add_multiple neq0_conv)
qed (simp add: reduced_def)

lemma checksum_zero: "unat s + wide_sum b < 2 ^ 32 \<Longrightarrow> reduced (unat s + wide_sum b) = 65535 \<Longrightarrow> checksum b s = 0"
  using unat_checksum [of s b] by (simp add: unat_eq_zero)

text \<open>Writing the checksum into a zeroed aligned field makes the sum over everything come out as zero.\<close>

lemma checksum_field_verifies:
  assumes "bytes16 (checksum b s) = [x, y]" and "unat s + length b * 65280 + 65535 < 2 ^ 32"
    and "Suc (2 * k) < length b" and "b ! (2 * k) = 0" and "b ! Suc (2 * k) = 0"
  shows "reduced (unat s + wide_sum (b[2 * k := x, Suc (2 * k) := y])) = 65535"
proof -
  have "unat s + wide_sum b < 2 ^ 32" using assms(2) wide_sum_bound [of b] by linarith
  then have "unat x * 256 + unat y = 65535 - reduced (unat s + wide_sum b)"
    using bytes16_value [OF assms(1)] unat_checksum by simp
  then show ?thesis using wide_sum_put [OF assms(3-5)] reduced_complement [of "unat s + wide_sum b"]
    by (simp add: add.assoc)
qed

section \<open>The forged segment\<close>

lemma overwrite_Cons: "i < length b \<Longrightarrow> overwrite i (x # new) b = overwrite (Suc i) new (b[i := x])"
  by (simp add: overwrite_def take_Suc_conv_app_nth)

lemma overwrite_Nil: "i \<le> length b \<Longrightarrow> overwrite i [] b = Some b"
  by (simp add: overwrite_def)

lemma overwrite_1: "i < length b \<Longrightarrow> overwrite i [x] b = Some (b[i := x])"
  by (simp add: overwrite_def upd_conv_take_nth_drop)

lemma overwrite_16:
  "j = i + 1 \<Longrightarrow> j < length b \<Longrightarrow> overwrite i (bytes16 w) b = Some (b[i := bytes16 w ! 0, j := bytes16 w ! 1])"
  by (simp add: bytes16_def overwrite_Cons overwrite_Nil)

lemma overwrite_32:
  "j = i + 1 \<Longrightarrow> k = i + 2 \<Longrightarrow> m = i + 3 \<Longrightarrow> m < length b \<Longrightarrow>
   overwrite i (bytes32 w) b = Some (b[i := bytes32 w ! 0, j := bytes32 w ! 1, k := bytes32 w ! 2, m := bytes32 w ! 3])"
  by (simp add: bytes32_def overwrite_Cons overwrite_Nil numeral_2_eq_2 numeral_3_eq_3)

lemma overwrite_zeros: "j = i + 1 \<Longrightarrow> j < length b \<Longrightarrow> overwrite i [0, 0] b = Some (b[i := 0, j := 0])"
  by (simp add: overwrite_Cons overwrite_Nil)

definition pseudo_header :: "bytes \<Rightarrow> nat \<Rightarrow> bytes" where
  "pseudo_header b i = take 8 (drop 12 b) @ [0, 6] @ bytes16 (of_nat (length b - i))"

text \<open>The forged packet is built in two stages: the IP header is finished before the TCP header is touched.\<close>

definition forged_ip :: "bytes \<Rightarrow> bytes \<Rightarrow> nat \<Rightarrow> bytes" where
  "forged_ip hdr hello i =
    (let o0 = hdr @ hello; l = bytes16 (of_nat (length o0)); d = bytes16 (be16 (o0 ! 4) (o0 ! 5) + 1);
         o1 = o0[2 := l ! 0, 3 := l ! 1, 4 := d ! 0, 5 := d ! 1, 10 := 0, 11 := 0];
         c = bytes16 (checksum (take i o1) 0)
     in o1[10 := c ! 0, 11 := c ! 1])"

definition forged_tcp :: "bytes \<Rightarrow> 32 word \<Rightarrow> nat \<Rightarrow> bytes" where
  "forged_tcp b sq i =
    (let q = bytes32 sq;
         o1 = b[i + 13 := b ! (i + 13) OR 8, i + 4 := q ! 0, i + 5 := q ! 1, i + 6 := q ! 2, i + 7 := q ! 3, i + 16 := 0, i + 17 := 0];
         c = bytes16 (checksum (drop i o1) (ucast (NOT (checksum (pseudo_header o1 i) 0))))
     in o1[i + 16 := c ! 0, i + 17 := c ! 1])"

lemma fakeFrame_eq:
  assumes "packet_fits (fr_ip f) p"
  shows "fakeFrame f p isn hello = Some (f\<lparr>fr_ip := forged_tcp (forged_ip (take (pk_ipLen p + pk_tcpLen p) (fr_ip f)) hello (pk_ipLen p))
    (isn + 1 - of_nat (length hello)) (pk_ipLen p)\<rparr>)"
proof -
  define i where "i = pk_ipLen p"
  define h where "h = take (i + pk_tcpLen p) (fr_ip f)"
  define o0 where "o0 = h @ hello"
  have l: "i + 20 \<le> length o0" "20 \<le> i" and s: "slice (fr_ip f) 0 (i + pk_tcpLen p) = Some h"
    using assms by (auto simp: packet_fits_def slice_def i_def h_def o0_def)
  define w where "w = bytes16 (of_nat (length o0))"
  define o1 where "o1 = o0[2 := w ! 0, 3 := w ! 1]"
  have 1: "overwrite 2 w o0 = Some o1" unfolding w_def o1_def by (rule overwrite_16) (use l in auto)
  have d: "slice o1 4 6 \<bind> Uint16 = Some (be16 (o0 ! 4) (o0 ! 5))" using l by (simp add: slice_reads o1_def)
  define dd where "dd = bytes16 (be16 (o0 ! 4) (o0 ! 5) + 1)"
  define o3 where "o3 = o1[4 := dd ! 0, 5 := dd ! 1, 10 := 0, 11 := 0]"
  have 2: "overwrite 4 dd o1 = Some (o1[4 := dd ! 0, 5 := dd ! 1])" unfolding dd_def by (rule overwrite_16) (use l in \<open>auto simp: o1_def\<close>)
  have 3: "overwrite 10 [0, 0] (o1[4 := dd ! 0, 5 := dd ! 1]) = Some o3"
    unfolding o3_def by (rule overwrite_zeros) (use l in \<open>auto simp: o1_def\<close>)
  have 4: "slice o3 0 i = Some (take i o3)" using l by (simp add: slice_def o3_def o1_def)
  define o4 where "o4 = forged_ip h hello i"
  have o4: "o4 = o3[10 := bytes16 (checksum (take i o3) 0) ! 0, 11 := bytes16 (checksum (take i o3) 0) ! 1]"
    unfolding o4_def forged_ip_def Let_def o0_def [symmetric] w_def [symmetric] dd_def [symmetric] o1_def [symmetric] o3_def [symmetric] ..
  have 5: "overwrite 10 (bytes16 (checksum (take i o3) 0)) o3 = Some o4"
    unfolding o4 by (rule overwrite_16) (use l in \<open>auto simp: o3_def o1_def\<close>)
  have l4: "length o4 = length o0" by (simp only: o4 o3_def o1_def length_list_update)
  have 6: "byte_at o4 (i + 13) = Some (o4 ! (i + 13))" using l l4 by (simp add: byte_at_def)
  define q where "q = bytes32 (isn + 1 - of_nat (length hello))"
  define o5 where "o5 = o4[i + 13 := o4 ! (i + 13) OR 8]"
  define o6 where "o6 = o5[i + 4 := q ! 0, i + 5 := q ! 1, i + 6 := q ! 2, i + 7 := q ! 3]"
  define o7 where "o7 = o6[i + 16 := 0, i + 17 := 0]"
  have 7: "overwrite (i + 13) [o4 ! (i + 13) OR 8] o4 = Some o5" using l l4 by (simp add: overwrite_1 o5_def)
  have 8: "overwrite (i + 4) q o5 = Some o6" unfolding o6_def q_def by (rule overwrite_32) (use l l4 in \<open>auto simp: o5_def\<close>)
  have 9: "overwrite (i + 16) [0, 0] o6 = Some o7"
    unfolding o7_def by (rule overwrite_zeros) (use l l4 in \<open>auto simp: o6_def o5_def\<close>)
  have l7: "length o7 = length o0" by (simp only: o7_def o6_def o5_def l4 length_list_update)
  have 10: "slice o7 12 20 = Some (take 8 (drop 12 o7))" "slice o7 i (length o7) = Some (drop i o7)"
    using l l7 by (simp_all add: slice_def)
  define o8 where "o8 = forged_tcp o4 (isn + 1 - of_nat (length hello)) i"
  have ps: "take 8 (drop 12 o7) @ [0, 6] @ bytes16 (of_nat (length (drop i o7))) = pseudo_header o7 i"
    by (simp add: pseudo_header_def)
  have o8: "o8 = o7[i + 16 := bytes16 (checksum (drop i o7) (ucast (NOT (checksum (pseudo_header o7 i) 0)))) ! 0,
      i + 17 := bytes16 (checksum (drop i o7) (ucast (NOT (checksum (pseudo_header o7 i) 0)))) ! 1]"
    unfolding o8_def forged_tcp_def Let_def q_def [symmetric] o5_def [symmetric] o6_def [symmetric] o7_def [symmetric] ..
  have 11: "overwrite (i + 16) (bytes16 (checksum (drop i o7) (ucast (NOT (checksum (pseudo_header o7 i) 0))))) o7 = Some o8"
    unfolding o8 by (rule overwrite_16) (use l l7 in auto)
  show ?thesis
    unfolding fakeFrame_def i_def [symmetric] h_def [symmetric] s bind.bind_lunit Let_def o0_def [symmetric] w_def [symmetric] 1 d
      dd_def [symmetric] 2 3 4 5 6 7 q_def [symmetric] 8 9 10 ps 11 o4_def [symmetric] o8_def [symmetric] ..
qed

lemma bytes16_split: "bytes16 w = [bytes16 w ! 0, bytes16 w ! 1]"
  by (simp add: bytes16_def)

lemma forged_ip_length [simp]: "length (forged_ip hdr hello i) = length hdr + length hello"
  by (simp only: forged_ip_def Let_def length_list_update length_append)

lemma forged_ip_keeps: "k \<notin> {2, 3, 4, 5, 10, 11} \<Longrightarrow> forged_ip hdr hello i ! k = (hdr @ hello) ! k"
proof -
  assume "k \<notin> {2, 3, 4, 5, 10, 11}"
  then have "2 \<noteq> k" "3 \<noteq> k" "4 \<noteq> k" "5 \<noteq> k" "10 \<noteq> k" "11 \<noteq> k" by auto
  then show ?thesis by (simp only: forged_ip_def Let_def nth_list_update_neq not_False_eq_True)
qed

lemma forged_ip_total:
  assumes "20 \<le> length hdr"
  shows "be16 (forged_ip hdr hello i ! 2) (forged_ip hdr hello i ! 3) = of_nat (length hdr + length hello)"
proof -
  have "forged_ip hdr hello i ! 2 = bytes16 (of_nat (length (hdr @ hello))) ! 0"
    "forged_ip hdr hello i ! 3 = bytes16 (of_nat (length (hdr @ hello))) ! 1"
    using assms by (simp_all add: forged_ip_def Let_def)
  then show ?thesis using be16_bytes16 [of "of_nat (length (hdr @ hello))"] by (simp add: bytes16_def)
qed

lemma forged_ip_payload:
  assumes "20 \<le> length hdr"
  shows "drop (length hdr) (forged_ip hdr hello i) = hello"
proof -
  have "forged_ip hdr hello i ! (length hdr + k) = hello ! k" for k
    using forged_ip_keeps [of "length hdr + k" hdr hello i] assms by simp
  then show ?thesis by (intro nth_equalityI) auto
qed

lemma forged_ip_verifies:
  assumes "20 \<le> i" and "i \<le> 60" and "i \<le> length hdr"
  shows "reduced (wide_sum (take i (forged_ip hdr hello i))) = 65535"
proof -
  define o1 where "o1 = (let o0 = hdr @ hello; l = bytes16 (of_nat (length o0)); d = bytes16 (be16 (o0 ! 4) (o0 ! 5) + 1) in
     o0[2 := l ! 0, 3 := l ! 1, 4 := d ! 0, 5 := d ! 1, 10 := 0, 11 := 0])"
  define c where "c = bytes16 (checksum (take i o1) 0)"
  have f: "forged_ip hdr hello i = o1[10 := c ! 0, 11 := c ! 1]" by (simp only: forged_ip_def Let_def o1_def c_def)
  have l: "length o1 = length hdr + length hello" by (simp only: o1_def Let_def length_list_update length_append)
  have z: "o1 ! 10 = 0" "o1 ! 11 = 0" using assms by (simp_all add: o1_def Let_def)
  have "reduced (unat (0 :: 32 word) + wide_sum ((take i o1)[2 * 5 := c ! 0, Suc (2 * 5) := c ! 1])) = 65535"
    by (rule checksum_field_verifies) (use assms l z in \<open>auto simp: c_def bytes16_def\<close>)
  moreover have "take i (forged_ip hdr hello i) = (take i o1)[2 * 5 := c ! 0, Suc (2 * 5) := c ! 1]"
    by (simp add: f take_update_swap)
  ultimately show ?thesis by simp
qed

lemma forged_tcp_length [simp]: "length (forged_tcp b sq i) = length b"
  by (simp only: forged_tcp_def Let_def length_list_update)

lemma forged_tcp_keeps:
  "k \<notin> {i + 4, i + 5, i + 6, i + 7, i + 13, i + 16, i + 17} \<Longrightarrow> forged_tcp b sq i ! k = b ! k"
proof -
  assume "k \<notin> {i + 4, i + 5, i + 6, i + 7, i + 13, i + 16, i + 17}"
  then have "i + 4 \<noteq> k" "i + 5 \<noteq> k" "i + 6 \<noteq> k" "i + 7 \<noteq> k" "i + 13 \<noteq> k" "i + 16 \<noteq> k" "i + 17 \<noteq> k" by auto
  then show ?thesis by (simp only: forged_tcp_def Let_def nth_list_update_neq not_False_eq_True)
qed

lemma forged_tcp_writes:
  assumes "i + 20 \<le> length b"
  shows "forged_tcp b sq i ! (i + 13) = b ! (i + 13) OR 8"
    and "be32 (forged_tcp b sq i ! (i + 4)) (forged_tcp b sq i ! (i + 5)) (forged_tcp b sq i ! (i + 6)) (forged_tcp b sq i ! (i + 7)) = sq"
proof -
  show "forged_tcp b sq i ! (i + 13) = b ! (i + 13) OR 8" using assms by (simp add: forged_tcp_def Let_def)
  have "forged_tcp b sq i ! (i + 4) = bytes32 sq ! 0" "forged_tcp b sq i ! (i + 5) = bytes32 sq ! 1"
    "forged_tcp b sq i ! (i + 6) = bytes32 sq ! 2" "forged_tcp b sq i ! (i + 7) = bytes32 sq ! 3"
    using assms by (simp_all add: forged_tcp_def Let_def)
  then show "be32 (forged_tcp b sq i ! (i + 4)) (forged_tcp b sq i ! (i + 5)) (forged_tcp b sq i ! (i + 6)) (forged_tcp b sq i ! (i + 7)) = sq"
    using be32_bytes32 [of sq] by (simp add: bytes32_def)
qed

lemma forged_tcp_front: "take i (forged_tcp b sq i) = take i b"
  by (intro nth_equalityI) (auto simp: forged_tcp_keeps)

lemma forged_tcp_back: "i + 18 \<le> n \<Longrightarrow> drop n (forged_tcp b sq i) = drop n b"
  by (intro nth_equalityI) (auto simp: forged_tcp_keeps)

lemma forged_tcp_verifies:
  assumes "20 \<le> i" and "i + 20 \<le> length b" and "length b \<le> 65535"
  shows "reduced (wide_sum (pseudo_header (forged_tcp b sq i) i @ drop i (forged_tcp b sq i))) = 65535"
proof -
  define o1 where "o1 = b[i + 13 := b ! (i + 13) OR 8, i + 4 := bytes32 sq ! 0, i + 5 := bytes32 sq ! 1, i + 6 := bytes32 sq ! 2,
      i + 7 := bytes32 sq ! 3, i + 16 := 0, i + 17 := 0]"
  define s where "s = (ucast (NOT (checksum (pseudo_header o1 i) 0)) :: 32 word)"
  define c where "c = bytes16 (checksum (drop i o1) s)"
  have f: "forged_tcp b sq i = o1[i + 16 := c ! 0, i + 17 := c ! 1]" by (simp only: forged_tcp_def Let_def o1_def c_def s_def)
  have l: "length o1 = length b" by (simp only: o1_def length_list_update)
  have z: "drop i o1 ! 16 = 0" "drop i o1 ! 17 = 0" using assms l by (simp_all add: o1_def)
  have p: "pseudo_header (forged_tcp b sq i) i = pseudo_header o1 i" using assms(1)
    by (simp add: pseudo_header_def f l take_drop take_update_cancel)
  have lp: "length (pseudo_header o1 i) = 12" using assms l by (simp add: pseudo_header_def)
  then have "unat (0 :: 32 word) + wide_sum (pseudo_header o1 i) < 2 ^ 32"
    using wide_sum_bound [of "pseudo_header o1 i"] by simp
  then have "unat (NOT (checksum (pseudo_header o1 i) 0)) = reduced (wide_sum (pseudo_header o1 i))"
    using unat_checksum [of 0 "pseudo_header o1 i"] reduced_bound by (simp add: unat_not16)
  then have s: "unat s = reduced (wide_sum (pseudo_header o1 i))"
    using reduced_bound [of "wide_sum (pseudo_header o1 i)"] by (simp add: s_def unsigned_ucast_eq take_bit_eq_mod)
  have "reduced (unat s + wide_sum ((drop i o1)[2 * 8 := c ! 0, Suc (2 * 8) := c ! 1])) = 65535"
    by (rule checksum_field_verifies) (use assms l z s reduced_bound [of "wide_sum (pseudo_header o1 i)"] in \<open>auto simp: c_def bytes16_def\<close>)
  moreover have "drop i (forged_tcp b sq i) = (drop i o1)[2 * 8 := c ! 0, Suc (2 * 8) := c ! 1]"
    by (simp add: f drop_update_swap)
  ultimately show ?thesis using lp by (simp add: p wide_sum_append s reduced_absorb)
qed

definition forged :: "bytes \<Rightarrow> bytes \<Rightarrow> 32 word \<Rightarrow> bytes" where
  "forged b hello sq = forged_tcp (forged_ip (take (ihl_of b + thl_of b) b) hello (ihl_of b)) sq (ihl_of b)"

lemma forged_keeps:
  assumes b: "is_ipv4_tcp b" and "k < ihl_of b + thl_of b"
    and "k \<notin> {2, 3, 4, 5, 10, 11}" and "k < ihl_of b + 4 \<or> ihl_of b + 7 < k \<and> k \<noteq> ihl_of b + 13 \<and> k \<noteq> ihl_of b + 16 \<and> k \<noteq> ihl_of b + 17"
  shows "forged b hello sq ! k = b ! k"
proof -
  have "length (take (ihl_of b + thl_of b) b) = ihl_of b + thl_of b" using b by (simp add: is_ipv4_tcp_def)
  then show ?thesis unfolding forged_def using assms by (subst forged_tcp_keeps) (auto simp: forged_ip_keeps nth_append)
qed

lemma forged_is_packet:
  assumes b: "is_ipv4_tcp b" and small: "ihl_of b + thl_of b + length hello \<le> 65535"
  shows "is_ipv4_tcp (forged b hello sq)"
    and "packet_of (forged b hello sq) =
      packet_of b\<lparr>pk_seq := sq, pk_flags := pk_flags (packet_of b) OR 8, pk_payloadLen := length hello\<rparr>"
proof -
  let ?F = "forged b hello sq" and ?i = "ihl_of b" and ?t = "thl_of b" and ?h = "take (ihl_of b + thl_of b) b"
  have r: "20 \<le> ?i" "20 \<le> ?t" "?i + ?t \<le> length b" using b by (simp_all add: is_ipv4_tcp_def)
  then have lh: "length ?h = ?i + ?t" by simp
  have lF: "length ?F = ?i + ?t + length hello" using lh by (simp add: forged_def)
  note keeps = forged_keeps [OF b, of _ hello sq]
  have i: "ihl_of ?F = ?i" using r keeps [of 0] by (simp add: ihl_of_def)
  have t: "thl_of ?F = ?t" using r keeps [of "?i + 12"] by (simp only: thl_of_def i) simp
  have "be16 (?F ! 2) (?F ! 3) = of_nat (?i + ?t + length hello)"
    using r lh forged_ip_total [of ?h hello ?i] by (simp add: forged_def forged_tcp_keeps)
  then have n: "total_of ?F = ?i + ?t + length hello"
    using small by (simp only: total_of_def unat_of_nat) simp
  have k0: "?F ! 0 = b ! 0" "?F ! 6 = b ! 6" "?F ! 7 = b ! 7" "?F ! 9 = b ! 9" using r keeps by auto
  show "is_ipv4_tcp ?F" using b r k0 by (simp add: is_ipv4_tcp_def i t n lF)
  have a: "addr_at ?F 12 = addr_at b 12" "addr_at ?F 16 = addr_at b 16" using r keeps by (auto simp: addr_at_def)
  have p: "?F ! ?i = b ! ?i" "?F ! (?i + 1) = b ! (?i + 1)" "?F ! (?i + 2) = b ! (?i + 2)" "?F ! (?i + 3) = b ! (?i + 3)"
    "?F ! (?i + 8) = b ! (?i + 8)" "?F ! (?i + 9) = b ! (?i + 9)" "?F ! (?i + 10) = b ! (?i + 10)" "?F ! (?i + 11) = b ! (?i + 11)"
    using r by (auto intro!: keeps)
  have lf: "?i + 20 \<le> length (forged_ip ?h hello ?i)" using r lh by simp
  have w: "?F ! (?i + 13) = b ! (?i + 13) OR 8"
    using forged_tcp_writes(1) [OF lf, of sq] r lh by (simp add: forged_def forged_ip_keeps nth_append)
  have sq: "be32 (?F ! (?i + 4)) (?F ! (?i + 5)) (?F ! (?i + 6)) (?F ! (?i + 7)) = sq"
    using forged_tcp_writes(2) [OF lf, of sq] by (simp only: forged_def)
  show "packet_of ?F = packet_of b\<lparr>pk_seq := sq, pk_flags := pk_flags (packet_of b) OR 8, pk_payloadLen := length hello\<rparr>"
    by (simp only: packet_of_def Let_def i t n a p w sq) simp
qed

text \<open>What an Internet host checks of an arriving segment.\<close>

definition checksums_ok :: "bytes \<Rightarrow> nat \<Rightarrow> bool" where
  "checksums_ok b i \<longleftrightarrow> checksum (take i b) 0 = 0 \<and> checksum (pseudo_header b i @ drop i b) 0 = 0"

lemma forged_checksums:
  assumes b: "is_ipv4_tcp b" and small: "ihl_of b + thl_of b + length hello \<le> 65535"
  shows "checksums_ok (forged b hello sq) (ihl_of b)"
proof -
  let ?F = "forged b hello sq" and ?i = "ihl_of b" and ?h = "take (ihl_of b + thl_of b) b"
  have r: "20 \<le> ?i" "20 \<le> thl_of b" "?i + thl_of b \<le> length b" using b by (simp_all add: is_ipv4_tcp_def)
  then have lh: "length ?h = ?i + thl_of b" by simp
  have i60: "?i \<le> 60" using packet_of_fits [OF b] by (simp add: packet_fits_def packet_of_def Let_def)
  have lF: "length ?F \<le> 65535" using lh small by (simp add: forged_def)
  have "reduced (wide_sum (take ?i ?F)) = 65535"
    using forged_ip_verifies [of ?i ?h hello] r lh i60 by (simp add: forged_def forged_tcp_front)
  moreover have "unat (0 :: 32 word) + wide_sum (take ?i ?F) < 2 ^ 32"
    using wide_sum_bound [of "take ?i ?F"] i60 by simp
  ultimately have ip: "checksum (take ?i ?F) 0 = 0" by (intro checksum_zero) simp_all
  have "reduced (wide_sum (pseudo_header ?F ?i @ drop ?i ?F)) = 65535"
    unfolding forged_def by (rule forged_tcp_verifies) (use r lh small in auto)
  moreover have "length (pseudo_header ?F ?i @ drop ?i ?F) \<le> 65547" using lF by (simp add: pseudo_header_def)
  then have "unat (0 :: 32 word) + wide_sum (pseudo_header ?F ?i @ drop ?i ?F) < 2 ^ 32"
    using wide_sum_bound [of "pseudo_header ?F ?i @ drop ?i ?F"] by simp
  ultimately have "checksum (pseudo_header ?F ?i @ drop ?i ?F) 0 = 0" by (intro checksum_zero) simp_all
  with ip show ?thesis by (simp add: checksums_ok_def)
qed

section \<open>Main results\<close>

text \<open>C40. Reading captured traffic never panics: on every byte sequence \<open>parsePacket\<close> and \<open>ethernetFrame\<close> return, an
  accepted packet has header lengths between 20 and 60 bytes that fit in the packet, and a decoded Ethernet frame is
  the input cut in two.
\<close>

theorem captured_bytes_never_panic:
  "(case parsePacket b of None \<Rightarrow> False | Some None \<Rightarrow> True | Some (Some p) \<Rightarrow> packet_fits b p) \<and>
   (case ethernetFrame b of None \<Rightarrow> False | Some None \<Rightarrow> True | Some (Some f) \<Rightarrow> fr_prefix f @ fr_ip f = b \<and> 14 \<le> length (fr_prefix f))"
  using ethernetFrame_safe [of b] packet_of_fits [of b] by (auto simp: parsePacket_eq split: option.split)

text \<open>
  The checksum with its carries deferred in 32 bits and folded at the end is the end-around-carry sum of RFC 1071
  on every input of at most 65535 bytes: the wide accumulator does not overflow and the folding loop ends.
\<close>

theorem checksum_is_ones_complement:
  assumes "length b \<le> 65535" and "s \<le> 65535"
  shows "unat (checksum b (of_nat s)) = 65535 - ones_sum s b"
proof -
  have s: "unat (of_nat s :: 32 word) = s" using assms by (simp add: unat_of_nat)
  then have "unat (of_nat s :: 32 word) + wide_sum b < 2 ^ 32" using assms wide_sum_bound [of b] by simp
  then show ?thesis using unat_checksum ones_sum_reduced [of s b] reduced_id [OF assms(2)] by (simp only: s)
qed

theorem checksum_is_ones_complement_witness:
  "unat (checksum [0x00, 0x01, 0xf2, 0x03, 0xf4, 0xf5, 0xf6, 0xf7] 0) = 0x220d"
  using checksum_is_ones_complement [of "[0x00, 0x01, 0xf2, 0x03, 0xf4, 0xf5, 0xf6, 0xf7]" 0] by (simp add: ones_add_def)

text \<open>C37. The forged segment is what the peer must see as a duplicate. Built from a captured packet that parses, it never
  panics; it parses back as the captured packet with the sequence number \<open>isn + 1 - len(hello)\<close>, the push flag and the
  forged payload, its IP header checksum and its TCP checksum over the pseudo header verify, and nothing else of the
  frame changes.
\<close>

theorem forged_segment_is_valid:
  assumes "parsePacket (fr_ip f) = Some (Some p)" and "pk_ipLen p + pk_tcpLen p + length hello \<le> 65535"
  shows "\<exists>f'. fakeFrame f p isn hello = Some f' \<and> f' = f\<lparr>fr_ip := fr_ip f'\<rparr> \<and>
    parsePacket (fr_ip f') = Some (Some (p\<lparr>pk_seq := isn + 1 - of_nat (length hello), pk_flags := pk_flags p OR 8,
      pk_payloadLen := length hello\<rparr>)) \<and>
    drop (pk_ipLen p + pk_tcpLen p) (fr_ip f') = hello \<and> checksums_ok (fr_ip f') (pk_ipLen p)"
proof -
  have b: "is_ipv4_tcp (fr_ip f)" and p: "p = packet_of (fr_ip f)" using assms(1) by (auto simp: parsePacket_eq split: if_splits)
  have i: "pk_ipLen p = ihl_of (fr_ip f)" "pk_tcpLen p = thl_of (fr_ip f)" by (simp_all add: p packet_of_def Let_def)
  let ?F = "forged (fr_ip f) hello (isn + 1 - of_nat (length hello))"
  have "fakeFrame f p isn hello = Some (f\<lparr>fr_ip := ?F\<rparr>)"
    using fakeFrame_eq [of f p isn hello] packet_of_fits [OF b] by (simp add: forged_def p i [unfolded p])
  moreover have "ihl_of (fr_ip f) + thl_of (fr_ip f) \<le> length (fr_ip f)" "20 \<le> thl_of (fr_ip f)" using b by (simp_all add: is_ipv4_tcp_def)
  then have "drop (pk_ipLen p + pk_tcpLen p) ?F = hello"
    using forged_ip_payload [of "take (ihl_of (fr_ip f) + thl_of (fr_ip f)) (fr_ip f)" hello "ihl_of (fr_ip f)"]
    by (simp add: forged_def i forged_tcp_back min_absorb2)
  ultimately show ?thesis using forged_is_packet [OF b assms(2) [unfolded i]] forged_checksums [OF b assms(2) [unfolded i]]
    by (simp add: parsePacket_eq p i [unfolded p])
qed

definition sample_ack :: bytes where
  "sample_ack = [0x45, 0, 0, 40, 0x12, 0x34, 0x40, 0, 64, 6, 0, 0, 192, 168, 1, 7, 203, 0, 113, 9,
     0xc3, 0x50, 0x01, 0xbb, 0, 0, 0x03, 0xe9, 0, 0, 0x13, 0x89, 0x50, 16, 0xff, 0xff, 0, 0, 0, 0]"

theorem forged_segment_is_valid_witness:
  "\<exists>p f'. parsePacket sample_ack = Some (Some p) \<and>
     fakeFrame \<lparr>fr_ip = sample_ack, fr_prefix = [], fr_address = []\<rparr> p 1000 [22, 3, 1] = Some f' \<and>
     checksums_ok (fr_ip f') 20 \<and> drop 40 (fr_ip f') = [22, 3, 1] \<and>
     (\<exists>q. parsePacket (fr_ip f') = Some (Some q) \<and> pk_seq q = 998 \<and> pk_flags q = 24 \<and> pk_payloadLen q = 3)"
proof -
  have h: "ihl_of sample_ack = 20" by (simp add: ihl_of_def sample_ack_def)
  have t: "thl_of sample_ack = 20" by (simp add: thl_of_def h) (simp add: sample_ack_def drop_bit_eq_div)
  have n: "total_of sample_ack = 40" by (simp add: total_of_def unat_be16) (simp add: sample_ack_def)
  have a: "is_ipv4_tcp sample_ack" by (simp add: is_ipv4_tcp_def h t n) (simp add: sample_ack_def be16_def drop_bit_eq_div)
  have p: "pk_ipLen (packet_of sample_ack) = 20" "pk_tcpLen (packet_of sample_ack) = 20" "pk_flags (packet_of sample_ack) = 16"
    by (simp_all add: packet_of_def Let_def h t) (simp add: sample_ack_def)
  obtain f' where "fakeFrame \<lparr>fr_ip = sample_ack, fr_prefix = [], fr_address = []\<rparr> (packet_of sample_ack) 1000 [22, 3, 1] = Some f'"
    "drop 40 (fr_ip f') = [22, 3, 1]" "checksums_ok (fr_ip f') 20"
    "parsePacket (fr_ip f') = Some (Some (packet_of sample_ack\<lparr>pk_seq := 1000 + 1 - of_nat 3, pk_flags := 16 OR 8, pk_payloadLen := 3\<rparr>))"
    using forged_segment_is_valid [of "\<lparr>fr_ip = sample_ack, fr_prefix = [], fr_address = []\<rparr>" "packet_of sample_ack" "[22, 3, 1]" 1000] a p
    by (auto simp: parsePacket_eq)
  then show ?thesis using a by (intro exI [of _ "packet_of sample_ack"] exI [of _ f']) (simp add: parsePacket_eq)
qed

end
