(* ===== verification/Flow.thy ===== *)
theory Flow
  imports Packet "HOL-Library.Sublist"
begin

unbundle bit_operations_syntax

text \<open>
  The handshake watcher of the SNI prelude: \<open>flow\<close>, \<open>finish\<close> and \<open>observe\<close> of \<open>src/internal/snispoof/packet.go\<close>, the
  part of \<open>inject\<close> in \<open>forwarder.go\<close> that runs under the lock of a flow, and the runs of one flow as an inductive
  predicate. A flow is confirmed only by the full exchange SYN, SYN-ACK, third ACK, forged segment, acknowledgement.
\<close>

section \<open>The watcher\<close>

datatype spoof_error = ErrName | ErrUnsupported | ErrUnavailable | ErrConfirmation

record flow =
  fl_hello :: bytes
  fl_isn :: "32 word"
  fl_peerISN :: "32 word"
  fl_sawSYN :: bool
  fl_sawSYNACK :: bool
  fl_scheduled :: bool
  fl_sent :: bool
  fl_finished :: bool
  fl_done :: bool
  fl_err :: "spoof_error option"

definition new_flow :: "bytes \<Rightarrow> flow" where
  "new_flow hello = \<lparr>fl_hello = hello, fl_isn = 0, fl_peerISN = 0, fl_sawSYN = False, fl_sawSYNACK = False,
     fl_scheduled = False, fl_sent = False, fl_finished = False, fl_done = False, fl_err = None\<rparr>"

text \<open>Closing a closed channel panics; \<^const>\<open>fl_done\<close> says that the channel is closed.\<close>

definition close_done :: "flow \<Rightarrow> flow go" where
  "close_done f = (if fl_done f then None else Some (f\<lparr>fl_done := True\<rparr>))"

definition finish :: "flow \<Rightarrow> spoof_error option \<Rightarrow> flow go" where
  "finish f e = (if \<not> fl_finished f then close_done (f\<lparr>fl_err := e, fl_finished := True\<rparr>) else Some f)"

text \<open>Every refusal of the watcher ends the flow and asks for no injection.\<close>

definition refuse :: "flow \<Rightarrow> (flow \<times> bool) go" where
  "refuse f = map_option (\<lambda>f. (f, False)) (finish f (Some ErrConfirmation))"

definition observe :: "flow \<Rightarrow> packet \<Rightarrow> bool \<Rightarrow> (flow \<times> bool) go" where
  "observe f p outbound =
    (if fl_finished f then Some (f, False)
     else if pk_flags p AND (fin_flag OR rst_flag) \<noteq> 0 then refuse f
     else if outbound \<and> fl_sent f \<and> pk_seq p = fl_isn f + 1 - of_nat (length (fl_hello f)) \<and> pk_payloadLen p = length (fl_hello f) then
       Some (f, False)
     else if pk_payloadLen p \<noteq> 0 then refuse f
     else if outbound \<and> pk_flags p AND syn_flag \<noteq> 0 \<and> pk_flags p AND ack_flag = 0 then
       if pk_ack p \<noteq> 0 \<or> fl_sawSYN f \<and> fl_isn f \<noteq> pk_seq p then refuse f
       else Some (f\<lparr>fl_isn := pk_seq p, fl_sawSYN := True\<rparr>, False)
     else if \<not> outbound \<and> pk_flags p AND (syn_flag OR ack_flag) = syn_flag OR ack_flag then
       if \<not> fl_sawSYN f \<or> pk_ack p \<noteq> fl_isn f + 1 \<or> fl_sawSYNACK f \<and> fl_peerISN f \<noteq> pk_seq p then refuse f
       else Some (f\<lparr>fl_peerISN := pk_seq p, fl_sawSYNACK := True\<rparr>, False)
     else if pk_flags p AND ack_flag = 0 \<or> pk_flags p AND syn_flag \<noteq> 0 then refuse f
     else if outbound then
       if \<not> fl_sawSYNACK f \<or> pk_seq p \<noteq> fl_isn f + 1 \<or> pk_ack p \<noteq> fl_peerISN f + 1 then refuse f
       else if \<not> fl_scheduled f then Some (f\<lparr>fl_scheduled := True\<rparr>, True)
       else Some (f, False)
     else if fl_sent f then
       if pk_seq p \<noteq> fl_peerISN f + 1 \<or> pk_ack p \<noteq> fl_isn f + 1 then refuse f
       else map_option (\<lambda>f. (f, False)) (finish f None)
     else Some (f, False))"

text \<open>The end of \<open>inject\<close>: nothing for a finished flow, otherwise the outcome of sending the forged frame.\<close>

definition record_send :: "flow \<Rightarrow> bool \<Rightarrow> flow go" where
  "record_send f ok =
    (if fl_finished f then Some f
     else if \<not> ok then finish f (Some ErrConfirmation)
     else Some (f\<lparr>fl_sent := True\<rparr>))"

section \<open>Runs of one flow\<close>

datatype flow_event = Seen packet bool | Injected bool | Dropped | GaveUp

text \<open>
  The events of a flow so far, its state, and the injections asked for but not yet carried out. A packet may be
  observed at any time; each injection the watcher asked for either runs once or is dropped at shutdown; \<open>connect\<close>
  gives the flow up when it returns.
\<close>

inductive flow_run :: "bytes \<Rightarrow> flow_event list \<Rightarrow> flow \<Rightarrow> nat \<Rightarrow> bool" for hello where
  flow_start: "flow_run hello [] (new_flow hello) 0"
| flow_seen: "flow_run hello evs f n \<Longrightarrow> observe f p outbound = Some (f', asked) \<Longrightarrow>
    flow_run hello (evs @ [Seen p outbound]) f' (if asked then Suc n else n)"
| flow_inject: "flow_run hello evs f (Suc n) \<Longrightarrow> record_send f ok = Some f' \<Longrightarrow> flow_run hello (evs @ [Injected ok]) f' n"
| flow_drop: "flow_run hello evs f (Suc n) \<Longrightarrow> flow_run hello (evs @ [Dropped]) f n"
| flow_give_up: "flow_run hello evs f n \<Longrightarrow> finish f (Some ErrConfirmation) = Some f' \<Longrightarrow> flow_run hello (evs @ [GaveUp]) f' n"

inductive_cases flow_run_snoc: "flow_run hello evs f n"

section \<open>The exchange that confirms a flow\<close>

definition bare :: "packet \<Rightarrow> bool" where
  "bare p \<longleftrightarrow> pk_flags p AND (fin_flag OR rst_flag) = 0 \<and> pk_payloadLen p = 0"

definition is_SYN :: "32 word \<Rightarrow> flow_event \<Rightarrow> bool" where
  "is_SYN isn e = (case e of Seen p True \<Rightarrow> bare p \<and> pk_flags p AND syn_flag \<noteq> 0 \<and> pk_flags p AND ack_flag = 0 \<and>
     pk_seq p = isn \<and> pk_ack p = 0 | _ \<Rightarrow> False)"

definition is_SYNACK :: "32 word \<Rightarrow> 32 word \<Rightarrow> flow_event \<Rightarrow> bool" where
  "is_SYNACK isn peer e = (case e of Seen p False \<Rightarrow> bare p \<and> pk_flags p AND (syn_flag OR ack_flag) = syn_flag OR ack_flag \<and>
     pk_seq p = peer \<and> pk_ack p = isn + 1 | _ \<Rightarrow> False)"

text \<open>A bare acknowledgement in a direction; \<open>observe\<close> accepts it with the numbers of the handshake only.\<close>

definition is_ACK :: "bool \<Rightarrow> 32 word \<Rightarrow> 32 word \<Rightarrow> flow_event \<Rightarrow> bool" where
  "is_ACK outbound sq ak e = (case e of Seen p out \<Rightarrow> out = outbound \<and> bare p \<and> pk_flags p AND ack_flag \<noteq> 0 \<and>
     pk_flags p AND syn_flag = 0 \<and> pk_seq p = sq \<and> pk_ack p = ak | _ \<Rightarrow> False)"

definition exchange :: "32 word \<Rightarrow> 32 word \<Rightarrow> (flow_event \<Rightarrow> bool) list" where
  "exchange isn peer = [is_SYN isn, is_SYNACK isn peer, is_ACK True (isn + 1) (peer + 1), (\<lambda>e. e = Injected True),
     is_ACK False (peer + 1) (isn + 1)]"

text \<open>The first \<open>k\<close> stages of the exchange occur in this order.\<close>

definition progress :: "32 word \<Rightarrow> 32 word \<Rightarrow> nat \<Rightarrow> flow_event list \<Rightarrow> bool" where
  "progress isn peer k evs \<longleftrightarrow> (\<exists>es. subseq es evs \<and> list_all2 (\<lambda>P e. P e) (take k (exchange isn peer)) es)"

lemma progress_0 [simp]: "progress isn peer 0 evs"
  by (auto simp: progress_def)

lemma progress_more: "progress isn peer k evs \<Longrightarrow> progress isn peer k (evs @ [e])"
  unfolding progress_def by (meson list_emb_append2 subseq_rev_drop_many)

lemma progress_next:
  assumes "progress isn peer k evs" and "k < 5" and "(exchange isn peer ! k) e"
  shows "progress isn peer (Suc k) (evs @ [e])"
proof -
  obtain es where es: "subseq es evs" "list_all2 (\<lambda>P e. P e) (take k (exchange isn peer)) es"
    using assms(1) by (auto simp: progress_def)
  have "take (Suc k) (exchange isn peer) = take k (exchange isn peer) @ [exchange isn peer ! k]"
    using assms(2) by (intro take_Suc_conv_app_nth) (simp add: exchange_def)
  then have "list_all2 (\<lambda>P e. P e) (take (Suc k) (exchange isn peer)) (es @ [e])"
    using es(2) assms(3) by (simp add: list_all2_appendI)
  moreover have "subseq (es @ [e]) (evs @ [e])" using es(1) by simp
  ultimately show ?thesis unfolding progress_def by blast
qed

lemma progress_1_peer: "progress isn peer 1 evs \<Longrightarrow> progress isn peer' 1 evs"
  by (simp add: progress_def exchange_def)

section \<open>The invariant of a flow\<close>

definition flow_inv :: "flow_event list \<Rightarrow> flow \<Rightarrow> nat \<Rightarrow> bool" where
  "flow_inv evs f n \<longleftrightarrow>
    (fl_done f \<longleftrightarrow> fl_finished f) \<and>
    (fl_sawSYN f \<longrightarrow> progress (fl_isn f) (fl_peerISN f) 1 evs) \<and>
    (fl_sawSYNACK f \<longrightarrow> fl_sawSYN f \<and> progress (fl_isn f) (fl_peerISN f) 2 evs) \<and>
    (fl_scheduled f \<longrightarrow> fl_sawSYNACK f \<and> progress (fl_isn f) (fl_peerISN f) 3 evs) \<and>
    (fl_sent f \<longrightarrow> fl_scheduled f \<and> progress (fl_isn f) (fl_peerISN f) 4 evs) \<and>
    (fl_finished f \<and> fl_err f = None \<longrightarrow> progress (fl_isn f) (fl_peerISN f) 5 evs) \<and>
    (0 < n \<longrightarrow> fl_scheduled f) \<and>
    length (filter (\<lambda>e. e \<in> {Injected True, Injected False, Dropped}) evs) + n = (if fl_scheduled f then 1 else 0)"

lemma flow_inv_start: "flow_inv [] (new_flow hello) 0"
  by (simp add: flow_inv_def new_flow_def)

definition injection_event :: "flow_event \<Rightarrow> bool" where
  "injection_event e \<longleftrightarrow> e \<in> {Injected True, Injected False, Dropped}"

lemma flow_inv_stutter: "flow_inv evs f n \<Longrightarrow> \<not> injection_event e \<Longrightarrow> flow_inv (evs @ [e]) f n"
  by (auto simp: flow_inv_def injection_event_def progress_more)

lemma finish_eq:
  "fl_done f \<longleftrightarrow> fl_finished f \<Longrightarrow>
   finish f e = Some (if fl_finished f then f else f\<lparr>fl_err := e, fl_finished := True, fl_done := True\<rparr>)"
  by (simp add: finish_def close_done_def)

lemma flow_inv_finish:
  assumes "flow_inv evs f n" and "\<not> injection_event e" and "e' = None \<longrightarrow> progress (fl_isn f) (fl_peerISN f) 5 (evs @ [e])"
  shows "flow_inv (evs @ [e]) (if fl_finished f then f else f\<lparr>fl_err := e', fl_finished := True, fl_done := True\<rparr>) n"
  using assms flow_inv_stutter [OF assms(1,2)] by (auto simp: flow_inv_def)

lemma flow_inv_done: "flow_inv evs f n \<Longrightarrow> fl_done f \<longleftrightarrow> fl_finished f"
  by (simp add: flow_inv_def)

text \<open>What one observation may change: nothing, an end with an error, or one more stage of the exchange.\<close>

lemma refuse_inv:
  assumes "flow_inv evs f n" and "\<not> injection_event e"
  shows "\<exists>f'. refuse f = Some (f', False) \<and> flow_inv (evs @ [e]) f' n"
  using assms finish_eq [OF flow_inv_done [OF assms(1)], of "Some ErrConfirmation"] flow_inv_finish [of evs f n e "Some ErrConfirmation"]
  by (simp add: refuse_def)

lemma observe_SYN_inv:
  assumes i: "flow_inv evs f n" and "is_SYN s e" and "\<not> injection_event e" and "fl_sawSYN f \<longrightarrow> fl_isn f = s" and "\<not> fl_finished f"
  shows "flow_inv (evs @ [e]) (f\<lparr>fl_isn := s, fl_sawSYN := True\<rparr>) n"
proof -
  have "progress s (fl_peerISN f) 1 (evs @ [e])"
    using progress_next [of s "fl_peerISN f" 0 evs e] assms(2) by (simp add: exchange_def)
  then show ?thesis using assms(4,5) flow_inv_stutter [OF i assms(3)] by (auto simp: flow_inv_def)
qed

lemma observe_SYNACK_inv:
  assumes i: "flow_inv evs f n" and "is_SYNACK (fl_isn f) s e" and "\<not> injection_event e"
    and "fl_sawSYN f" and "fl_sawSYNACK f \<longrightarrow> fl_peerISN f = s" and "\<not> fl_finished f"
  shows "flow_inv (evs @ [e]) (f\<lparr>fl_peerISN := s, fl_sawSYNACK := True\<rparr>) n"
proof -
  have "progress (fl_isn f) s 1 evs" using i assms(4) progress_1_peer by (auto simp: flow_inv_def)
  then have "progress (fl_isn f) s 2 (evs @ [e])" "progress (fl_isn f) s 1 (evs @ [e])"
    using progress_next [of "fl_isn f" s 1 evs e] assms(2) progress_more by (simp_all add: exchange_def numeral_2_eq_2)
  then show ?thesis using assms(4-6) flow_inv_stutter [OF i assms(3)] by (auto simp: flow_inv_def)
qed

lemma observe_third_inv:
  assumes i: "flow_inv evs f n" and "is_ACK True (fl_isn f + 1) (fl_peerISN f + 1) e" and "\<not> injection_event e"
    and "fl_sawSYNACK f" and "\<not> fl_scheduled f" and "\<not> fl_finished f"
  shows "flow_inv (evs @ [e]) (f\<lparr>fl_scheduled := True\<rparr>) (Suc n)"
proof -
  have "progress (fl_isn f) (fl_peerISN f) 2 evs" using i assms(4) by (auto simp: flow_inv_def)
  then have "progress (fl_isn f) (fl_peerISN f) 3 (evs @ [e])"
    using progress_next [of "fl_isn f" "fl_peerISN f" 2 evs e] assms(2) by (simp add: exchange_def)
  then show ?thesis using assms(4-6) flow_inv_stutter [OF i assms(3)] by (auto simp: flow_inv_def)
qed

lemma observe_confirm_inv:
  assumes i: "flow_inv evs f n" and "is_ACK False (fl_peerISN f + 1) (fl_isn f + 1) e" and "\<not> injection_event e"
    and "fl_sent f"
  shows "flow_inv (evs @ [e]) (if fl_finished f then f else f\<lparr>fl_err := None, fl_finished := True, fl_done := True\<rparr>) n"
proof (rule flow_inv_finish [OF i assms(3)])
  have "progress (fl_isn f) (fl_peerISN f) 4 evs" using i assms(4) by (auto simp: flow_inv_def)
  then show "None = None \<longrightarrow> progress (fl_isn f) (fl_peerISN f) 5 (evs @ [e])"
    using progress_next [of "fl_isn f" "fl_peerISN f" 4 evs e] assms(2) by (simp add: exchange_def)
qed

lemma seen_not_injection: "\<not> injection_event (Seen p outbound)"
  by (simp add: injection_event_def)

lemma observe_inv:
  assumes i: "flow_inv evs f n"
  shows "\<exists>f' asked. observe f p outbound = Some (f', asked) \<and> flow_inv (evs @ [Seen p outbound]) f' (if asked then Suc n else n)"
proof -
  let ?e = "Seen p outbound"
  note ni = seen_not_injection [of p outbound]
  define Q where "Q r \<longleftrightarrow> (\<exists>f' asked. r = Some (f', asked) \<and> flow_inv (evs @ [?e]) f' (if asked then Suc n else n))" for r
  have refused: "Q (refuse f)" using refuse_inv [OF i ni] by (auto simp: Q_def)
  have same: "Q (Some (f, False))" using flow_inv_stutter [OF i ni] by (auto simp: Q_def)
  have confirmed: "is_ACK False (fl_peerISN f + 1) (fl_isn f + 1) ?e \<Longrightarrow> fl_sent f \<Longrightarrow>
      Q (map_option (\<lambda>f. (f, False)) (finish f None))"
    unfolding Q_def finish_eq [OF flow_inv_done [OF i]] option.map
    by (intro exI conjI, rule refl) (simp only: if_False observe_confirm_inv [OF i _ ni])
  have some: "flow_inv (evs @ [?e]) g (if asked then Suc n else n) \<Longrightarrow> Q (Some (g, asked))" for g asked
    unfolding Q_def by (intro exI conjI, rule refl)
  have choice: "Q (if c then a else b)" if "c \<Longrightarrow> Q a" and "\<not> c \<Longrightarrow> Q b" for c a b using that by simp
  have "Q (observe f p outbound)" unfolding observe_def
    by (intro choice;
        (rule refused same confirmed | (rule some, unfold if_True if_False,
          rule observe_SYN_inv [OF i _ ni] observe_SYNACK_inv [OF i _ ni] observe_third_inv [OF i _ ni])))
      (auto simp: is_SYN_def is_SYNACK_def is_ACK_def bare_def)
  then show ?thesis by (simp add: Q_def)
qed

lemma record_send_inv:
  assumes i: "flow_inv evs f (Suc n)"
  shows "\<exists>f'. record_send f ok = Some f' \<and> flow_inv (evs @ [Injected ok]) f' n"
proof -
  have p: "progress (fl_isn f) (fl_peerISN f) 3 evs" "fl_scheduled f" using i by (auto simp: flow_inv_def)
  have "ok \<Longrightarrow> progress (fl_isn f) (fl_peerISN f) 4 (evs @ [Injected ok])"
    using progress_next [OF p(1), of "Injected ok"] by (simp add: exchange_def)
  then show ?thesis using i p(2) finish_eq [OF flow_inv_done [OF i], of "Some ErrConfirmation"]
    by (cases ok) (auto simp: record_send_def flow_inv_def progress_more)
qed

lemma drop_inv: "flow_inv evs f (Suc n) \<Longrightarrow> flow_inv (evs @ [Dropped]) f n"
  by (auto simp: flow_inv_def progress_more)

lemma give_up_inv:
  assumes i: "flow_inv evs f n"
  shows "\<exists>f'. finish f (Some ErrConfirmation) = Some f' \<and> flow_inv (evs @ [GaveUp]) f' n"
  using finish_eq [OF flow_inv_done [OF i]] flow_inv_finish [OF i, of GaveUp "Some ErrConfirmation"]
  by (simp add: injection_event_def)

lemma flow_run_inv: "flow_run hello evs f n \<Longrightarrow> flow_inv evs f n"
proof (induction rule: flow_run.induct)
  case flow_start
  show ?case by (rule flow_inv_start)
next
  case (flow_seen evs f n p outbound f' asked)
  then show ?case using observe_inv [of evs f n p outbound] by auto
next
  case (flow_inject evs f n ok f')
  then show ?case using record_send_inv [of evs f n ok] by auto
next
  case (flow_drop evs f n)
  then show ?case by (simp add: drop_inv)
next
  case (flow_give_up evs f n f')
  then show ?case using give_up_inv [of evs f n] by auto
qed

section \<open>Main results\<close>

text \<open>
  A connection is released to the client only after the whole exchange. On every run of a flow, whatever packets
  are seen and however injections and observations interleave: if the flow ends without error, then the events contain,
  in this order, the outbound SYN, the SYN-ACK that acknowledges it, the third ACK, the successful sending of the
  forged segment and the peer's acknowledgement of the handshake, with the sequence numbers of one handshake and
  without FIN, RST or payload; and at most one injection ever happens.
\<close>

theorem confirmed_only_after_exchange:
  assumes "flow_run hello evs f n"
  shows "(fl_finished f \<and> fl_err f = None \<longrightarrow>
      (\<exists>es. subseq es evs \<and> list_all2 (\<lambda>P e. P e) (exchange (fl_isn f) (fl_peerISN f)) es)) \<and>
    length (filter injection_event evs) + n \<le> 1"
proof -
  have i: "flow_inv evs f n" by (rule flow_run_inv [OF assms])
  have "length (exchange (fl_isn f) (fl_peerISN f)) = 5" by (simp add: exchange_def)
  then have "take 5 (exchange (fl_isn f) (fl_peerISN f)) = exchange (fl_isn f) (fl_peerISN f)" by simp
  moreover have "filter injection_event evs = filter (\<lambda>e. e \<in> {Injected True, Injected False, Dropped}) evs"
    by (rule filter_cong) (auto simp: injection_event_def)
  ultimately show ?thesis using i by (auto simp: flow_inv_def progress_def)
qed

definition handshake_packet :: "32 word \<Rightarrow> 32 word \<Rightarrow> byte \<Rightarrow> packet" where
  "handshake_packet sq ak flags = \<lparr>pk_src = \<lparr>ap_addr = V4 0, ap_port = 1\<rparr>, pk_dst = \<lparr>ap_addr = V4 1, ap_port = 2\<rparr>, pk_seq = sq, pk_ack = ak,
     pk_flags = flags, pk_ipLen = 20, pk_tcpLen = 20, pk_payloadLen = 0\<rparr>"

lemma sample_run:
  "\<exists>f. flow_run [1, 2] [Seen (handshake_packet 100 0 2) True, Seen (handshake_packet 900 101 18) False,
       Seen (handshake_packet 101 901 16) True, Injected True, Seen (handshake_packet 901 101 16) False] f 0 \<and>
     fl_finished f \<and> fl_err f = None"
proof -
  let ?s1 = "new_flow [1, 2]\<lparr>fl_isn := 100, fl_sawSYN := True\<rparr>"
  let ?s2 = "?s1\<lparr>fl_peerISN := 900, fl_sawSYNACK := True\<rparr>"
  let ?s4 = "?s2\<lparr>fl_scheduled := True, fl_sent := True\<rparr>"
  let ?s5 = "?s4\<lparr>fl_err := None, fl_finished := True, fl_done := True\<rparr>"
  note flags = observe_def handshake_packet_def new_flow_def fin_flag_def syn_flag_def rst_flag_def ack_flag_def
  have "flow_run [1, 2] [Seen (handshake_packet 100 0 2) True] ?s1 0"
    using flow_seen [OF flow_start, of "[1, 2]" "handshake_packet 100 0 2" True ?s1 False] by (simp add: flags)
  from flow_seen [OF this, of "handshake_packet 900 101 18" False ?s2 False]
  have "flow_run [1, 2] [Seen (handshake_packet 100 0 2) True, Seen (handshake_packet 900 101 18) False] ?s2 0" by (simp add: flags)
  from flow_seen [OF this, of "handshake_packet 101 901 16" True "?s2\<lparr>fl_scheduled := True\<rparr>" True]
  have "flow_run [1, 2] [Seen (handshake_packet 100 0 2) True, Seen (handshake_packet 900 101 18) False,
       Seen (handshake_packet 101 901 16) True] (?s2\<lparr>fl_scheduled := True\<rparr>) (Suc 0)" by (simp add: flags)
  from flow_inject [OF this, of True ?s4]
  have "flow_run [1, 2] [Seen (handshake_packet 100 0 2) True, Seen (handshake_packet 900 101 18) False,
       Seen (handshake_packet 101 901 16) True, Injected True] ?s4 0" by (simp add: record_send_def new_flow_def)
  from flow_seen [OF this, of "handshake_packet 901 101 16" False ?s5 False]
  show ?thesis by (intro exI [of _ ?s5]) (simp add: flags finish_def close_done_def)
qed

theorem confirmed_only_after_exchange_witness:
  "\<exists>evs f. flow_run [1, 2] evs f 0 \<and> fl_finished f \<and> fl_err f = None \<and>
     (\<exists>es. subseq es evs \<and> list_all2 (\<lambda>P e. P e) (exchange (fl_isn f) (fl_peerISN f)) es)"
proof -
  obtain evs f where r: "flow_run [1, 2] evs f 0" "fl_finished f" "fl_err f = None" using sample_run by blast
  then show ?thesis using confirmed_only_after_exchange [OF r(1)] by blast
qed

end
