(* ===== verification/Hello.thy ===== *)
theory Hello
  imports Bytes Gostr Netip Flow
begin

text \<open>
  The forged ClientHello: \<open>src/internal/snispoof/hello.go\<close>. The conversion of international names
  (\<open>idna.Lookup.ToASCII\<close>) and the random bytes are parameters.
\<close>

section \<open>Names\<close>

type_synonym to_ascii = "string \<Rightarrow> string option"

definition name_char :: "char \<Rightarrow> bool" where
  "name_char c \<longleftrightarrow> is_lower c \<or> is_digit c \<or> c = CHR ''-''"

definition label_ok :: "string \<Rightarrow> bool" where
  "label_ok l \<longleftrightarrow> length l \<noteq> 0 \<and> length l \<le> 63 \<and> l ! 0 \<noteq> CHR ''-'' \<and> l ! (length l - 1) \<noteq> CHR ''-'' \<and> list_all name_char l"

definition NormalizeName :: "to_ascii \<Rightarrow> string \<Rightarrow> spoof_error + string" where
  "NormalizeName toASCII name =
    (let name = trim_space name in
     if name = '''' then Inr ''''
     else case toASCII name of
       None \<Rightarrow> Inl ErrName
     | Some name \<Rightarrow>
         let name = to_lower (trim_suffix name ''.'') in
         if length name = 0 \<or> length name > 219 then Inl ErrName
         else if ParseAddr name \<noteq> None then Inl ErrName
         else if list_all label_ok (split_char CHR ''.'' name) then Inr name
         else Inl ErrName)"

section \<open>The template\<close>

definition helloHex :: string where
  "helloHex = ''1603010200010001fc030341d5b549d9cd1adfa7296c8418d157dc7b624c842824ff493b9375bb48d34f2b20bf018bcc'' @
     ''90a7c89a230094815ad0c15b736e38c01209d72d282cb5e2105328150024130213031301c02cc030c02bc02fcca9cca8'' @
     ''c024c028c023c027009f009e006b006700ff0100018f0000000b00090000066d63692e6972000b000403000102000a00'' @
     ''160014001d0017001e0019001801000101010201030104002300000010000e000c02683208687474702f312e31001600'' @
     ''0000170000000d002a0028040305030603080708080809080a080b080408050806040105010601030303010302040205'' @
     ''020602002b00050403040303002d00020101003300260024001d0020435bacc4d05f9d41fef44ab3ad55616c36e06134'' @
     ''73e2338770efdaa98693d217001500d50000000000000000000000000000000000000000000000000000000000000000'' @
     ''000000000000000000000000000000000000000000000000000000000000000000000000000000000000000000000000'' @
     ''000000000000000000000000000000000000000000000000000000000000000000000000000000000000000000000000'' @
     ''000000000000000000000000000000000000000000000000000000000000000000000000000000000000000000000000'' @
     ''00000000000000000000000000000000000000000000000000000000000000000000000000''"

fun DecodeString :: "string \<Rightarrow> bytes option" where
  "DecodeString [] = Some []"
| "DecodeString [_] = None"
| "DecodeString (a # b # s) =
    (case (hex_value a, hex_value b, DecodeString s) of
       (Some x, Some y, Some r) \<Rightarrow> Some (of_nat (16 * x + y) # r)
     | _ \<Rightarrow> None)"

text \<open>The source drops the error of the decoder; the string is well formed (\<open>hello_template\<close> below).\<close>

definition template :: bytes where
  "template = (case DecodeString helloHex of Some b \<Rightarrow> b | None \<Rightarrow> [])"

definition name_bytes :: "string \<Rightarrow> bytes" where
  "name_bytes s = map of_char s"

datatype hello_error = NameError spoof_error | RandError

text \<open>The random bytes are the 96 bytes of \<open>crypto/rand\<close>, or its error.\<close>

definition clientHello :: "to_ascii \<Rightarrow> bytes option \<Rightarrow> string \<Rightarrow> (hello_error + bytes) go" where
  "clientHello toASCII rand name =
    (case NormalizeName toASCII name of
       Inl _ \<Rightarrow> Some (Inl (NameError ErrName))
     | Inr name \<Rightarrow>
         if name = '''' then Some (Inl (NameError ErrName))
         else case rand of
           None \<Rightarrow> Some (Inl RandError)
         | Some random \<Rightarrow> do {
             t0 \<leftarrow> slice template 0 11;
             r0 \<leftarrow> slice random 0 32;
             r1 \<leftarrow> slice random 32 64;
             t1 \<leftarrow> slice template 76 120;
             t2 \<leftarrow> slice template 133 268;
             r2 \<leftarrow> slice random 64 (length random);
             if 219 < length name then None
             else Some (Inr (t0 @ r0 @ [0x20] @ r1 @ t1 @
               bytes16 (of_nat (length name + 5)) @ bytes16 (of_nat (length name + 3)) @ [0] @ bytes16 (of_nat (length name)) @ name_bytes name @
               t2 @ r2 @ [0, 21] @ bytes16 (of_nat (219 - length name)) @ replicate (219 - length name) 0))
           })"

end
