(* ===== verification/Split.thy ===== *)
theory Split
  imports Bytes
begin

text \<open>
  Splitting the client's TLS ClientHello: \<open>src/internal/snispoof/split.go\<close>. The reader is the byte stream the client
  still has to deliver, followed by the error that ends it; \<open>io.ReadFull\<close> joins socket reads, so their boundaries do
  not show. A result of type \<^typ>\<open>'a go\<close> is \<^term>\<open>None\<close> exactly when an index or a slice would be out of range.
\<close>

section \<open>Data\<close>

record split_options =
  FakeSNI :: string
  TCPSplit :: bool
  TLSRecordSplit :: bool

datatype io_error = EOF | ErrUnexpectedEOF | ErrShortWrite | ConnError string

datatype split_error = ErrClientHello | IOError io_error

record reader =
  rd_bytes :: bytes
  rd_end :: io_error

definition ReadFull :: "reader \<Rightarrow> nat \<Rightarrow> io_error + (bytes \<times> reader)" where
  "ReadFull r n =
    (if n \<le> length (rd_bytes r) then Inr (take n (rd_bytes r), r\<lparr>rd_bytes := drop n (rd_bytes r)\<rparr>)
     else Inl (if rd_end r = EOF \<and> rd_bytes r \<noteq> [] then ErrUnexpectedEOF else rd_end r))"

text \<open>Reading a 16-bit number at an offset, \<open>binary.BigEndian.Uint16(b[p:])\<close>, as an \<open>int\<close>.\<close>

definition u16_at :: "bytes \<Rightarrow> nat \<Rightarrow> nat go" where
  "u16_at b p = map_option unat (slice b p (length b) \<bind> Uint16)"

definition u8_at :: "bytes \<Rightarrow> nat \<Rightarrow> nat go" where
  "u8_at b p = map_option unat (byte_at b p)"

section \<open>Where to cut\<close>

text \<open>The loop over the names of the server_name extension.\<close>

function name_loop :: "bytes \<Rightarrow> nat \<Rightarrow> nat \<Rightarrow> nat \<Rightarrow> (split_error + nat) go" where
  "name_loop b end q at_cut =
    (if q < end then
       if q + 3 > end then Some (Inl ErrClientHello)
       else do {
         nameType \<leftarrow> u8_at b q;
         size \<leftarrow> u16_at b (q + 1);
         let q = q + 3;
         if size = 0 \<or> q + size > end then Some (Inl ErrClientHello)
         else name_loop b end (q + size) (if nameType = 0 then q + size div 2 else at_cut)
       }
     else Some (Inr at_cut))"
  by pat_completeness auto

termination name_loop by (relation "measure (\<lambda>(b, end, q, at_cut). end - q)") auto

text \<open>The loop over the extensions.\<close>

function ext_loop :: "bytes \<Rightarrow> nat \<Rightarrow> nat \<Rightarrow> bool \<Rightarrow> (split_error + nat) go" where
  "ext_loop b p at_cut seen =
    (if p < length b then
       if p + 4 > length b then Some (Inl ErrClientHello)
       else do {
         kind \<leftarrow> u16_at b p;
         n \<leftarrow> u16_at b (p + 2);
         let p = p + 4;
         if p + n > length b then Some (Inl ErrClientHello)
         else if kind = 0 then
           if seen \<or> n < 5 then Some (Inl ErrClientHello)
           else do {
             m \<leftarrow> u16_at b p;
             if int m \<noteq> int n - 2 then Some (Inl ErrClientHello)
             else do {
               r \<leftarrow> name_loop b (p + n) (p + 2) at_cut;
               case r of Inl e \<Rightarrow> Some (Inl e) | Inr at_cut \<Rightarrow> ext_loop b (p + n) at_cut True
             }
           }
         else ext_loop b (p + n) at_cut seen
       }
     else Some (Inr at_cut))"
  by pat_completeness auto

termination ext_loop by (relation "measure (\<lambda>(b, p, at_cut, seen). length b - p)") auto

text \<open>The fixed part: session id, cipher suites, compression methods, length of the extensions.\<close>

definition hello_extensions :: "bytes \<Rightarrow> nat \<Rightarrow> (split_error + nat) go" where
  "hello_extensions b p =
    (if p = length b then Some (Inr 1)
     else if p + 2 > length b then Some (Inl ErrClientHello)
     else do {
       n \<leftarrow> u16_at b p;
       if int n \<noteq> int (length b) - int p - 2 then Some (Inl ErrClientHello)
       else ext_loop b (p + 2) 1 False
     })"

definition helloSplitPosition :: "bytes \<Rightarrow> (split_error + nat) go" where
  "helloSplitPosition b =
    (if length b < 39 then Some (Inl ErrClientHello)
     else do {
       let p = 38;
       n \<leftarrow> u8_at b p;
       let p = p + 1;
       if n > 32 \<or> p + n + 2 > length b then Some (Inl ErrClientHello)
       else do {
         let p = p + n;
         n \<leftarrow> u16_at b p;
         let p = p + 2;
         if n = 0 \<or> n mod 2 \<noteq> 0 \<or> p + n + 1 > length b then Some (Inl ErrClientHello)
         else do {
           let p = p + n;
           n \<leftarrow> u8_at b p;
           let p = p + 1;
           if n = 0 \<or> p + n > length b then Some (Inl ErrClientHello)
           else hello_extensions b (p + n)
         }
       }
     })"

section \<open>Reading the records of the hello\<close>

record span =
  sp_wire :: nat
  sp_payload :: nat
  sp_size :: nat

record hello_read =
  hr_reader :: reader
  hr_wire :: bytes
  hr_hello :: bytes
  hr_spans :: "span list"
  hr_need :: nat

text \<open>One round of the loop: a record header, its body, and the length the hello announces.\<close>

definition read_record :: "hello_read \<Rightarrow> (split_error + hello_read) go" where
  "read_record s =
    (case ReadFull (hr_reader s) 5 of
       Inl e \<Rightarrow> Some (Inl (IOError e))
     | Inr (header, r) \<Rightarrow> do {
         n \<leftarrow> u16_at header 3;
         h0 \<leftarrow> u8_at header 0; h1 \<leftarrow> u8_at header 1; h2 \<leftarrow> u8_at header 2;
         if h0 \<noteq> 22 \<or> h1 \<noteq> 3 \<or> h2 > 3 \<or> n = 0 \<or> n > 16384 \<or> length (hr_spans s) \<ge> 64 \<or> length (hr_hello s) + n > 65536
         then Some (Inl ErrClientHello)
         else
           (case ReadFull r n of
              Inl e \<Rightarrow> Some (Inl (IOError e))
            | Inr (body, r) \<Rightarrow> do {
                let s = s\<lparr>hr_reader := r,
                  hr_spans := hr_spans s @ [\<lparr>sp_wire = length (hr_wire s), sp_payload = length (hr_hello s), sp_size = n\<rparr>],
                  hr_wire := hr_wire s @ header @ body, hr_hello := hr_hello s @ body\<rparr>;
                if length (hr_hello s) \<ge> 4 then do {
                  t \<leftarrow> u8_at (hr_hello s) 0; a \<leftarrow> u8_at (hr_hello s) 1; b \<leftarrow> u8_at (hr_hello s) 2; c \<leftarrow> u8_at (hr_hello s) 3;
                  let need = 4 + a * 65536 + b * 256 + c;
                  if t \<noteq> 1 \<or> need > 65536 \<or> need < 42 then Some (Inl ErrClientHello)
                  else Some (Inr (s\<lparr>hr_need := need\<rparr>))
                }
                else Some (Inr s)
              })
       })"

lemma read_record_spans: "read_record s = Some (Inr s') \<Longrightarrow> length (hr_spans s) < 64 \<and> length (hr_spans s') = Suc (length (hr_spans s))"
  by (auto simp: read_record_def Let_def split: sum.splits if_splits bind_splits)

function read_records :: "hello_read \<Rightarrow> (split_error + hello_read) go" where
  "read_records s =
    (if length (hr_hello s) < hr_need s then do {
       r \<leftarrow> read_record s;
       case r of Inl e \<Rightarrow> Some (Inl e) | Inr s' \<Rightarrow> read_records s'
     }
     else Some (Inr s))"
  by pat_completeness auto

termination read_records
  by (relation "measure (\<lambda>s. 64 - length (hr_spans s))") (auto dest!: read_record_spans)

section \<open>Placing the cut\<close>

fun place_cut :: "bool \<Rightarrow> bytes \<Rightarrow> nat \<Rightarrow> span list \<Rightarrow> (split_error + bytes \<times> nat) go" where
  "place_cut records wire at_cut [] = Some (Inl ErrClientHello)"
| "place_cut records wire at_cut (s # spans) =
    (if at_cut < sp_payload s \<or> at_cut \<ge> sp_payload s + sp_size s then place_cut records wire at_cut spans
     else do {
       let part = at_cut - sp_payload s;
       let at = sp_wire s + 5 + part;
       if records \<and> part > 0 then do {
         out \<leftarrow> slice wire 0 at;
         out \<leftarrow> overwrite (sp_wire s + 3) (bytes16 (of_nat part)) out;
         typ \<leftarrow> slice wire (sp_wire s) (sp_wire s + 3);
         tl \<leftarrow> slice wire at (length wire);
         Some (Inr (out @ typ @ bytes16 (of_nat (sp_size s - part)) @ tl, at + 5))
       }
       else Some (Inr (wire, at))
     })"

definition splitHello :: "reader \<Rightarrow> bool \<Rightarrow> (split_error + bytes \<times> nat \<times> reader) go" where
  "splitHello r records = do {
     s \<leftarrow> read_records \<lparr>hr_reader = r, hr_wire = [], hr_hello = [], hr_spans = [], hr_need = 4\<rparr>;
     case s of Inl e \<Rightarrow> Some (Inl e)
     | Inr s \<Rightarrow> do {
         h \<leftarrow> slice (hr_hello s) 0 (hr_need s);
         c \<leftarrow> helloSplitPosition h;
         case c of Inl e \<Rightarrow> Some (Inl e)
         | Inr at_cut \<Rightarrow> map_option (map_sum id (\<lambda>(out, at). (out, at, hr_reader s))) (place_cut records (hr_wire s) at_cut (hr_spans s))
       }
   }"

section \<open>Writing\<close>

type_synonym 'w writer = "'w \<Rightarrow> bytes \<Rightarrow> 'w \<times> int \<times> io_error option"

function writeAll :: "'w writer \<Rightarrow> 'w \<Rightarrow> bytes \<Rightarrow> 'w \<times> io_error option" where
  "writeAll write w b =
    (if b = [] then (w, None)
     else let (w', n, e) = write w b
       in if n < 0 \<or> n > int (length b) then (w', Some ErrShortWrite)
          else if e \<noteq> None then (w', e)
          else if n = 0 then (w', Some ErrShortWrite)
          else writeAll write w' (drop (nat n) b))"
  by pat_completeness auto

termination writeAll by (relation "measure (\<lambda>(_, _, b). length b)") (auto simp: Let_def)

definition write_result :: "reader \<Rightarrow> 'w \<times> io_error option \<Rightarrow> 'w \<times> (split_error + reader)" where
  "write_result rest r = (case r of (w, Some e) \<Rightarrow> (w, Inl (IOError e)) | (w, None) \<Rightarrow> (w, Inr rest))"

text \<open>On success the result carries the reader, from which the relay goes on.\<close>

definition forwardHello :: "'w writer \<Rightarrow> 'w \<Rightarrow> reader \<Rightarrow> split_options \<Rightarrow> ('w \<times> (split_error + reader)) go" where
  "forwardHello write w r options = do {
     s \<leftarrow> splitHello r (TLSRecordSplit options);
     case s of Inl e \<Rightarrow> Some (w, Inl e)
     | Inr (b, at_cut, rest) \<Rightarrow>
         if \<not> TCPSplit options then Some (write_result rest (writeAll write w b))
         else do {
           front \<leftarrow> slice b 0 at_cut;
           tl \<leftarrow> slice b at_cut (length b);
           case writeAll write w front of
             (w, Some e) \<Rightarrow> Some (w, Inl (IOError e))
           | (w, None) \<Rightarrow> Some (write_result rest (writeAll write w tl))
         }
   }"

declare name_loop.simps [simp del] ext_loop.simps [simp del] read_records.simps [simp del] writeAll.simps [simp del]

end
