(* ===== verification/SplitProps.thy ===== *)
theory SplitProps
  imports Split
begin

text \<open>
  Properties of the splitter: it returns on every input without a panic and after at most 64 records, the bytes the
  server receives carry the client's handshake unchanged, and nothing of the stream behind the hello is lost.
\<close>

section \<open>No index is out of range\<close>

lemma u8_at_Some: "p < length b \<Longrightarrow> u8_at b p = Some (unat (b ! p))"
  by (simp add: u8_at_def byte_at_def)

lemma u16_at_Some: "p + 2 \<le> length b \<Longrightarrow> u16_at b p = Some (unat (be16 (b ! p) (b ! (p + 1))))"
  by (simp add: u16_at_def slice_def Uint16_Some)

lemma name_loop_returns:
  "stop \<le> length b \<Longrightarrow> \<exists>r. name_loop b stop q k = Some r \<and> (\<forall>c. r = Inr c \<longrightarrow> c = k \<or> q < c \<and> c < stop)"
proof (induction b stop q k rule: name_loop.induct)
  case (1 b stop q k)
  show ?case
  proof (cases "q + 3 \<le> stop")
    case True
    let ?t = "unat (b ! q)" and ?s = "unat (be16 (b ! (q + 1)) (b ! (q + 1 + 1)))"
    have r: "u8_at b q = Some ?t" "u16_at b (q + 1) = Some ?s" using True 1(2) by (simp_all add: u8_at_Some u16_at_Some)
    show ?thesis
    proof (cases "?s = 0 \<or> q + 3 + ?s > stop")
      case False
      then obtain x where "name_loop b stop (q + 3 + ?s) (if ?t = 0 then q + 3 + ?s div 2 else k) = Some x"
        "\<forall>c. x = Inr c \<longrightarrow> c = (if ?t = 0 then q + 3 + ?s div 2 else k) \<or> q + 3 + ?s < c \<and> c < stop"
        using 1(1) [OF _ _ r refl] 1(2) True by auto
      moreover have "q < q + 3 + ?s div 2 \<and> q + 3 + ?s div 2 < stop" using False by auto
      ultimately show ?thesis using True r False by (subst name_loop.simps) (auto simp: Let_def split: if_splits)
    qed (use True r in \<open>subst name_loop.simps, auto\<close>)
  qed (subst name_loop.simps, auto)
qed

lemma ext_loop_returns:
  "k < length b \<Longrightarrow> 0 < k \<Longrightarrow> \<exists>r. ext_loop b p k seen = Some r \<and> (\<forall>c. r = Inr c \<longrightarrow> 0 < c \<and> c < length b)"
proof (induction b p k seen rule: ext_loop.induct)
  case (1 b p k seen)
  show ?case
  proof (cases "p + 4 \<le> length b")
    case True
    let ?k = "unat (be16 (b ! p) (b ! (p + 1)))" and ?n = "unat (be16 (b ! (p + 2)) (b ! (p + 2 + 1)))"
    have r: "u16_at b p = Some ?k" "u16_at b (p + 2) = Some ?n" using True by (simp_all add: u16_at_Some)
    show ?thesis
    proof (cases "p + 4 + ?n > length b")
      case n: False
      show ?thesis
      proof (cases "?k = 0")
        case k: True
        show ?thesis
        proof (cases "seen \<or> ?n < 5 \<or> int (unat (be16 (b ! (p + 4)) (b ! (p + 4 + 1)))) \<noteq> int ?n - 2")
          case True
          then show ?thesis using \<open>p + 4 \<le> length b\<close> r n k by (subst ext_loop.simps) (auto simp: Let_def u16_at_Some)
        next
          case False
          obtain x where x: "name_loop b (p + 4 + ?n) (p + 4 + 2) k = Some x" "\<forall>c. x = Inr c \<longrightarrow> c = k \<or> p + 4 + 2 < c \<and> c < p + 4 + ?n"
            using name_loop_returns [of "p + 4 + ?n" b "p + 4 + 2" k] n by auto
          have m: "u16_at b (p + 4) = Some (unat (be16 (b ! (p + 4)) (b ! (p + 4 + 1))))" using False n by (intro u16_at_Some) auto
          note step = ext_loop.simps [of b p k seen]
          show ?thesis
          proof (cases x)
            case (Inl e)
            then show ?thesis using True r n k False m x step by (auto simp: Let_def)
          next
            case (Inr c)
            then have "0 < c \<and> c < length b" using x(2) 1(3,4) n by auto
            moreover from this obtain y where "ext_loop b (p + 4 + ?n) c True = Some y" "\<forall>c. y = Inr c \<longrightarrow> 0 < c \<and> c < length b"
              using 1(1) [OF _ _ r refl _ k _ m _ x(1) Inr] True n False by auto
            ultimately show ?thesis using True r n k False m x(1) Inr step by (auto simp: Let_def)
          qed
        qed
      next
        case k: False
        obtain y where "ext_loop b (p + 4 + ?n) k seen = Some y" "\<forall>c. y = Inr c \<longrightarrow> 0 < c \<and> c < length b"
          using 1(2) [OF _ _ r refl _ k] 1(3,4) True n by auto
        then show ?thesis using True r n k by (subst ext_loop.simps) (auto simp: Let_def)
      qed
    qed (use True r in \<open>subst ext_loop.simps, auto simp: Let_def\<close>)
  qed (use "1.prems" in \<open>subst ext_loop.simps, auto\<close>)
qed

definition returns_position :: "bytes \<Rightarrow> (split_error + nat) go \<Rightarrow> bool" where
  "returns_position b x \<longleftrightarrow> (\<exists>r. x = Some r \<and> (\<forall>c. r = Inr c \<longrightarrow> 0 < c \<and> c < length b))"

lemma returns_position_error [simp]: "returns_position b (Some (Inl e))"
  by (simp add: returns_position_def)

lemma hello_extensions_returns: "2 \<le> length b \<Longrightarrow> returns_position b (hello_extensions b p)"
  using ext_loop_returns [of 1 b "p + 2" False]
  by (auto simp: hello_extensions_def returns_position_def u16_at_Some)

lemma helloSplitPosition_returns: "returns_position b (helloSplitPosition b)"
  by (auto simp: helloSplitPosition_def Let_def u8_at_Some u16_at_Some hello_extensions_returns)

section \<open>Records\<close>

text \<open>A TLS record as its three leading header bytes and its body, and the encoding of a list of records.\<close>

type_synonym tls_record = "bytes \<times> bytes"

definition record_ok :: "tls_record \<Rightarrow> bool" where
  "record_ok rc = (case rc of (h, b) \<Rightarrow> length h = 3 \<and> b \<noteq> [] \<and> length b \<le> 16384 \<and> h ! 0 = 22 \<and> h ! 1 = 3 \<and> unat (h ! 2) \<le> 3)"

definition encode_record :: "tls_record \<Rightarrow> bytes" where
  "encode_record rc = (case rc of (h, b) \<Rightarrow> h @ bytes16 (of_nat (length b)) @ b)"

definition encode_records :: "tls_record list \<Rightarrow> bytes" where
  "encode_records rs = concat (map encode_record rs)"

definition payload_of :: "tls_record list \<Rightarrow> bytes" where
  "payload_of rs = concat (map snd rs)"

text \<open>An independent reader of a byte sequence as records.\<close>

function tls_records :: "bytes \<Rightarrow> tls_record list option" where
  "tls_records b =
    (if b = [] then Some []
     else if length b < 5 then None
     else let n = unat (be16 (b ! 3) (b ! 4))
       in if length b < 5 + n then None
          else map_option (Cons (take 3 b, take n (drop 5 b))) (tls_records (drop (5 + n) b)))"
  by pat_completeness auto

termination tls_records by (relation "measure length") auto

declare tls_records.simps [simp del]

lemma encode_records_simps [simp]:
  "encode_records [] = []" "encode_records (r # rs) = encode_record r @ encode_records rs"
  "encode_records (rs @ rs') = encode_records rs @ encode_records rs'"
  by (simp_all add: encode_records_def)

lemma payload_of_simps [simp]:
  "payload_of [] = []" "payload_of (r # rs) = snd r @ payload_of rs" "payload_of (rs @ rs') = payload_of rs @ payload_of rs'"
  by (simp_all add: payload_of_def)

lemma length_encode_record: "record_ok rc \<Longrightarrow> length (encode_record rc) = 5 + length (snd rc)"
  by (auto simp: encode_record_def record_ok_def)

lemma header_length_value: "n \<le> 16384 \<Longrightarrow> be16 (bytes16 (of_nat n) ! 0) (bytes16 (of_nat n) ! 1) = of_nat n"
  using be16_bytes16 [of "of_nat n"] by (simp add: bytes16_def)

lemma tls_records_encode: "list_all record_ok rs \<Longrightarrow> tls_records (encode_records rs) = Some rs"
proof (induction rs)
  case Nil
  show ?case by (subst tls_records.simps) simp
next
  case (Cons rc rs)
  obtain h b where rc: "rc = (h, b)" by (cases rc)
  have h: "length h = 3" "length b \<le> 16384" using Cons.prems by (auto simp: record_ok_def rc)
  define w where "w = encode_records (rc # rs)"
  have e: "w = h @ bytes16 (of_nat (length b)) @ b @ encode_records rs" by (simp add: w_def encode_record_def rc)
  have n: "w ! 3 = bytes16 (of_nat (length b)) ! 0" "w ! 4 = bytes16 (of_nat (length b)) ! 1"
    using h by (simp_all add: e nth_append bytes16_def)
  have "unat (be16 (w ! 3) (w ! 4)) = length b" using h(2) by (simp only: n header_length_value unat_of_nat) simp
  moreover have "take 3 w = h" "take (length b) (drop 5 w) = b" "drop (5 + length b) w = encode_records rs"
    "length w = 5 + length b + length (encode_records rs)" "w \<noteq> []"
    using h by (auto simp: e)
  ultimately have "tls_records w = Some (rc # rs)" using Cons rc by (subst tls_records.simps) (simp add: Let_def)
  then show ?case by (simp only: w_def)
qed

section \<open>What the reading loop keeps\<close>

text \<open>The spans of a list of records laid out one after the other.\<close>

fun spans_of :: "nat \<Rightarrow> nat \<Rightarrow> tls_record list \<Rightarrow> span list" where
  "spans_of w p [] = []"
| "spans_of w p ((h, b) # rs) = \<lparr>sp_wire = w, sp_payload = p, sp_size = length b\<rparr> # spans_of (w + 5 + length b) (p + length b) rs"

lemma spans_of_snoc:
  "list_all record_ok rs \<Longrightarrow>
   spans_of w p (rs @ [(h, b)]) = spans_of w p rs @ [\<lparr>sp_wire = w + length (encode_records rs), sp_payload = p + length (payload_of rs), sp_size = length b\<rparr>]"
  by (induction rs arbitrary: w p) (auto simp: length_encode_record)

definition reading :: "reader \<Rightarrow> tls_record list \<Rightarrow> hello_read \<Rightarrow> bool" where
  "reading r rs s \<longleftrightarrow> list_all record_ok rs \<and> hr_wire s = encode_records rs \<and> hr_hello s = payload_of rs \<and> hr_spans s = spans_of 0 0 rs \<and>
     rd_bytes r = hr_wire s @ rd_bytes (hr_reader s) \<and> rd_end (hr_reader s) = rd_end r"

lemma ReadFull_Inr: "ReadFull r n = Inr (b, r') \<longleftrightarrow> n \<le> length (rd_bytes r) \<and> b = take n (rd_bytes r) \<and> r' = r\<lparr>rd_bytes := drop n (rd_bytes r)\<rparr>"
  by (auto simp: ReadFull_def)

lemma bytes16_be16: "bytes16 (be16 x y) = [x, y]"
proof -
  have "unat (be16 x y) div 256 = unat x" using unat_byte [of y] by (simp add: unat_be16)
  moreover have "unat (ucast (be16 x y) :: byte) = unat y"
    unfolding unat_ucast_byte unat_be16 using unat_byte [of y] by simp
  then have "(ucast (be16 x y) :: byte) = y" by (simp only: unsigned_word_eqI)
  ultimately show ?thesis by (simp add: bytes16_def)
qed

lemma header_encodes:
  assumes "length hdr = 5" and "length b = unat (be16 (hdr ! 3) (hdr ! 4))"
  shows "hdr @ b = encode_record (take 3 hdr, b)"
proof -
  have "hdr = take 3 hdr @ [hdr ! 3, hdr ! 4]"
    using assms(1) by (intro nth_equalityI) (auto simp: nth_append nth_Cons' less_Suc_eq numeral_eq_Suc)
  moreover have "bytes16 (of_nat (length b)) = [hdr ! 3, hdr ! 4]" unfolding assms(2) by (simp add: bytes16_be16)
  ultimately show ?thesis by (simp add: encode_record_def)
qed

definition extended :: "reader \<Rightarrow> tls_record list \<Rightarrow> (split_error + hello_read) go \<Rightarrow> bool" where
  "extended r rs x \<longleftrightarrow> (\<exists>y. x = Some y \<and> (\<forall>s'. y = Inr s' \<longrightarrow> (\<exists>rc. reading r (rs @ [rc]) s')))"

lemma extended_error [simp]: "extended r rs (Some (Inl e))"
  by (simp add: extended_def)

lemma reading_snoc:
  assumes s: "reading r rs s" and rd: "rd_bytes (hr_reader s) = hdr @ b @ rest" and hdr: "length hdr = 5"
    and n: "length b = unat (be16 (hdr ! 3) (hdr ! 4))" and ok: "record_ok (take 3 hdr, b)"
  shows "reading r (rs @ [(take 3 hdr, b)]) (s\<lparr>hr_reader := hr_reader s\<lparr>rd_bytes := rest\<rparr>,
    hr_spans := hr_spans s @ [\<lparr>sp_wire = length (hr_wire s), sp_payload = length (hr_hello s), sp_size = length b\<rparr>],
    hr_wire := hr_wire s @ hdr @ b, hr_hello := hr_hello s @ b, hr_need := need\<rparr>)"
  using s ok rd spans_of_snoc [of rs 0 0 "take 3 hdr" b] header_encodes [OF hdr n]
  by (simp add: reading_def)

lemma read_record_keeps:
  assumes s: "reading r rs s"
  shows "extended r rs (read_record s)"
proof (cases "ReadFull (hr_reader s) 5")
  case (Inl e)
  then show ?thesis by (simp add: read_record_def)
next
  case (Inr x)
  obtain hdr r1 where x: "x = (hdr, r1)" by (cases x)
  have 1: "5 \<le> length (rd_bytes (hr_reader s))" "hdr = take 5 (rd_bytes (hr_reader s))" "r1 = hr_reader s\<lparr>rd_bytes := drop 5 (rd_bytes (hr_reader s))\<rparr>"
    using Inr x by (simp_all add: ReadFull_Inr)
  then have l: "length hdr = 5" by simp
  let ?n = "unat (be16 (hdr ! 3) (hdr ! 4))"
  have u: "u16_at hdr 3 = Some ?n" "u8_at hdr 0 = Some (unat (hdr ! 0))" "u8_at hdr 1 = Some (unat (hdr ! 1))" "u8_at hdr 2 = Some (unat (hdr ! 2))"
    using l by (simp_all add: u16_at_Some u8_at_Some)
  show ?thesis
  proof (cases "unat (hdr ! 0) \<noteq> 22 \<or> unat (hdr ! 1) \<noteq> 3 \<or> unat (hdr ! 2) > 3 \<or> ?n = 0 \<or> ?n > 16384 \<or> length (hr_spans s) \<ge> 64 \<or> length (hr_hello s) + ?n > 65536 \<or> (\<exists>e. ReadFull r1 ?n = Inl e)")
    case True
    then show ?thesis using Inr x u by (auto simp: read_record_def split: sum.split)
  next
    case False
    then obtain b r2 where b: "ReadFull r1 ?n = Inr (b, r2)" by (cases "ReadFull r1 ?n") auto
    have 2: "b = take ?n (rd_bytes r1)" "length b = ?n" "r2 = r1\<lparr>rd_bytes := drop ?n (rd_bytes r1)\<rparr>" using b by (simp_all add: ReadFull_Inr)
    have "b @ drop ?n (rd_bytes r1) = rd_bytes r1" unfolding 2(1) by (rule append_take_drop_id)
    then have rd: "rd_bytes (hr_reader s) = hdr @ b @ drop ?n (rd_bytes r1)"
      using 1(2,3) append_take_drop_id [of 5 "rd_bytes (hr_reader s)"] by simp
    have r2: "r2 = hr_reader s\<lparr>rd_bytes := drop ?n (rd_bytes r1)\<rparr>" using 1 2 by simp
    have "hdr ! 0 = 22" "hdr ! 1 = 3" using False by (auto intro: unsigned_word_eqI)
    then have ok: "record_ok (take 3 hdr, b)" using False l 2(2) by (auto simp: record_ok_def)
    note snoc = reading_snoc [OF s rd l 2(2) ok]
    let ?s = "s\<lparr>hr_reader := r2, hr_spans := hr_spans s @ [\<lparr>sp_wire = length (hr_wire s), sp_payload = length (hr_hello s), sp_size = ?n\<rparr>],
      hr_wire := hr_wire s @ hdr @ b, hr_hello := hr_hello s @ b\<rparr>"
    have k: "reading r (rs @ [(take 3 hdr, b)]) ?s" using snoc [of "hr_need s"] by (simp add: r2 2(2))
    have k': "reading r (rs @ [(take 3 hdr, b)]) (?s\<lparr>hr_need := m\<rparr>)" for m using snoc [of m] by (simp add: r2 2(2))
    let ?h = "hr_hello s @ b"
    have v: "length ?h \<ge> 4 \<Longrightarrow> u8_at ?h i = Some (unat (?h ! i))" if "i < 4" for i using that by (intro u8_at_Some) auto
    show ?thesis using Inr x u False b k k' v [of 0] v [of 1] v [of 2] v [of 3]
      by (auto simp: read_record_def Let_def extended_def split: if_splits)
  qed
qed

lemma length_spans_of [simp]: "length (spans_of w p rs) = length rs"
  by (induction w p rs rule: spans_of.induct) auto

lemma read_records_keeps:
  "reading r rs s \<Longrightarrow> length rs \<le> 64 \<Longrightarrow>
   \<exists>x. read_records s = Some x \<and>
     (\<forall>s'. x = Inr s' \<longrightarrow> (\<exists>rs'. reading r rs' s' \<and> length rs' \<le> 64 \<and> hr_need s' \<le> length (hr_hello s')))"
proof (induction s arbitrary: rs rule: read_records.induct)
  case (1 s)
  show ?case
  proof (cases "length (hr_hello s) < hr_need s")
    case True
    obtain x where x: "read_record s = Some x" "\<forall>s'. x = Inr s' \<longrightarrow> (\<exists>rc. reading r (rs @ [rc]) s')"
      using read_record_keeps [OF 1(2)] by (auto simp: extended_def)
    show ?thesis
    proof (cases x)
      case (Inl e)
      then show ?thesis using True x by (subst read_records.simps) simp
    next
      case (Inr s')
      obtain rc where rc: "reading r (rs @ [rc]) s'" using x Inr by blast
      have "length rs < 64" using read_record_spans [of s s'] x Inr 1(2) by (simp add: reading_def)
      then show ?thesis using 1(1) [OF True x(1) Inr rc] True x Inr by (subst read_records.simps) simp
    qed
  qed (use 1 in \<open>subst read_records.simps, auto\<close>)
qed

section \<open>What placing the cut does\<close>

text \<open>The records and the cut after splitting the record that holds payload offset \<open>k\<close>.\<close>

fun split_at :: "bool \<Rightarrow> nat \<Rightarrow> tls_record list \<Rightarrow> tls_record list \<times> nat" where
  "split_at records k [] = ([], 0)"
| "split_at records k ((h, b) # rs) =
    (if k < length b then
       if records \<and> 0 < k then ((h, take k b) # (h, drop k b) # rs, k + 10) else ((h, b) # rs, k + 5)
     else case split_at records (k - length b) rs of (rs', c) \<Rightarrow> ((h, b) # rs', c + 5 + length b))"

lemma cut_here:
  fixes pre rest :: bytes
  assumes "record_ok (h, b)" and "0 < k" and "k < length b"
  defines "wire \<equiv> pre @ encode_record (h, b) @ rest"
  shows "slice wire 0 (length pre + 5 + k) = Some (pre @ h @ bytes16 (of_nat (length b)) @ take k b)"
    and "overwrite (length pre + 3) (bytes16 (of_nat k)) (pre @ h @ bytes16 (of_nat (length b)) @ take k b) = Some (pre @ encode_record (h, take k b))"
    and "slice wire (length pre) (length pre + 3) = Some h"
    and "slice wire (length pre + 5 + k) (length wire) = Some (drop k b @ rest)"
  using assms by (auto simp: record_ok_def encode_record_def slice_def overwrite_def)

lemma place_cut_eq:
  assumes "list_all record_ok rs" and "n \<le> k" and "k < n + length (payload_of rs)"
  shows "place_cut records (pre @ encode_records rs) k (spans_of (length pre) n rs) =
    Some (Inr (case split_at records (k - n) rs of (rs', c) \<Rightarrow> (pre @ encode_records rs', length pre + c)))"
  using assms
proof (induction rs arbitrary: pre n)
  case (Cons rc rs)
  obtain h b where rc: "rc = (h, b)" by (cases rc)
  have ok: "record_ok (h, b)" "list_all record_ok rs" using Cons.prems rc by auto
  show ?case
  proof (cases "k < n + length b")
    case True
    show ?thesis
    proof (cases "records \<and> n < k")
      case split: True
      define m where "m = k - n"
      have m: "0 < m" "m < length b" "k = n + m" using split True by (auto simp: m_def)
      note here = cut_here(1,3,4) [OF ok(1) m(1,2), of pre "encode_records rs"] cut_here(2) [OF ok(1) m(1,2), of pre]
      show ?thesis using here ok(1) m split by (simp add: rc Let_def encode_record_def)
    next
      case False
      then show ?thesis using Cons.prems True rc by (auto simp: Let_def)
    qed
  next
    case False
    have "place_cut records ((pre @ encode_record rc) @ encode_records rs) k (spans_of (length (pre @ encode_record rc)) (n + length b) rs) =
      Some (Inr (case split_at records (k - (n + length b)) rs of (rs', c) \<Rightarrow>
        ((pre @ encode_record rc) @ encode_records rs', length (pre @ encode_record rc) + c)))"
      by (rule Cons.IH) (use Cons.prems False rc in auto)
    moreover have "\<not> k - n < length b" using False Cons.prems(2) by auto
    ultimately show ?thesis using False ok(1) length_encode_record [of rc]
      by (simp add: rc split_beta add.assoc add.left_commute add.commute)
  qed
qed simp

lemma split_at_payload: "payload_of (fst (split_at records k rs)) = payload_of rs"
  by (induction records k rs rule: split_at.induct) (auto split: prod.split)

lemma split_at_ok: "list_all record_ok rs \<Longrightarrow> list_all record_ok (fst (split_at records k rs))"
  by (induction records k rs rule: split_at.induct) (auto simp: record_ok_def split: prod.split)

lemma split_at_same: "fst (split_at False k rs) = rs"
  by (induction rs arbitrary: k) (auto simp: split_beta)

lemma split_at_cut:
  "list_all record_ok rs \<Longrightarrow> k < length (payload_of rs) \<Longrightarrow>
   5 \<le> snd (split_at records k rs) \<and> snd (split_at records k rs) < length (encode_records (fst (split_at records k rs)))"
proof (induction records k rs rule: split_at.induct)
  case (2 records k h b rs)
  have "length (encode_record (h, b)) = 5 + length b" using 2(2) by (simp add: length_encode_record)
  moreover have "k < length b \<Longrightarrow> length (encode_record (h, take k b)) = 5 + k" "length (encode_record (h, drop k b)) = 5 + (length b - k)"
    using 2(2) by (auto simp: encode_record_def record_ok_def)
  ultimately show ?case using 2 by (auto simp: split_beta)
qed simp

section \<open>The splitter as a whole\<close>

text \<open>
  What a split promises: the consumed bytes and the bytes to send are both sequences of handshake records, with the same
  payload; without record splitting they are the same bytes; the cut lies strictly inside.
\<close>

definition faithful_split :: "bool \<Rightarrow> reader \<Rightarrow> bytes \<times> nat \<times> reader \<Rightarrow> bool" where
  "faithful_split records r res = (case res of (out, c, rest) \<Rightarrow>
     (\<exists>wire rs rs'. rd_bytes r = wire @ rd_bytes rest \<and> rd_end rest = rd_end r \<and> tls_records wire = Some rs \<and> tls_records out = Some rs' \<and>
       list_all record_ok rs' \<and> length rs \<le> 64 \<and> payload_of rs' = payload_of rs \<and> (records \<or> out = wire) \<and> 5 \<le> c \<and> c < length out))"

lemma splitHello_faithful:
  "\<exists>x. splitHello r records = Some x \<and> (case x of Inl _ \<Rightarrow> True | Inr res \<Rightarrow> faithful_split records r res)"
proof -
  let ?s0 = "\<lparr>hr_reader = r, hr_wire = [], hr_hello = [], hr_spans = [], hr_need = 4\<rparr>"
  have "reading r [] ?s0" by (simp add: reading_def)
  from read_records_keeps [OF this] obtain x where x: "read_records ?s0 = Some x"
    "\<forall>s. x = Inr s \<longrightarrow> (\<exists>rs. reading r rs s \<and> length rs \<le> 64 \<and> hr_need s \<le> length (hr_hello s))" by auto
  show ?thesis
  proof (cases x)
    case (Inl e)
    then show ?thesis using x by (simp add: splitHello_def)
  next
    case (Inr s)
    obtain rs where rs: "reading r rs s" "length rs \<le> 64" "hr_need s \<le> length (hr_hello s)" using x Inr by blast
    let ?h = "take (hr_need s) (hr_hello s)"
    obtain y where y: "helloSplitPosition ?h = Some y" "\<forall>c. y = Inr c \<longrightarrow> 0 < c \<and> c < length ?h"
      using helloSplitPosition_returns [of ?h] by (auto simp: returns_position_def)
    have sl: "slice (hr_hello s) 0 (hr_need s) = Some ?h" using rs(3) by (simp add: slice_def)
    show ?thesis
    proof (cases y)
      case (Inl e)
      then show ?thesis using x Inr sl y by (simp add: splitHello_def)
    next
      case (Inr k)
      have k: "k < length (payload_of rs)" using y(2) Inr rs by (auto simp: reading_def)
      have ok: "list_all record_ok rs" "hr_wire s = encode_records rs" "hr_spans s = spans_of 0 0 rs" using rs(1) by (auto simp: reading_def)
      obtain rs' c where sp: "split_at records k rs = (rs', c)" by (cases "split_at records k rs")
      have "place_cut records (hr_wire s) k (hr_spans s) = Some (Inr (encode_records rs', c))"
        using place_cut_eq [OF ok(1), of 0 k records "[]"] k sp by (simp add: ok)
      then have "splitHello r records = Some (Inr (encode_records rs', c, hr_reader s))"
        using x \<open>x = Inr s\<close> sl y(1) Inr by (simp add: splitHello_def)
      moreover have "records \<or> rs' = rs" using split_at_same [of k rs] sp by (cases records) auto
      then have "faithful_split records r (encode_records rs', c, hr_reader s)"
        using split_at_payload [of records k rs] split_at_ok [OF ok(1), of records k] split_at_cut [OF ok(1) k, of records]
          tls_records_encode ok rs sp
        by (auto simp: faithful_split_def reading_def intro!: exI [of _ "encode_records rs"] exI [of _ rs] exI [of _ rs'])
      ultimately show ?thesis by auto
    qed
  qed
qed

section \<open>Writers\<close>

text \<open>The contract of \<open>io.Writer\<close>: of what it is given, a call takes the first \<open>n\<close> bytes.\<close>

locale writer_laws =
  fixes wr :: "'w writer" and accepted :: "'w \<Rightarrow> bytes"
  assumes write_takes: "wr w b = (w', n, e) \<Longrightarrow> 0 \<le> n \<Longrightarrow> n \<le> int (length b) \<Longrightarrow> accepted w' = accepted w @ take (nat n) b"
begin

lemma writeAll_accepts: "writeAll wr w b = (w', None) \<Longrightarrow> accepted w' = accepted w @ b"
proof (induction b arbitrary: w rule: measure_induct_rule [of length])
  case (less b)
  obtain w1 n e where w: "wr w b = (w1, n, e)" by (cases "wr w b")
  show ?case
  proof (cases "b = []")
    case False
    with less.prems w have n: "0 \<le> n" "n \<le> int (length b)" "e = None" "n \<noteq> 0" "writeAll wr w1 (drop (nat n) b) = (w', None)"
      by (subst (asm) writeAll.simps; auto simp: Let_def split: if_splits)+
    have "accepted w' = accepted w1 @ drop (nat n) b" by (rule less.IH) (use n False in auto)
    then show ?thesis using write_takes [OF w n(1,2)] by simp
  qed (use less.prems in \<open>auto simp: writeAll.simps\<close>)
qed

lemma forwardHello_accepts:
  assumes "forwardHello wr w r opts = Some (w', Inr rest)"
  shows "\<exists>out c. splitHello r (TLSRecordSplit opts) = Some (Inr (out, c, rest)) \<and> accepted w' = accepted w @ out"
proof -
  obtain out c rest' where s: "splitHello r (TLSRecordSplit opts) = Some (Inr (out, c, rest'))"
    using assms by (auto simp: forwardHello_def split: sum.splits bind_splits)
  show ?thesis
  proof (cases "TCPSplit opts")
    case True
    obtain w1 where "slice out 0 c = Some (take c out)" "slice out c (length out) = Some (drop c out)"
      "writeAll wr w (take c out) = (w1, None)" "writeAll wr w1 (drop c out) = (w', None)" "rest' = rest"
      using assms s True
      by (auto simp: forwardHello_def write_result_def slice_def split: sum.splits bind_splits option.splits prod.splits if_splits)
    then have "accepted w' = accepted w @ take c out @ drop c out" by (simp only: writeAll_accepts append_assoc)
    then show ?thesis using s \<open>rest' = rest\<close> by simp
  next
    case False
    then have "writeAll wr w out = (w', None)" "rest' = rest"
      using assms s by (auto simp: forwardHello_def write_result_def split: option.splits prod.splits)
    then show ?thesis using s writeAll_accepts by simp
  qed
qed

end

text \<open>A connection that accepts what its script says: a number of bytes and an error per call, then everything.\<close>

record conn_writer =
  cw_accepted :: bytes
  cw_script :: "(nat \<times> io_error option) list"

definition conn_write :: "conn_writer writer" where
  "conn_write w b = (case cw_script w of
     [] \<Rightarrow> (w\<lparr>cw_accepted := cw_accepted w @ b\<rparr>, int (length b), None)
   | (k, e) # rest \<Rightarrow> (w\<lparr>cw_accepted := cw_accepted w @ take k b, cw_script := rest\<rparr>, int (min k (length b)), e))"

interpretation conn: writer_laws conn_write cw_accepted
  by unfold_locales (auto simp: conn_write_def min_def split: list.splits)

section \<open>Main results\<close>

text \<open>C38. Splitting a ClientHello always returns: on every input it ends after at most 64 records without an index out of
  range, and when it succeeds the bytes to send are well-formed handshake records with the payload of exactly the
  consumed bytes (the same bytes when records are not split), the cut lies strictly inside them, and the stream
  behind the consumed records is left for the relay.
\<close>

theorem split_returns_faithfully:
  "\<exists>x. splitHello r records = Some x \<and> (case x of Inl _ \<Rightarrow> True | Inr res \<Rightarrow> faithful_split records r res)"
  by (rule splitHello_faithful)

text \<open>
  What the server receives of the hello is the client's: when \<open>forwardHello\<close> succeeds, in one write or two and with
  partial writes, the connection has accepted exactly the bytes of a faithful split, in order, and the relay continues
  with the unread rest of the stream.
\<close>

theorem forwarded_hello_is_the_clients:
  assumes "forwardHello conn_write w r opts = Some (w', Inr rest)"
  shows "\<exists>out c. cw_accepted w' = cw_accepted w @ out \<and> faithful_split (TLSRecordSplit opts) r (out, c, rest)"
  using conn.forwardHello_accepts [OF assms] splitHello_faithful [of r "TLSRecordSplit opts"] by auto

definition sample_hello :: bytes where
  "sample_hello = [22, 3, 1, 0, 45, 1, 0, 0, 41, 3, 3] @ replicate 32 7 @ [0, 0, 2, 0x13, 0x01, 1, 0]"

definition sample_options :: split_options where
  "sample_options = \<lparr>FakeSNI = '''', TCPSplit = True, TLSRecordSplit = True\<rparr>"

lemma sample_read:
  "read_records \<lparr>hr_reader = \<lparr>rd_bytes = sample_hello @ [23, 3], rd_end = EOF\<rparr>, hr_wire = [], hr_hello = [], hr_spans = [], hr_need = 4\<rparr> =
   Some (Inr \<lparr>hr_reader = \<lparr>rd_bytes = [23, 3], rd_end = EOF\<rparr>, hr_wire = sample_hello, hr_hello = drop 5 sample_hello,
     hr_spans = [\<lparr>sp_wire = 0, sp_payload = 0, sp_size = 45\<rparr>], hr_need = 45\<rparr>)"
  by (subst read_records.simps)
    (simp add: read_record_def ReadFull_def u16_at_def u8_at_def slice_def byte_at_def Uint16_def be16_def sample_hello_def
      Let_def read_records.simps)

lemma sample_position: "helloSplitPosition (drop 5 sample_hello) = Some (Inr 1)"
  by (simp add: helloSplitPosition_def hello_extensions_def u16_at_def u8_at_def slice_def byte_at_def Uint16_def be16_def sample_hello_def Let_def
      nth_append)

lemma sample_split:
  "splitHello \<lparr>rd_bytes = sample_hello @ [23, 3], rd_end = EOF\<rparr> True =
   Some (Inr ([22, 3, 1, 0, 1, 1, 22, 3, 1, 0, 44] @ drop 6 sample_hello, 11, \<lparr>rd_bytes = [23, 3], rd_end = EOF\<rparr>))"
proof -
  have "length sample_hello = 50" by (simp add: sample_hello_def)
  then have s: "slice (drop 5 sample_hello) 0 45 = Some (drop 5 sample_hello)" by (simp add: slice_def)
  show ?thesis
    by (simp add: splitHello_def sample_read sample_position s Let_def)
      (simp add: slice_def overwrite_def bytes16_def sample_hello_def)
qed

lemma conn_writeAll: "writeAll conn_write \<lparr>cw_accepted = a, cw_script = []\<rparr> b = (\<lparr>cw_accepted = a @ b, cw_script = []\<rparr>, None)"
  by (subst writeAll.simps, subst writeAll.simps) (simp add: conn_write_def)

lemma conn_writeAll_partial:
  "2 < length b \<Longrightarrow> writeAll conn_write \<lparr>cw_accepted = a, cw_script = [(2, None)]\<rparr> b = (\<lparr>cw_accepted = a @ b, cw_script = []\<rparr>, None)"
  by (subst writeAll.simps) (auto simp add: conn_write_def conn_writeAll)

lemma sample_forward:
  "\<exists>w'. forwardHello conn_write \<lparr>cw_accepted = [], cw_script = [(2, None)]\<rparr> \<lparr>rd_bytes = sample_hello @ [23, 3], rd_end = EOF\<rparr> sample_options =
    Some (w', Inr \<lparr>rd_bytes = [23, 3], rd_end = EOF\<rparr>)"
proof -
  have "length sample_hello = 50" by (simp add: sample_hello_def)
  then show ?thesis
    by (simp add: forwardHello_def sample_options_def sample_split slice_def conn_writeAll conn_writeAll_partial write_result_def)
qed

theorem forwarded_hello_is_the_clients_witness:
  "\<exists>w' out c. forwardHello conn_write \<lparr>cw_accepted = [], cw_script = [(2, None)]\<rparr> \<lparr>rd_bytes = sample_hello @ [23, 3], rd_end = EOF\<rparr> sample_options =
      Some (w', Inr \<lparr>rd_bytes = [23, 3], rd_end = EOF\<rparr>) \<and> cw_accepted w' = out \<and>
    faithful_split True \<lparr>rd_bytes = sample_hello @ [23, 3], rd_end = EOF\<rparr> (out, c, \<lparr>rd_bytes = [23, 3], rd_end = EOF\<rparr>)"
proof -
  obtain w' where w: "forwardHello conn_write \<lparr>cw_accepted = [], cw_script = [(2, None)]\<rparr> \<lparr>rd_bytes = sample_hello @ [23, 3], rd_end = EOF\<rparr> sample_options =
    Some (w', Inr \<lparr>rd_bytes = [23, 3], rd_end = EOF\<rparr>)" using sample_forward by blast
  then show ?thesis using forwarded_hello_is_the_clients [OF w] by (auto simp: sample_options_def)
qed

end
