(* ===== verification/HelloProps.thy ===== *)
theory HelloProps
  imports Hello SplitProps
begin

text \<open>
  Properties of the forged ClientHello and of the position chosen in a hello: every well-formed hello with a server
  name is cut strictly inside that name, and the forged hello is one of them, always 517 bytes long.
\<close>

section \<open>Well-formed hellos are cut inside the server name\<close>

text \<open>An extension as its type and its body.\<close>

type_synonym extension = "16 word \<times> bytes"

definition encode_ext :: "extension \<Rightarrow> bytes" where
  "encode_ext e = (case e of (k, body) \<Rightarrow> bytes16 k @ bytes16 (of_nat (length body)) @ body)"

definition encode_exts :: "extension list \<Rightarrow> bytes" where
  "encode_exts es = concat (map encode_ext es)"

definition sni_body :: "bytes \<Rightarrow> bytes" where
  "sni_body name = bytes16 (of_nat (length name + 3)) @ [0] @ bytes16 (of_nat (length name)) @ name"

text \<open>A hello after its first 38 bytes: session id, cipher suites, compression methods, extensions.\<close>

definition hello_body :: "bytes \<Rightarrow> bytes \<Rightarrow> bytes \<Rightarrow> bytes \<Rightarrow> extension list \<Rightarrow> bytes" where
  "hello_body start sid suites methods es = start @ [of_nat (length sid)] @ sid @ bytes16 (of_nat (length suites)) @ suites @
     [of_nat (length methods)] @ methods @ bytes16 (of_nat (length (encode_exts es))) @ encode_exts es"

definition other_ext :: "extension \<Rightarrow> bool" where
  "other_ext e \<longleftrightarrow> fst e \<noteq> 0 \<and> length (snd e) \<le> 65535"

lemma u16_at_here: "u16_at (pre @ bytes16 w @ r) (length pre) = Some (unat w)"
  by (simp add: u16_at_def slice_def)

lemma u8_at_here: "u8_at (pre @ x # r) (length pre) = Some (unat x)"
  by (simp add: u8_at_def byte_at_def nth_append)

lemma unat_of_small: "n \<le> 65535 \<Longrightarrow> unat (of_nat n :: 16 word) = n"
  by (simp add: unat_of_nat)

lemma encode_exts_simps [simp]:
  "encode_exts [] = []" "encode_exts (e # es) = encode_ext e @ encode_exts es" "encode_exts (es @ es') = encode_exts es @ encode_exts es'"
  by (simp_all add: encode_exts_def)

lemma length_encode_ext: "length (encode_ext e) = 4 + length (snd e)"
  by (cases e) (simp add: encode_ext_def)

text \<open>One round of the extension loop, at an extension that is not the server name.\<close>

lemma ext_loop_other:
  assumes "other_ext e"
  shows "ext_loop (pre @ encode_ext e @ rest) (length pre) c seen = ext_loop (pre @ encode_ext e @ rest) (length (pre @ encode_ext e)) c seen"
proof -
  obtain k body where e: "e = (k, body)" by (cases e)
  let ?b = "pre @ encode_ext e @ rest"
  have "u16_at ?b (length pre) = Some (unat k)" using u16_at_here [of pre k] by (simp add: encode_ext_def e)
  moreover have "u16_at ?b (length pre + 2) = Some (length body)"
    using u16_at_here [of "pre @ bytes16 k" "of_nat (length body)" "body @ rest"] assms
    by (simp add: encode_ext_def e other_ext_def unat_of_small)
  moreover have "unat k \<noteq> 0" using assms by (simp add: other_ext_def e unat_eq_zero)
  ultimately show ?thesis by (subst ext_loop.simps) (simp add: Let_def length_encode_ext e add.assoc)
qed

lemma ext_loop_others:
  "list_all other_ext es \<Longrightarrow>
   ext_loop (pre @ encode_exts es @ rest) (length pre) c seen = ext_loop (pre @ encode_exts es @ rest) (length (pre @ encode_exts es)) c seen"
proof (induction es arbitrary: pre)
  case (Cons e es)
  then show ?case using ext_loop_other [of e pre "encode_exts es @ rest" c seen] Cons.IH [of "pre @ encode_ext e"] by simp
qed simp

lemma ext_loop_end: "ext_loop b (length b) c seen = Some (Inr c)"
  by (subst ext_loop.simps) simp

text \<open>The round at the server name sets the cut to the middle of the name.\<close>

lemma ext_loop_sni:
  assumes "name \<noteq> []" and "length name \<le> 65530"
  shows "ext_loop (pre @ encode_ext (0, sni_body name) @ rest) (length pre) c False =
    ext_loop (pre @ encode_ext (0, sni_body name) @ rest) (length (pre @ encode_ext (0, sni_body name))) (length pre + 9 + length name div 2) True"
proof -
  let ?b = "pre @ encode_ext (0, sni_body name) @ rest" and ?n = "length name"
  have l: "length (sni_body name) = ?n + 5" by (simp add: sni_body_def)
  have 1: "u16_at ?b (length pre) = Some 0" using u16_at_here [of pre 0] by (simp add: encode_ext_def)
  have 2: "u16_at ?b (length pre + 2) = Some (?n + 5)"
    using u16_at_here [of "pre @ bytes16 0" "of_nat (?n + 5)" "sni_body name @ rest"] unat_of_small [of "?n + 5"] assms
    by (simp add: encode_ext_def l)
  have 3: "u16_at ?b (length pre + 4) = Some (?n + 3)"
    using u16_at_here [of "pre @ bytes16 0 @ bytes16 (of_nat (?n + 5))" "of_nat (?n + 3)"] unat_of_small [of "?n + 3"] assms
    by (simp add: encode_ext_def l) (simp add: sni_body_def)
  have 4: "u8_at ?b (length pre + 6) = Some 0"
    using u8_at_here [of "pre @ bytes16 0 @ bytes16 (of_nat (?n + 5)) @ bytes16 (of_nat (?n + 3))" 0]
    by (simp add: encode_ext_def l) (simp add: sni_body_def)
  have 5: "u16_at ?b (length pre + 7) = Some ?n"
    using u16_at_here [of "pre @ bytes16 0 @ bytes16 (of_nat (?n + 5)) @ bytes16 (of_nat (?n + 3)) @ [0]" "of_nat ?n"] unat_of_small [of ?n] assms
    by (simp add: encode_ext_def l) (simp add: sni_body_def)
  define q where "q = length pre + 6"
  have q: "length pre + 4 + (?n + 5) = q + 3 + ?n" "length pre + 4 + 2 = q" "length pre + 9 + ?n div 2 = q + 3 + ?n div 2" "length pre + 7 = q + 1"
    by (simp_all add: q_def)
  have "u8_at ?b q = Some 0" "u16_at ?b (q + 1) = Some ?n" using 4 5 by (simp_all only: q_def q(4) [unfolded q_def])
  moreover have "name_loop ?b (q + 3 + ?n) (q + 3 + ?n) (q + 3 + ?n div 2) = Some (Inr (q + 3 + ?n div 2))"
    by (subst name_loop.simps) simp
  ultimately have "name_loop ?b (q + 3 + ?n) q c = Some (Inr (q + 3 + ?n div 2))"
    using assms(1) by (subst name_loop.simps) (simp add: Let_def)
  then have "name_loop ?b (length pre + 4 + (?n + 5)) (length pre + 4 + 2) c = Some (Inr (length pre + 9 + ?n div 2))"
    by (simp only: q)
  then show ?thesis using 1 2 3 by (subst ext_loop.simps) (simp add: Let_def length_encode_ext l add.assoc)
qed

lemma exts_position:
  assumes "list_all other_ext es1" and "list_all other_ext es2" and "name \<noteq> []" and "length name \<le> 65530"
  shows "ext_loop (pre @ encode_exts (es1 @ (0, sni_body name) # es2)) (length pre) c False =
    Some (Inr (length pre + length (encode_exts es1) + 9 + length name div 2))"
proof -
  let ?s = "encode_ext (0, sni_body name)"
  have "ext_loop (pre @ encode_exts es1 @ ?s @ encode_exts es2) (length pre) c False =
      ext_loop ((pre @ encode_exts es1) @ ?s @ encode_exts es2) (length (pre @ encode_exts es1)) c False"
    using ext_loop_others [OF assms(1), of pre "?s @ encode_exts es2"] by simp
  also have "\<dots> = ext_loop ((pre @ encode_exts es1 @ ?s) @ encode_exts es2 @ []) (length (pre @ encode_exts es1 @ ?s))
      (length (pre @ encode_exts es1) + 9 + length name div 2) True"
    using ext_loop_sni [OF assms(3,4), of "pre @ encode_exts es1"] by simp
  also have "\<dots> = Some (Inr (length (pre @ encode_exts es1) + 9 + length name div 2))"
    using ext_loop_others [OF assms(2), of "pre @ encode_exts es1 @ ?s" "[]"] ext_loop_end by (metis append.right_neutral)
  finally show ?thesis by simp
qed

lemma u8_of_small: "n \<le> 255 \<Longrightarrow> unat (of_nat n :: byte) = n"
  by (simp add: unat_of_nat)

text \<open>Where the server name of a hello stands.\<close>

definition name_offset :: "bytes \<Rightarrow> bytes \<Rightarrow> bytes \<Rightarrow> extension list \<Rightarrow> nat" where
  "name_offset sid suites methods es1 = 44 + length sid + length suites + length methods + length (encode_exts es1) + 9"

lemma name_stands:
  assumes "length start = 38"
  shows "take (length name) (drop (name_offset sid suites methods es1) (hello_body start sid suites methods (es1 @ (0, sni_body name) # es2))) = name"
proof -
  let ?f = "start @ [of_nat (length sid)] @ sid @ bytes16 (of_nat (length suites)) @ suites @ [of_nat (length methods)] @ methods @
    bytes16 (of_nat (length (encode_exts (es1 @ (0, sni_body name) # es2)))) @ encode_exts es1 @ bytes16 0 @
    bytes16 (of_nat (length (sni_body name))) @ bytes16 (of_nat (length name + 3)) @ [0] @ bytes16 (of_nat (length name))"
  have "hello_body start sid suites methods (es1 @ (0, sni_body name) # es2) = ?f @ name @ encode_exts es2"
    unfolding hello_body_def encode_exts_simps encode_ext_def prod.case by (simp add: sni_body_def)
  moreover have "length ?f = name_offset sid suites methods es1" using assms by (simp add: name_offset_def)
  ultimately show ?thesis by (metis append_eq_conv_conj)
qed

lemma hello_position:
  assumes start: "length start = 38" and sid: "length sid \<le> 32"
    and suites: "suites \<noteq> []" "even (length suites)" "length suites \<le> 65535"
    and methods: "methods \<noteq> []" "length methods \<le> 255"
    and es: "list_all other_ext es1" "list_all other_ext es2" "name \<noteq> []" "length name \<le> 65530"
    and small: "length (encode_exts (es1 @ (0, sni_body name) # es2)) \<le> 65535"
  shows "helloSplitPosition (hello_body start sid suites methods (es1 @ (0, sni_body name) # es2)) =
    Some (Inr (name_offset sid suites methods es1 + length name div 2))"
proof -
  define E where "E = encode_exts (es1 @ (0, sni_body name) # es2)"
  define b where "b = hello_body start sid suites methods (es1 @ (0, sni_body name) # es2)"
  define p1 where "p1 = start @ [of_nat (length sid)] @ sid"
  define p2 where "p2 = p1 @ bytes16 (of_nat (length suites)) @ suites"
  define p3 where "p3 = p2 @ [of_nat (length methods)] @ methods"
  have b: "b = start @ of_nat (length sid) # (sid @ bytes16 (of_nat (length suites)) @ suites @ [of_nat (length methods)] @ methods @ bytes16 (of_nat (length E)) @ E)"
    "b = p1 @ bytes16 (of_nat (length suites)) @ (suites @ [of_nat (length methods)] @ methods @ bytes16 (of_nat (length E)) @ E)"
    "b = p2 @ of_nat (length methods) # (methods @ bytes16 (of_nat (length E)) @ E)" "b = p3 @ bytes16 (of_nat (length E)) @ E"
    by (simp_all add: b_def hello_body_def p1_def p2_def p3_def E_def)
  have l: "length p1 = 39 + length sid" "length p2 = 41 + length sid + length suites" "length p3 = 42 + length sid + length suites + length methods"
    "length b = 44 + length sid + length suites + length methods + length E"
    by (simp_all add: p1_def p2_def p3_def b(1) start)
  have r1: "u8_at b 38 = Some (length sid)" using u8_at_here [of start "of_nat (length sid)"] start sid u8_of_small [of "length sid"] by (simp add: b(1))
  have r2: "u16_at b (39 + length sid) = Some (length suites)"
    using u16_at_here [of p1 "of_nat (length suites)"] suites unat_of_small [of "length suites"] by (simp only: b(2) l)
  have r3: "u8_at b (41 + length sid + length suites) = Some (length methods)"
    using u8_at_here [of p2 "of_nat (length methods)"] methods u8_of_small [of "length methods"] by (simp only: b(3) l)
  have r4: "u16_at b (42 + length sid + length suites + length methods) = Some (length E)"
    using u16_at_here [of p3 "of_nat (length E)"] small unat_of_small [of "length E"] by (simp only: b(4) l E_def)
  let ?p = "p3 @ bytes16 (of_nat (length E))"
  have lp: "length ?p = 44 + length sid + length suites + length methods" by (simp add: l)
  have "ext_loop (?p @ E) (length ?p) 1 False = Some (Inr (length ?p + length (encode_exts es1) + 9 + length name div 2))"
    unfolding E_def by (rule exts_position [OF es])
  then have x: "ext_loop b (44 + length sid + length suites + length methods) 1 False = Some (Inr (name_offset sid suites methods es1 + length name div 2))"
    by (simp only: lp append_assoc b(4) [symmetric] name_offset_def)
  have "hello_extensions b (42 + length sid + length suites + length methods) = Some (Inr (name_offset sid suites methods es1 + length name div 2))"
    using r4 x l(4) by (simp add: hello_extensions_def add.assoc)
  then show ?thesis using r1 r2 r3 l(4) sid suites methods
    by (simp add: helloSplitPosition_def Let_def even_iff_mod_2_eq_zero add.assoc flip: b_def)
qed

section \<open>The forged hello\<close>

lemma hex_digits:
  "hex_value CHR ''0'' = Some 0"
  "hex_value CHR ''1'' = Some 1"
  "hex_value CHR ''2'' = Some 2"
  "hex_value CHR ''3'' = Some 3"
  "hex_value CHR ''4'' = Some 4"
  "hex_value CHR ''5'' = Some 5"
  "hex_value CHR ''6'' = Some 6"
  "hex_value CHR ''7'' = Some 7"
  "hex_value CHR ''8'' = Some 8"
  "hex_value CHR ''9'' = Some 9"
  "hex_value CHR ''a'' = Some 10"
  "hex_value CHR ''b'' = Some 11"
  "hex_value CHR ''c'' = Some 12"
  "hex_value CHR ''d'' = Some 13"
  "hex_value CHR ''e'' = Some 14"
  "hex_value CHR ''f'' = Some 15"
  by code_simp+

lemma hello_template: "DecodeString helloHex = Some
    [22, 3, 1, 2, 0, 1, 0, 1, 252, 3, 3, 65, 213, 181, 73, 217, 205, 26, 223, 167, 41, 108, 132, 24,
     209, 87, 220, 123, 98, 76, 132, 40, 36, 255, 73, 59, 147, 117, 187, 72, 211, 79, 43, 32, 191, 1,
     139, 204, 144, 167, 200, 154, 35, 0, 148, 129, 90, 208, 193, 91, 115, 110, 56, 192, 18, 9, 215, 45,
     40, 44, 181, 226, 16, 83, 40, 21, 0, 36, 19, 2, 19, 3, 19, 1, 192, 44, 192, 48, 192, 43, 192, 47,
     204, 169, 204, 168, 192, 36, 192, 40, 192, 35, 192, 39, 0, 159, 0, 158, 0, 107, 0, 103, 0, 255, 1,
     0, 1, 143, 0, 0, 0, 11, 0, 9, 0, 0, 6, 109, 99, 105, 46, 105, 114, 0, 11, 0, 4, 3, 0, 1, 2, 0, 10,
     0, 22, 0, 20, 0, 29, 0, 23, 0, 30, 0, 25, 0, 24, 1, 0, 1, 1, 1, 2, 1, 3, 1, 4, 0, 35, 0, 0, 0, 16,
     0, 14, 0, 12, 2, 104, 50, 8, 104, 116, 116, 112, 47, 49, 46, 49, 0, 22, 0, 0, 0, 23, 0, 0, 0, 13,
     0, 42, 0, 40, 4, 3, 5, 3, 6, 3, 8, 7, 8, 8, 8, 9, 8, 10, 8, 11, 8, 4, 8, 5, 8, 6, 4, 1, 5, 1, 6, 1,
     3, 3, 3, 1, 3, 2, 4, 2, 5, 2, 6, 2, 0, 43, 0, 5, 4, 3, 4, 3, 3, 0, 45, 0, 2, 1, 1, 0, 51, 0, 38, 0,
     36, 0, 29, 0, 32, 67, 91, 172, 196, 208, 95, 157, 65, 254, 244, 74, 179, 173, 85, 97, 108, 54, 224,
     97, 52, 115, 226, 51, 135, 112, 239, 218, 169, 134, 147, 210, 23, 0, 21, 0, 213, 0, 0, 0, 0, 0, 0,
     0, 0, 0, 0, 0, 0, 0, 0, 0, 0, 0, 0, 0, 0, 0, 0, 0, 0, 0, 0, 0, 0, 0, 0, 0, 0, 0, 0, 0, 0, 0, 0, 0,
     0, 0, 0, 0, 0, 0, 0, 0, 0, 0, 0, 0, 0, 0, 0, 0, 0, 0, 0, 0, 0, 0, 0, 0, 0, 0, 0, 0, 0, 0, 0, 0, 0,
     0, 0, 0, 0, 0, 0, 0, 0, 0, 0, 0, 0, 0, 0, 0, 0, 0, 0, 0, 0, 0, 0, 0, 0, 0, 0, 0, 0, 0, 0, 0, 0, 0,
     0, 0, 0, 0, 0, 0, 0, 0, 0, 0, 0, 0, 0, 0, 0, 0, 0, 0, 0, 0, 0, 0, 0, 0, 0, 0, 0, 0, 0, 0, 0, 0, 0,
     0, 0, 0, 0, 0, 0, 0, 0, 0, 0, 0, 0, 0, 0, 0, 0, 0, 0, 0, 0, 0, 0, 0, 0, 0, 0, 0, 0, 0, 0, 0, 0, 0,
     0, 0, 0, 0, 0, 0, 0, 0, 0, 0, 0, 0, 0, 0, 0, 0, 0, 0, 0, 0, 0, 0, 0, 0, 0, 0, 0, 0, 0, 0, 0, 0, 0,
     0, 0, 0, 0, 0, 0, 0, 0, 0]"
  by (simp add: helloHex_def hex_digits)

definition hello_suites :: bytes where
  "hello_suites = [19, 2, 19, 3, 19, 1, 192, 44, 192, 48, 192, 43, 192, 47, 204, 169, 204, 168, 192, 36, 192, 40, 192, 35, 192, 39, 0, 159, 0, 158, 0, 107, 0, 103, 0, 255]"

definition hello_extras :: "extension list" where
  "hello_extras = [(11, [3, 0, 1, 2]),
     (10, [0, 20, 0, 29, 0, 23, 0, 30, 0, 25, 0, 24, 1, 0, 1, 1, 1, 2, 1, 3, 1, 4]),
     (35, []),
     (16, [0, 12, 2, 104, 50, 8, 104, 116, 116, 112, 47, 49, 46, 49]),
     (22, []),
     (23, []),
     (13, [0, 40, 4, 3, 5, 3, 6, 3, 8, 7, 8, 8, 8, 9, 8, 10, 8, 11, 8, 4, 8, 5, 8, 6, 4, 1, 5, 1, 6, 1, 3, 3, 3, 1, 3, 2, 4, 2, 5, 2, 6, 2]),
     (43, [4, 3, 4, 3, 3]),
     (45, [1, 1])]"

text \<open>The extensions behind the server name: those of the template, the key share and the padding.\<close>

definition hello_exts :: "bytes \<Rightarrow> nat \<Rightarrow> extension list" where
  "hello_exts share n = hello_extras @ [(51, [0, 36, 0, 29, 0, 32] @ share), (21, replicate (219 - n) 0)]"

lemma template_slices:
  "slice template 0 11 = Some [22, 3, 1, 2, 0, 1, 0, 1, 252, 3, 3]"
  "slice template 76 120 = Some ([0, 36] @ hello_suites @ [1, 0, 1, 143, 0, 0])"
  "slice template 133 268 = Some (encode_exts hello_extras @ [0, 51, 0, 38] @ [0, 36, 0, 29, 0, 32])"
proof -
  note t = template_def hello_template option.case
  show "slice template 0 11 = Some [22, 3, 1, 2, 0, 1, 0, 1, 252, 3, 3]" unfolding t by (simp add: slice_def)
  show "slice template 76 120 = Some ([0, 36] @ hello_suites @ [1, 0, 1, 143, 0, 0])" unfolding t by (simp add: slice_def hello_suites_def)
  show "slice template 133 268 = Some (encode_exts hello_extras @ [0, 51, 0, 38] @ [0, 36, 0, 29, 0, 32])"
    unfolding t by (simp add: slice_def hello_extras_def encode_ext_def bytes16_def)
qed

definition hello_start :: "bytes \<Rightarrow> bytes" where
  "hello_start random = [1, 0, 1, 252, 3, 3] @ take 32 random"

definition forged_hello_body :: "bytes \<Rightarrow> bytes \<Rightarrow> bytes" where
  "forged_hello_body random name = hello_body (hello_start random) (take 32 (drop 32 random)) hello_suites [0]
     ([] @ (0, sni_body name) # hello_exts (drop 64 random) (length name))"

lemma extras_length: "length (encode_exts hello_extras) = 125"
  by (simp add: hello_extras_def encode_ext_def)

lemma exts_length: "length random = 96 \<Longrightarrow> length name \<le> 219 \<Longrightarrow>
   length (encode_exts ([] @ (0, sni_body name) # hello_exts (drop 64 random) (length name))) = 399"
  by (simp add: hello_exts_def extras_length length_encode_ext sni_body_def)

lemma clientHello_layout:
  assumes n: "NormalizeName toASCII name = Inr n" "n \<noteq> ''''" "length n \<le> 219" and random: "length random = 96"
  shows "clientHello toASCII (Some random) name = Some (Inr ([22, 3, 1, 2, 0] @ forged_hello_body random (name_bytes n)))"
proof -
  have r: "slice random 0 32 = Some (take 32 random)" "slice random 32 64 = Some (take 32 (drop 32 random))"
    "slice random 64 96 = Some (drop 64 random)" using random by (simp_all add: slice_def)
  have l: "length (name_bytes n) = length n" by (simp add: name_bytes_def)
  have w: "bytes16 399 = [1, 143]" "bytes16 36 = [0, 36]" "bytes16 0 = [0, 0]" "bytes16 51 = [0, 51]" "bytes16 38 = [0, 38]" "bytes16 21 = [0, 21]"
    by (simp_all add: bytes16_def)
  have e: "length (encode_exts ([] @ (0, sni_body (name_bytes n)) # hello_exts (drop 64 random) (length n))) = 399"
    using exts_length [of random "name_bytes n"] n(3) l random by simp
  show ?thesis using n random
    unfolding clientHello_def forged_hello_body_def hello_body_def l e
    by (simp add: r template_slices l w hello_start_def hello_exts_def encode_ext_def sni_body_def hello_suites_def add.commute)
qed

lemma NormalizeName_length: "NormalizeName toASCII name = Inr n \<Longrightarrow> length n \<le> 219"
  by (auto simp: NormalizeName_def Let_def split: if_splits option.splits)

lemma single_record:
  assumes "length body = 512" and "body = [1, 0, 1, 252] @ rst"
  shows "read_records \<lparr>hr_reader = \<lparr>rd_bytes = [22, 3, 1, 2, 0] @ body @ rest, rd_end = e\<rparr>, hr_wire = [], hr_hello = [], hr_spans = [], hr_need = 4\<rparr> =
    Some (Inr \<lparr>hr_reader = \<lparr>rd_bytes = rest, rd_end = e\<rparr>, hr_wire = [22, 3, 1, 2, 0] @ body, hr_hello = body,
      hr_spans = [\<lparr>sp_wire = 0, sp_payload = 0, sp_size = 512\<rparr>], hr_need = 512\<rparr>)"
proof -
  have b: "u8_at body 0 = Some 1" "u8_at body 1 = Some 0" "u8_at body 2 = Some 1" "u8_at body 3 = Some 252"
    by (simp_all add: assms(2) u8_at_def byte_at_def)
  show ?thesis using assms(1) b
    by (subst read_records.simps)
      (simp add: read_record_def ReadFull_def u16_at_def slice_def Uint16_def be16_def u8_at_def [of "[22, 3, 1, 2, 0]"] byte_at_def [of "[22, 3, 1, 2, 0]"]
        Let_def read_records.simps)
qed

lemma forged_body_shape:
  assumes "length random = 96" and "name \<noteq> []" and "length name \<le> 219"
  shows "length (forged_hello_body random name) = 512" and "\<exists>rst. forged_hello_body random name = [1, 0, 1, 252] @ rst"
    and "helloSplitPosition (forged_hello_body random name) = Some (Inr (122 + length name div 2))"
proof -
  show "length (forged_hello_body random name) = 512"
    using exts_length [OF assms(1,3)] assms(1) unfolding forged_hello_body_def hello_body_def
    by (simp only: length_append) (simp add: hello_start_def hello_suites_def)
  show "\<exists>rst. forged_hello_body random name = [1, 0, 1, 252] @ rst"
    by (simp add: forged_hello_body_def hello_body_def hello_start_def)
  have "helloSplitPosition (forged_hello_body random name) =
      Some (Inr (name_offset (take 32 (drop 32 random)) hello_suites [0] [] + length name div 2))"
    unfolding forged_hello_body_def
  proof (rule hello_position)
    show "length (encode_exts ([] @ (0, sni_body name) # hello_exts (drop 64 random) (length name))) \<le> 65535"
      using exts_length [OF assms(1,3)] by simp
  qed (use assms in \<open>simp_all add: hello_start_def hello_suites_def hello_exts_def hello_extras_def other_ext_def\<close>)
  then show "helloSplitPosition (forged_hello_body random name) = Some (Inr (122 + length name div 2))"
    using assms(1) by (simp add: name_offset_def hello_suites_def)
qed

section \<open>Main results\<close>

text \<open>
  Every well-formed ClientHello is cut inside its server name: for any session id, cipher suites, compression methods
  and extensions within the limits of the protocol, with the server-name extension at any place among the others,
  the position is found and lies in the bytes of the name.
\<close>

theorem hello_cut_inside_server_name:
  assumes "length start = 38" and "length sid \<le> 32" and "suites \<noteq> []" and "even (length suites)" and "length suites \<le> 65535"
    and "methods \<noteq> []" and "length methods \<le> 255" and "list_all other_ext es1" and "list_all other_ext es2"
    and "name \<noteq> []" and "length name \<le> 65530" and "length (encode_exts (es1 @ (0, sni_body name) # es2)) \<le> 65535"
  shows "\<exists>q c. helloSplitPosition (hello_body start sid suites methods (es1 @ (0, sni_body name) # es2)) = Some (Inr c) \<and>
    take (length name) (drop q (hello_body start sid suites methods (es1 @ (0, sni_body name) # es2))) = name \<and>
    q \<le> c \<and> c < q + length name"
proof (intro exI conjI)
  show "helloSplitPosition (hello_body start sid suites methods (es1 @ (0, sni_body name) # es2)) =
      Some (Inr (name_offset sid suites methods es1 + length name div 2))"
    by (rule hello_position) (fact assms)+
  show "take (length name) (drop (name_offset sid suites methods es1) (hello_body start sid suites methods (es1 @ (0, sni_body name) # es2))) = name"
    by (rule name_stands [OF assms(1)])
qed (use assms(10) in \<open>cases name; simp\<close>)+

theorem hello_cut_inside_server_name_witness:
  "\<exists>c. helloSplitPosition (hello_body (replicate 38 0) [] [0x13, 1] [0] ([(16, [1])] @ (0, sni_body [97, 46, 98]) # [(21, [])])) = Some (Inr c) \<and> 0 < c"
  using hello_cut_inside_server_name [of "replicate 38 0" "[]" "[0x13, 1]" "[0]" "[(16, [1])]" "[(21, [])]" "[97, 46, 98]"]
    helloSplitPosition_returns [of "hello_body (replicate 38 0) [] [0x13, 1] [0] ([(16, [1])] @ (0, sni_body [97, 46, 98]) # [(21, [])])"]
  by (auto simp: other_ext_def encode_ext_def sni_body_def returns_position_def)

text \<open>C39. The forged hello is always one handshake record of 517 bytes that carries the normalised name: whatever name is
  accepted, the splitter of this package reads it as a complete ClientHello and finds its cut inside that name,
  which stands at offset 127.
\<close>

theorem forged_hello_is_well_formed:
  assumes "NormalizeName toASCII name = Inr n" and "n \<noteq> ''''" and "length random = 96"
  shows "\<exists>out. clientHello toASCII (Some random) name = Some (Inr out) \<and> length out = 517 \<and>
    take (length n) (drop 127 out) = name_bytes n \<and>
    splitHello \<lparr>rd_bytes = out, rd_end = EOF\<rparr> False = Some (Inr (out, 127 + length n div 2, \<lparr>rd_bytes = [], rd_end = EOF\<rparr>))"
proof -
  have l: "length (name_bytes n) = length n" by (simp add: name_bytes_def)
  have n: "length n \<le> 219" by (rule NormalizeName_length [OF assms(1)])
  let ?b = "forged_hello_body random (name_bytes n)" and ?out = "[22, 3, 1, 2, 0] @ forged_hello_body random (name_bytes n)"
  have nb: "name_bytes n \<noteq> []" "length (name_bytes n) \<le> 219" using assms(2) n by (auto simp: name_bytes_def)
  note shape = forged_body_shape [OF assms(3) nb]
  obtain rst where rst: "?b = [1, 0, 1, 252] @ rst" using shape(2) by blast
  have "take (length n) (drop 122 ?b) = name_bytes n"
    using assms(3) by (simp add: forged_hello_body_def hello_body_def encode_ext_def sni_body_def hello_start_def hello_suites_def l)
  then have 1: "take (length n) (drop 127 ?out) = name_bytes n" by simp
  have "slice ?b 0 512 = Some ?b" using shape(1) by (simp add: slice_def)
  moreover have "122 + length n div 2 < 512" using n by simp
  ultimately have "splitHello \<lparr>rd_bytes = ?out, rd_end = EOF\<rparr> False = Some (Inr (?out, 127 + length n div 2, \<lparr>rd_bytes = [], rd_end = EOF\<rparr>))"
    using single_record [OF shape(1) rst, of "[]" EOF] shape(3) l by (simp add: splitHello_def)
  then show ?thesis using 1 shape(1) clientHello_layout [OF assms(1,2) n assms(3)] by auto
qed

theorem forged_hello_is_well_formed_witness:
  "\<exists>out. clientHello Some (Some (replicate 96 9)) ''Example.ORG.'' = Some (Inr out) \<and> length out = 517 \<and>
    take 11 (drop 127 out) = name_bytes ''example.org''"
proof -
  have "NormalizeName Some ''Example.ORG.'' = Inr ''example.org''" by code_simp
  moreover have "length ''example.org'' = 11" by simp
  ultimately show ?thesis using forged_hello_is_well_formed [of Some "''Example.ORG.''" "''example.org''" "replicate 96 9"]
    by (simp del: list.size) blast
qed

end
