(* ===== verification/Redact.thy ===== *)
theory Redact
  imports Gostr Netip
begin

text \<open>
  Redaction of engine messages: \<open>src/internal/engine/redact.go\<close>, with its four regular expressions written out as
  matchers that find the leftmost match the way the \<open>regexp\<close> package does, and \<open>reason.go\<close>, which classifies a message.
\<close>

section \<open>Characters and runes\<close>

text \<open>The class \<open>\s\<close>, the class of base64url, the word characters of \<open>\b\<close> and the hexadecimal digits.\<close>

definition re_space :: "char \<Rightarrow> bool" where
  "re_space c \<longleftrightarrow> of_char c \<in> {9, 10, 12, 13, 32 :: nat}"

definition b64_char :: "char \<Rightarrow> bool" where
  "b64_char c \<longleftrightarrow> is_alnum c \<or> c = CHR ''_'' \<or> c = CHR ''-''"

definition word_char :: "char \<Rightarrow> bool" where
  "word_char c \<longleftrightarrow> is_alnum c \<or> c = CHR ''_''"

definition re_hex :: "char \<Rightarrow> bool" where
  "re_hex c \<longleftrightarrow> is_digit c \<or> 97 \<le> (of_char c :: nat) \<and> (of_char c :: nat) \<le> 102 \<or> 65 \<le> (of_char c :: nat) \<and> (of_char c :: nat) \<le> 70"

text \<open>The number of bytes of the rune a string starts with; an invalid sequence is one rune of one byte.\<close>

definition byte_in :: "nat \<Rightarrow> nat \<Rightarrow> char \<Rightarrow> bool" where
  "byte_in lo hi c \<longleftrightarrow> lo \<le> (of_char c :: nat) \<and> (of_char c :: nat) \<le> hi"

fun rune_width :: "string \<Rightarrow> nat" where
  "rune_width (a # b # c # d # _) =
    (if byte_in 0xC2 0xDF a \<and> byte_in 0x80 0xBF b then 2
     else if (byte_in 0xE0 0xE0 a \<and> byte_in 0xA0 0xBF b \<or> (byte_in 0xE1 0xEC a \<or> byte_in 0xEE 0xEF a) \<and> byte_in 0x80 0xBF b \<or>
              byte_in 0xED 0xED a \<and> byte_in 0x80 0x9F b) \<and> byte_in 0x80 0xBF c then 3
     else if (byte_in 0xF0 0xF0 a \<and> byte_in 0x90 0xBF b \<or> byte_in 0xF1 0xF3 a \<and> byte_in 0x80 0xBF b \<or>
              byte_in 0xF4 0xF4 a \<and> byte_in 0x80 0x8F b) \<and> byte_in 0x80 0xBF c \<and> byte_in 0x80 0xBF d then 4
     else 1)"
| "rune_width [a, b, c] =
    (if byte_in 0xC2 0xDF a \<and> byte_in 0x80 0xBF b then 2
     else if (byte_in 0xE0 0xE0 a \<and> byte_in 0xA0 0xBF b \<or> (byte_in 0xE1 0xEC a \<or> byte_in 0xEE 0xEF a) \<and> byte_in 0x80 0xBF b \<or>
              byte_in 0xED 0xED a \<and> byte_in 0x80 0x9F b) \<and> byte_in 0x80 0xBF c then 3
     else 1)"
| "rune_width [a, b] = (if byte_in 0xC2 0xDF a \<and> byte_in 0x80 0xBF b then 2 else 1)"
| "rune_width _ = 1"

lemma rune_width_pos: "0 < rune_width s"
  by (induction s rule: rune_width.induct) auto

function rune_count :: "string \<Rightarrow> nat" where
  "rune_count s = (if s = [] then 0 else Suc (rune_count (drop (rune_width s) s)))"
  by pat_completeness auto

termination rune_count by (relation "measure length") (auto simp: rune_width_pos)

declare rune_count.simps [simp del]

section \<open>Masks\<close>

definition markerPrefix :: string where
  "markerPrefix = ''[redacted ''"

definition mask :: "string \<Rightarrow> string" where
  "mask v = markerPrefix @ nat_to_string (rune_count v) @ '' chars]''"

section \<open>The expressions\<close>

text \<open>
  A literal under \<open>(?i)\<close>: letters match either case, and the two letters that have a third case variant in Unicode
  (the Kelvin sign, the long s) match that too.
\<close>

fun strip_ci :: "string \<Rightarrow> string \<Rightarrow> string option" where
  "strip_ci [] s = Some s"
| "strip_ci (p # ps) s =
    (case s of
       c # r \<Rightarrow>
         if lower_char c = lower_char p then strip_ci ps r
         else if lower_char p = CHR ''k'' \<and> take 3 s = [CHR 0xE2, CHR 0x84, CHR 0xAA] then strip_ci ps (drop 3 s)
         else if lower_char p = CHR ''s'' \<and> take 2 s = [CHR 0xC5, CHR 0xBF] then strip_ci ps (drop 2 s)
         else None
     | [] \<Rightarrow> None)"

fun first_match :: "('a \<Rightarrow> 'b option) list \<Rightarrow> 'a \<Rightarrow> 'b option" where
  "first_match [] s = None"
| "first_match (m # ms) s = (case m s of Some r \<Rightarrow> Some r | None \<Rightarrow> first_match ms s)"

definition quoted_key :: "string \<Rightarrow> string \<Rightarrow> string option" where
  "quoted_key k s = strip_ci (dquoted k) s"

definition indexed_key :: "string \<Rightarrow> string option" where
  "indexed_key s = (case strip_ci (dquote # ''shortIds['') s of
     None \<Rightarrow> None
   | Some r \<Rightarrow> if r \<noteq> [] \<and> is_digit (r ! 0) then strip_ci (CHR '']'' # [dquote]) (dropWhile is_digit r) else None)"

text \<open>What follows the key: spaces, a colon, spaces, and the value up to the end of the segment.\<close>

definition tail_value :: "string \<Rightarrow> string option" where
  "tail_value s = (case dropWhile re_space s of
     c # r \<Rightarrow> if c = CHR '':'' then let v = dropWhile re_space r in if v \<noteq> [] \<and> newline \<notin> set v then Some v else None else None
   | [] \<Rightarrow> None)"

definition keyedTail :: "string \<Rightarrow> string option" where
  "keyedTail s = (case first_match [quoted_key ''privateKey'', quoted_key ''publicKey'', quoted_key ''password'', quoted_key ''mldsa65Seed'',
      quoted_key ''mldsa65Verify'', indexed_key, quoted_key ''shortIds'', quoted_key ''shortId'', quoted_key ''id''] s of
     None \<Rightarrow> None | Some r \<Rightarrow> tail_value r)"

definition unkeyedTail :: "string \<Rightarrow> string option" where
  "unkeyedTail s = (case first_match [strip_ci ''can not be the same value'', strip_ci ''invalid UUID''] s of
     None \<Rightarrow> None | Some r \<Rightarrow> tail_value r)"

text \<open>The value captured by the leftmost match, a suffix of the segment.\<close>

fun leftmost :: "(string \<Rightarrow> string option) \<Rightarrow> string \<Rightarrow> string option" where
  "leftmost m [] = m []"
| "leftmost m (c # s) = (case m (c # s) of Some v \<Rightarrow> Some v | None \<Rightarrow> leftmost m s)"

definition replaceTail :: "(string \<Rightarrow> string option) \<Rightarrow> string \<Rightarrow> string" where
  "replaceTail m segment = (case leftmost m segment of
     None \<Rightarrow> segment
   | Some v \<Rightarrow> if has_prefix v markerPrefix then segment else take (length segment - length v) segment @ mask v)"

definition hex_group :: "nat \<Rightarrow> string \<Rightarrow> bool" where
  "hex_group n s \<longleftrightarrow> n \<le> length s \<and> list_all re_hex (take n s)"

text \<open>A UUID at the start of a string, and then a word boundary.\<close>

definition uuid_at :: "string \<Rightarrow> bool" where
  "uuid_at s \<longleftrightarrow> hex_group 8 s \<and> take 1 (drop 8 s) = ''-'' \<and> hex_group 4 (drop 9 s) \<and> take 1 (drop 13 s) = ''-'' \<and>
     hex_group 4 (drop 14 s) \<and> take 1 (drop 18 s) = ''-'' \<and> hex_group 4 (drop 19 s) \<and> take 1 (drop 23 s) = ''-'' \<and>
     hex_group 12 (drop 24 s) \<and> (drop 36 s = [] \<or> \<not> word_char (drop 36 s ! 0))"

text \<open>The flag says whether the character before is a word character; a UUID starts only behind one that is not.\<close>

function replace_uuid :: "bool \<Rightarrow> string \<Rightarrow> string" where
  "replace_uuid prev s =
    (case s of [] \<Rightarrow> []
     | c # r \<Rightarrow>
         if \<not> prev \<and> uuid_at s then mask (take 36 s) @ replace_uuid True (drop 36 s)
         else c # replace_uuid (word_char c) r)"
  by pat_completeness auto

termination replace_uuid by (relation "measure (\<lambda>(_, s). length s)") auto

fun uuid_match :: "bool \<Rightarrow> string \<Rightarrow> bool" where
  "uuid_match prev [] = False"
| "uuid_match prev (c # r) = (\<not> prev \<and> uuid_at (c # r) \<or> uuid_match (word_char c) r)"

function replace_b64 :: "string \<Rightarrow> string" where
  "replace_b64 s =
    (case s of [] \<Rightarrow> []
     | c # r \<Rightarrow>
         if b64_char c then
           let run = takeWhile b64_char s in (if 32 \<le> length run then mask run else run) @ replace_b64 (dropWhile b64_char s)
         else c # replace_b64 r)"
  by pat_completeness auto

termination replace_b64
  by (relation "measure length") (auto simp: less_Suc_eq_le length_dropWhile_le)

fun b64_match :: "nat \<Rightarrow> string \<Rightarrow> bool" where
  "b64_match k [] = (32 \<le> k)"
| "b64_match k (c # s) = (if b64_char c then b64_match (Suc k) s else 32 \<le> k \<or> b64_match 0 s)"

declare replace_uuid.simps [simp del] replace_b64.simps [simp del]

definition redactSegment :: "string \<Rightarrow> string" where
  "redactSegment segment = replace_b64 (replace_uuid False (replaceTail unkeyedTail (replaceTail keyedTail segment)))"

definition ContainsSecretShape :: "string \<Rightarrow> bool" where
  "ContainsSecretShape s \<longleftrightarrow> uuid_match False s \<or> b64_match 0 s"

section \<open>A whole message\<close>

text \<open>\<open>strings.Split\<close> at a separator that is not empty: the first occurrence, then on.\<close>

fun cut_sep :: "string \<Rightarrow> string \<Rightarrow> (string \<times> string) option" where
  "cut_sep sep [] = (if sep = [] then Some ([], []) else None)"
| "cut_sep sep (c # s) =
    (if has_prefix (c # s) sep then Some ([], drop (length sep) (c # s))
     else map_option (\<lambda>(a, b). (c # a, b)) (cut_sep sep s))"

lemma cut_sep_shorter:
  assumes "sep \<noteq> []"
  shows "cut_sep sep s = Some (a, b) \<Longrightarrow> length b < length s"
proof (induction s arbitrary: a b)
  case (Cons c s)
  have "Suc n - length sep < Suc n" for n using assms by (cases sep) auto
  then show ?case using Cons by (fastforce split: if_splits)
qed (use assms in simp)

function split_sep :: "string \<Rightarrow> string \<Rightarrow> string list" where
  "split_sep sep s = (if sep = [] then [s] else case cut_sep sep s of None \<Rightarrow> [s] | Some (a, b) \<Rightarrow> a # split_sep sep b)"
  by pat_completeness auto

termination split_sep by (relation "measure (\<lambda>(_, s). length s)") (auto dest: cut_sep_shorter)

declare split_sep.simps [simp del]

definition redact_line :: "string \<Rightarrow> string" where
  "redact_line line = join '' > '' (map redactSegment (split_sep '' > '' line))"

definition Redact :: "string \<Rightarrow> string" where
  "Redact msg = (if msg = '''' then msg else join [newline] (map redact_line (split_char newline msg)))"

section \<open>Reasons\<close>

datatype reason = ReasonOther | ReasonPortInUse | ReasonInsecureRemoved | ReasonCipherRemoved

definition ReasonOf :: "string option \<Rightarrow> reason" where
  "ReasonOf err = (case err of None \<Rightarrow> ReasonOther
   | Some msg \<Rightarrow>
       if str_contains msg ''failed to listen'' then ReasonPortInUse
       else if str_contains msg (dquoted ''allowInsecure'' @ '' has been removed'') then ReasonInsecureRemoved
       else if str_contains msg ''unknown cipher method'' then ReasonCipherRemoved
       else ReasonOther)"

end
