(* ===== verification/LogRing.thy ===== *)
theory LogRing
  imports Prelude Bytes Redact
begin

text \<open>
  The ring of recent engine events: \<open>src/internal/engine/logring.go\<close>. The ring is refined to a bounded log that drops its
  oldest line when it is full, and no line it holds carries key material: a redacted message has no run of 32
  base64url characters and no UUID left.
\<close>

section \<open>The ring\<close>

definition DefaultLogCapacity :: int where
  "DefaultLogCapacity = 256"

record log_entry =
  le_at :: time
  le_text :: string

definition zero_entry :: log_entry where
  "zero_entry = \<lparr>le_at = zero_time, le_text = ''''\<rparr>"

record log_ring =
  lr_buf :: "log_entry list"
  lr_next :: nat
  lr_filled :: bool
  lr_dropped :: "64 word"

definition NewLogRing :: "int \<Rightarrow> log_ring" where
  "NewLogRing capacity =
    (let capacity = (if capacity \<le> 0 then DefaultLogCapacity else capacity)
     in \<lparr>lr_buf = replicate (nat capacity) zero_entry, lr_next = 0, lr_filled = False, lr_dropped = 0\<rparr>)"

text \<open>The methods take a pointer; \<^term>\<open>None\<close> is the nil ring, on which they do nothing.\<close>

definition ring_put :: "log_entry \<Rightarrow> log_ring \<Rightarrow> log_ring go" where
  "ring_put entry r = do {
     let r = (if lr_filled r then r\<lparr>lr_dropped := lr_dropped r + 1\<rparr> else r);
     if lr_next r < length (lr_buf r) then do {
       let r = r\<lparr>lr_buf := (lr_buf r)[lr_next r := entry], lr_next := (lr_next r + 1) mod length (lr_buf r)\<rparr>;
       Some (if lr_next r = 0 then r\<lparr>lr_filled := True\<rparr> else r)
     }
     else None
   }"

definition Add :: "time \<Rightarrow> string \<Rightarrow> log_ring option \<Rightarrow> log_ring option go" where
  "Add now text r = (case r of None \<Rightarrow> Some None
   | Some r \<Rightarrow> map_option Some (ring_put \<lparr>le_at = now, le_text = Redact text\<rparr> r))"

definition ring_entries :: "log_ring \<Rightarrow> log_entry list" where
  "ring_entries r = (if lr_filled r then drop (lr_next r) (lr_buf r) else []) @ take (lr_next r) (lr_buf r)"

definition Entries :: "log_ring option \<Rightarrow> log_entry list" where
  "Entries r = (case r of None \<Rightarrow> [] | Some r \<Rightarrow> ring_entries r)"

definition Dropped :: "log_ring option \<Rightarrow> 64 word" where
  "Dropped r = (case r of None \<Rightarrow> 0 | Some r \<Rightarrow> lr_dropped r)"

definition ring_reset :: "log_ring \<Rightarrow> log_ring" where
  "ring_reset r = r\<lparr>lr_buf := map (\<lambda>_. zero_entry) (lr_buf r), lr_next := 0, lr_filled := False, lr_dropped := 0\<rparr>"

definition Reset :: "log_ring option \<Rightarrow> log_ring option" where
  "Reset r = map_option ring_reset r"

text \<open>The handler the engine writes to: the ring in force, and a message that may be nil.\<close>

definition Handle :: "time \<Rightarrow> string option \<Rightarrow> log_ring option \<Rightarrow> log_ring option go" where
  "Handle now msg sink = (case (sink, msg) of
     (Some r, Some m) \<Rightarrow> Add now m sink
   | _ \<Rightarrow> Some sink)"

section \<open>Refinement to a bounded log\<close>

text \<open>What the panel is promised: the lines of this run, oldest first, and how many were dropped.\<close>

record bounded_log =
  bl_lines :: "log_entry list"
  bl_dropped :: "64 word"

definition log_add :: "nat \<Rightarrow> log_entry \<Rightarrow> bounded_log \<Rightarrow> bounded_log" where
  "log_add cap e l =
    (if length (bl_lines l) < cap then l\<lparr>bl_lines := bl_lines l @ [e]\<rparr>
     else \<lparr>bl_lines = tl (bl_lines l) @ [e], bl_dropped = bl_dropped l + 1\<rparr>)"

definition empty_log :: bounded_log where
  "empty_log = \<lparr>bl_lines = [], bl_dropped = 0\<rparr>"

definition ring_log :: "log_ring \<Rightarrow> bounded_log" where
  "ring_log r = \<lparr>bl_lines = ring_entries r, bl_dropped = lr_dropped r\<rparr>"

definition ring_ok :: "log_ring \<Rightarrow> bool" where
  "ring_ok r \<longleftrightarrow> lr_next r < length (lr_buf r)"

lemma ring_ok_new: "ring_ok (NewLogRing c)"
  by (simp add: ring_ok_def NewLogRing_def DefaultLogCapacity_def)

lemma ring_ok_reset: "ring_ok r \<Longrightarrow> ring_ok (ring_reset r)"
  by (auto simp: ring_ok_def ring_reset_def)

lemma length_ring_entries: "ring_ok r \<Longrightarrow> length (ring_entries r) = (if lr_filled r then length (lr_buf r) else lr_next r)"
  by (simp add: ring_ok_def ring_entries_def)

lemma take_Suc_update: "n < length b \<Longrightarrow> take (Suc n) (b[n := e]) = take n b @ [e]"
  by (simp add: take_Suc_conv_app_nth)

lemma ring_put_cases:
  assumes "ring_ok r"
  obtains r' where "ring_put e r = Some r'" "ring_ok r'" "length (lr_buf r') = length (lr_buf r)"
    "ring_log r' = log_add (length (lr_buf r)) e (ring_log r)"
proof -
  let ?n = "lr_next r" and ?b = "lr_buf r"
  have n: "?n < length ?b" using assms by (simp add: ring_ok_def)
  show ?thesis
  proof (cases "Suc ?n = length ?b")
    case True
    then have "?b[?n := e] = take ?n ?b @ [e]" using take_Suc_update [OF n, of e] by simp
    moreover have "drop ?n ?b = [?b ! ?n]" using True n by (simp add: Cons_nth_drop_Suc [symmetric])
    ultimately have "\<exists>r'. ring_put e r = Some r' \<and> ring_ok r' \<and> length (lr_buf r') = length ?b \<and> ring_log r' = log_add (length ?b) e (ring_log r)"
      using n True by (auto simp: ring_put_def ring_ok_def ring_log_def ring_entries_def log_add_def Let_def)
    then show ?thesis using that by blast
  next
    case False
    then have m: "Suc ?n < length ?b" using n by simp
    have "take (Suc ?n) (?b[?n := e]) = take ?n ?b @ [e]" by (rule take_Suc_update [OF n])
    moreover have "drop (Suc ?n) (?b[?n := e]) = drop (Suc ?n) ?b" by simp
    moreover have "drop ?n ?b = ?b ! ?n # drop (Suc ?n) ?b" using n by (simp add: Cons_nth_drop_Suc)
    ultimately have "\<exists>r'. ring_put e r = Some r' \<and> ring_ok r' \<and> length (lr_buf r') = length ?b \<and> ring_log r' = log_add (length ?b) e (ring_log r)"
      using n m by (auto simp: ring_put_def ring_ok_def ring_log_def ring_entries_def log_add_def Let_def tl_append split: list.splits)
    then show ?thesis using that by blast
  qed
qed

section \<open>Redacted messages\<close>

lemma b64_match_mono: "b64_match k s \<Longrightarrow> k \<le> k' \<Longrightarrow> b64_match k' s"
  by (induction s arbitrary: k k') (auto split: if_splits)

lemma b64_match_big: "32 \<le> k \<Longrightarrow> b64_match k s"
  by (induction s arbitrary: k) auto

lemma b64_match_sep: "\<not> b64_char c \<Longrightarrow> b64_match k (a @ c # b) \<longleftrightarrow> b64_match k a \<or> b64_match 0 b"
  by (induction a arbitrary: k) (auto simp: b64_match_big)

lemma b64_match_run: "list_all b64_char a \<Longrightarrow> b64_match k (a @ b) = b64_match (k + length a) b"
  by (induction a arbitrary: k) auto

text \<open>The head of a string is no base64url character, or there is none.\<close>

definition broken :: "string \<Rightarrow> bool" where
  "broken s \<longleftrightarrow> s = [] \<or> \<not> b64_char (hd s)"

lemma b64_match_broken: "broken s \<Longrightarrow> \<not> b64_match 0 s \<Longrightarrow> b64_match k s \<longleftrightarrow> 32 \<le> k"
  by (cases s) (auto simp: broken_def split: if_splits)

lemma digits_short: "n < 10 ^ d \<Longrightarrow> 0 < d \<Longrightarrow> length (nat_to_string n) \<le> d"
proof (induction n arbitrary: d rule: nat_to_string.induct)
  case (1 n)
  show ?case
  proof (cases "n < 10")
    case True
    then show ?thesis using 1 by (subst nat_to_string.simps) simp
  next
    case False
    then have "1 < d" using 1(2,3) by (cases "d = 1") auto
    then have "n div 10 < 10 ^ (d - 1)" using 1(2) by (simp add: less_mult_imp_div_less power_eq_if)
    then have "length (nat_to_string (n div 10)) \<le> d - 1" using 1(1) False \<open>1 < d\<close> by simp
    then show ?thesis using False \<open>1 < d\<close> by (subst nat_to_string.simps) simp
  qed
qed

lemma rune_count_le: "rune_count s \<le> length s"
proof (induction s rule: rune_count.induct)
  case (1 s)
  show ?case
  proof (cases "s = []")
    case False
    then have "rune_count (drop (rune_width s) s) < length s"
      using 1 rune_width_pos [of s] by (simp add: le_less_trans)
    then show ?thesis using False by (subst rune_count.simps) simp
  qed (simp add: rune_count.simps)
qed

lemma digits_alnum: "list_all b64_char (nat_to_string n)"
proof (induction n rule: nat_to_string.induct)
  case (1 n)
  have d: "b64_char (digit k)" if "k < 10" for k using that by (simp add: b64_char_def is_alnum_def is_digit_def digit_def of_char_of)
  show ?case using 1 d by (subst nat_to_string.simps) simp
qed

lemma b64_chars: "b64_char CHR ''[''  = False" "b64_char CHR '' '' = False" "b64_char CHR '']'' = False" "b64_char CHR ''>'' = False" "\<not> b64_char newline"
  by code_simp+

lemma b64_match_mask:
  assumes "rune_count v < 10 ^ 19"
  shows "b64_match k (mask v @ s) \<longleftrightarrow> 32 \<le> k \<or> b64_match 0 s"
proof -
  have "length (nat_to_string (rune_count v)) \<le> 19" using digits_short [OF assms] by simp
  then have d: "\<not> b64_match 0 (nat_to_string (rune_count v))"
    using b64_match_run [OF digits_alnum, of 0 "rune_count v" "[]"] by simp
  have w: "\<not> b64_match 0 ''redacted''" "\<not> b64_match 0 ''chars''" by code_simp+
  have "mask v @ s = [] @ CHR ''['' # ''redacted'' @ CHR '' '' # nat_to_string (rune_count v) @ CHR '' '' # ''chars'' @ CHR '']'' # s"
    by (simp add: mask_def markerPrefix_def)
  then show ?thesis by (simp only: b64_match_sep b64_chars not_False_eq_True d w simp_thms) simp
qed

lemma replace_b64_broken: "broken s \<Longrightarrow> broken (replace_b64 s)"
  by (cases s) (simp_all add: broken_def replace_b64.simps)

lemma dropWhile_broken: "broken (dropWhile b64_char s)"
  by (induction s) (auto simp: broken_def)

lemma replace_b64_clean: "length s < 10 ^ 19 \<Longrightarrow> \<not> b64_match 0 (replace_b64 s)"
proof (induction s rule: replace_b64.induct)
  case (1 s)
  show ?case
  proof (cases s)
    case Nil
    then show ?thesis by (simp add: replace_b64.simps)
  next
    case (Cons c r)
    show ?thesis
    proof (cases "b64_char c")
      case True
      let ?run = "takeWhile b64_char s" and ?rest = "dropWhile b64_char s"
      have "length ?rest < 10 ^ 19" using 1(3) by (rule le_less_trans [OF length_dropWhile_le])
      then have rest: "\<not> b64_match 0 (replace_b64 ?rest)" using 1(1) Cons True by simp
      have "rune_count ?run < 10 ^ 19"
        using rune_count_le [of ?run] length_takeWhile_le [of b64_char s] 1(3) by (meson le_less_trans)
      then have "\<not> b64_match 0 (mask ?run @ replace_b64 ?rest)" using b64_match_mask rest by simp
      moreover have "list_all b64_char ?run" by (auto simp: list_all_iff dest: set_takeWhileD)
      then have "length ?run < 32 \<Longrightarrow> \<not> b64_match 0 (?run @ replace_b64 ?rest)"
        using rest b64_match_broken [OF replace_b64_broken [OF dropWhile_broken]] by (simp add: b64_match_run)
      ultimately show ?thesis using True Cons by (subst replace_b64.simps) (simp add: Let_def not_le split del: if_split split: if_splits)
    next
      case False
      then show ?thesis using 1 Cons by (subst replace_b64.simps) simp
    qed
  qed
qed

lemma hex_b64: "list_all re_hex s \<Longrightarrow> list_all b64_char s"
  by (auto simp: list_all_iff re_hex_def b64_char_def is_alnum_def is_upper_def is_lower_def)

lemma uuid_at_run: "uuid_at s \<Longrightarrow> \<exists>u r. s = u @ r \<and> length u = 36 \<and> list_all b64_char u"
proof -
  assume u: "uuid_at s"
  have dash: "b64_char CHR ''-''" by code_simp
  have l: "36 \<le> length s" using u by (auto simp: uuid_at_def hex_group_def)
  have h: "list_all b64_char (take n (drop k s))" if "hex_group n (drop k s)" for n k using that by (simp add: hex_group_def hex_b64)
  have "take 36 s = take 8 (drop 0 s) @ take 1 (drop 8 s) @ take 4 (drop 9 s) @ take 1 (drop 13 s) @ take 4 (drop 14 s) @ take 1 (drop 18 s) @
      take 4 (drop 19 s) @ take 1 (drop 23 s) @ take 12 (drop 24 s)"
    using take_add [of 8 28 s] take_add [of 1 27 "drop 8 s"] take_add [of 4 23 "drop 9 s"] take_add [of 1 22 "drop 13 s"]
      take_add [of 4 18 "drop 14 s"] take_add [of 1 17 "drop 18 s"] take_add [of 4 13 "drop 19 s"] take_add [of 1 12 "drop 23 s"]
    by (simp del: One_nat_def)
  then have "list_all b64_char (take 36 s)" using u h [of 8 0] h [of 4] h [of 12] dash by (simp add: uuid_at_def)
  then show ?thesis using l by (intro exI [of _ "take 36 s"] exI [of _ "drop 36 s"]) simp
qed

lemma uuid_match_run: "uuid_match p s \<Longrightarrow> b64_match k s"
proof (induction s arbitrary: p k)
  case (Cons c s)
  show ?case
  proof (cases "uuid_at (c # s)")
    case True
    then obtain u r where "c # s = u @ r" "length u = 36" "list_all b64_char u" using uuid_at_run by blast
    then show ?thesis by (simp only: b64_match_run b64_match_big)
  next
    case False
    then have "uuid_match (word_char c) s" using Cons.prems by simp
    from Cons.IH [OF this] show ?thesis by simp
  qed
qed simp

lemma secret_shape_is_run: "ContainsSecretShape s \<longleftrightarrow> b64_match 0 s"
  using uuid_match_run by (auto simp: ContainsSecretShape_def)

lemma mask_length: "rune_count v < 10 ^ 19 \<Longrightarrow> length (mask v) \<le> 36"
  using digits_short [of "rune_count v" 19] by (simp add: mask_def markerPrefix_def)

lemma replace_uuid_length: "length (replace_uuid p s) \<le> length s"
proof (induction p s rule: replace_uuid.induct)
  case (1 p s)
  show ?case
  proof (cases s)
    case (Cons c r)
    show ?thesis
    proof (cases "\<not> p \<and> uuid_at s")
      case True
      then have l: "36 \<le> length s" using uuid_at_run by fastforce
      have "rune_count (take 36 s) < 10 ^ 19" using rune_count_le [of "take 36 s"] by simp
      then have "length (mask (take 36 s)) \<le> 36" by (rule mask_length)
      moreover have "replace_uuid p s = mask (take 36 s) @ replace_uuid True (drop 36 s)"
        using True Cons by (subst replace_uuid.simps) simp
      moreover have "length (replace_uuid True (drop 36 s)) \<le> length (drop 36 s)" using 1(1) [OF Cons True] .
      ultimately show ?thesis using l by simp
    qed (use 1(2) Cons in \<open>subst replace_uuid.simps, auto\<close>)
  qed (simp add: replace_uuid.simps)
qed

lemma replaceTail_length:
  assumes "length s < 10 ^ 19 - 1" and "\<And>v. leftmost m s = Some v \<Longrightarrow> length v \<le> length s"
  shows "length (replaceTail m s) \<le> length s + 36"
proof -
  have "length (mask v) \<le> 36" if "leftmost m s = Some v" for v
    using rune_count_le [of v] assms that by (intro mask_length) force
  then show ?thesis by (auto simp: replaceTail_def split: option.split)
qed

definition shrinks :: "(string \<Rightarrow> string option) \<Rightarrow> bool" where
  "shrinks m \<longleftrightarrow> (\<forall>s v. m s = Some v \<longrightarrow> length v \<le> length s)"

lemma shrinks_strip_ci: "strip_ci p s = Some r \<Longrightarrow> length r \<le> length s"
  by (induction p s arbitrary: r rule: strip_ci.induct) (fastforce split: list.splits if_splits)+

lemma shrinks_tail: "tail_value s = Some v \<Longrightarrow> length v \<le> length s"
proof -
  assume "tail_value s = Some v"
  then obtain c r where d: "dropWhile re_space s = c # r" and v: "v = dropWhile re_space r"
    by (auto simp: tail_value_def Let_def split: list.splits if_splits)
  have "length v \<le> length r" using v length_dropWhile_le by blast
  moreover have "Suc (length r) \<le> length s" using length_dropWhile_le [of re_space s] by (simp add: d)
  ultimately show ?thesis by simp
qed

lemma shrinks_first_some: "list_all shrinks ms \<Longrightarrow> shrinks (first_match ms)"
  by (induction ms) (auto simp: shrinks_def split: option.splits)

lemma shrinks_keys: "shrinks (strip_ci p)" "shrinks (quoted_key k)" "shrinks indexed_key"
proof -
  show "shrinks (strip_ci p)" "shrinks (quoted_key k)" by (auto simp: shrinks_def quoted_key_def dest: shrinks_strip_ci)
  have "length v \<le> length s" if "strip_ci (dquote # ''shortIds['') s = Some r" "strip_ci (CHR '']'' # [dquote]) (dropWhile is_digit r) = Some v" for s r v
    using shrinks_strip_ci [OF that(1)] shrinks_strip_ci [OF that(2)] length_dropWhile_le [of is_digit r] by linarith
  then show "shrinks indexed_key" unfolding shrinks_def indexed_key_def
    by (auto split: option.splits if_splits simp del: strip_ci.simps)
qed

lemma shrinks_tails: "shrinks keyedTail" "shrinks unkeyedTail"
proof -
  have c: "shrinks (\<lambda>s. case m s of None \<Rightarrow> None | Some r \<Rightarrow> tail_value r)" if "shrinks m" for m
    using that shrinks_tail by (fastforce simp: shrinks_def split: option.splits)
  show "shrinks keyedTail" "shrinks unkeyedTail"
    unfolding keyedTail_def unkeyedTail_def by (rule c, rule shrinks_first_some, simp add: shrinks_keys)+
qed

lemma leftmost_shrinks: "shrinks m \<Longrightarrow> leftmost m s = Some v \<Longrightarrow> length v \<le> length s"
proof (induction s)
  case Nil
  then have "length v \<le> length ([] :: string)" unfolding shrinks_def by (metis leftmost.simps(1))
  then show ?case .
next
  case (Cons c s)
  show ?case
  proof (cases "m (c # s)")
    case None
    then show ?thesis using Cons by simp
  next
    case (Some w)
    then show ?thesis using Cons.prems unfolding shrinks_def by (metis leftmost.simps(2) option.simps(5))
  qed
qed

lemma redactSegment_clean:
  assumes "length s < 2 ^ 63"
  shows "\<not> b64_match 0 (redactSegment s)"
proof -
  let ?a = "replaceTail keyedTail s" and ?b = "replaceTail unkeyedTail (replaceTail keyedTail s)"
  have a: "length ?a \<le> length s + 36"
    using assms by (intro replaceTail_length) (auto dest: leftmost_shrinks [OF shrinks_tails(1)])
  then have "length ?b \<le> length ?a + 36"
    using assms by (intro replaceTail_length) (auto dest: leftmost_shrinks [OF shrinks_tails(2)])
  then have "length (replace_uuid False ?b) < 10 ^ 19" using replace_uuid_length [of False ?b] a assms by simp
  then show ?thesis unfolding redactSegment_def by (rule replace_b64_clean)
qed

lemma b64_match_seps:
  assumes "sep \<noteq> []" and "list_all (\<lambda>c. \<not> b64_char c) sep"
  shows "b64_match k (a @ sep @ b) \<longleftrightarrow> b64_match k a \<or> b64_match 0 b"
proof -
  obtain c r where s: "sep = c # r" using assms(1) by (cases sep) auto
  have "b64_match 0 (r @ b) = b64_match 0 b" if "list_all (\<lambda>c. \<not> b64_char c) r" using that by (induction r) auto
  then show ?thesis using assms(2) s by (simp add: b64_match_sep)
qed

lemma join_clean:
  assumes "sep \<noteq> []" and "list_all (\<lambda>c. \<not> b64_char c) sep"
  shows "list_all (\<lambda>s. \<not> b64_match 0 s) ss \<Longrightarrow> \<not> b64_match 0 (join sep ss)"
  using assms by (induction sep ss rule: join.induct) (simp_all add: b64_match_seps)

lemma cut_sep_length: "cut_sep sep s = Some (a, b) \<Longrightarrow> length a \<le> length s \<and> length b \<le> length s"
  by (induction s arbitrary: a b) (auto split: if_splits)

lemma split_sep_length: "t \<in> set (split_sep sep s) \<Longrightarrow> length t \<le> length s"
proof (induction sep s rule: split_sep.induct)
  case (1 sep s)
  show ?case
  proof (cases "cut_sep sep s")
    case None
    then show ?thesis using 1(2) by (auto simp: split_sep.simps [of sep s] split: if_splits)
  next
    case (Some ab)
    obtain a b where ab: "ab = (a, b)" by (cases ab)
    show ?thesis
    proof (cases "sep = [] \<or> t = a")
      case True
      then show ?thesis using 1(2) Some ab cut_sep_length [of sep s a b] by (auto simp: split_sep.simps [of sep s] split: if_splits)
    next
      case False
      then have "t \<in> set (split_sep sep b)" using 1(2) Some ab by (simp add: split_sep.simps [of sep s])
      then have "length t \<le> length b" using 1(1) [OF _ Some ab [symmetric]] False by blast
      then show ?thesis using cut_sep_length [of sep s a b] Some ab by simp
    qed
  qed
qed

lemma split_char_length: "t \<in> set (split_char c s) \<Longrightarrow> length t \<le> length s"
  by (induction s arbitrary: t) (fastforce split: if_splits list.splits)+

lemma separators: "list_all (\<lambda>c. \<not> b64_char c) '' > ''" "list_all (\<lambda>c. \<not> b64_char c) [newline]"
  by code_simp+

lemma Redact_clean: "length msg < 2 ^ 63 \<Longrightarrow> \<not> ContainsSecretShape (Redact msg)"
proof -
  assume l: "length msg < 2 ^ 63"
  have "\<not> b64_match 0 (redact_line t)" if "t \<in> set (split_char newline msg)" for t
    unfolding redact_line_def
    by (rule join_clean [OF _ separators(1)])
      (use l split_char_length [OF that] in \<open>auto simp: list_all_iff intro!: redactSegment_clean dest!: split_sep_length\<close>)
  then have "\<not> b64_match 0 (join [newline] (map redact_line (split_char newline msg)))"
    by (intro join_clean [OF _ separators(2)]) (auto simp: list_all_iff)
  then show ?thesis by (simp add: Redact_def secret_shape_is_run)
qed

section \<open>Runs of the ring\<close>

datatype ring_op = OpAdd time string | OpReset

fun ring_step :: "ring_op \<Rightarrow> log_ring option \<Rightarrow> log_ring option go" where
  "ring_step (OpAdd now text) r = Add now text r"
| "ring_step OpReset r = Some (Reset r)"

fun ring_run :: "ring_op list \<Rightarrow> log_ring option \<Rightarrow> log_ring option go" where
  "ring_run [] r = Some r"
| "ring_run (o1 # os) r = ring_step o1 r \<bind> ring_run os"

text \<open>The same operations on the bounded log.\<close>

fun log_step :: "nat \<Rightarrow> ring_op \<Rightarrow> bounded_log \<Rightarrow> bounded_log" where
  "log_step cap (OpAdd now text) l = log_add cap \<lparr>le_at = now, le_text = Redact text\<rparr> l"
| "log_step cap OpReset l = empty_log"

lemma ring_step_refines:
  assumes "ring_ok r"
  shows "\<exists>r'. ring_step oper (Some r) = Some (Some r') \<and> ring_ok r' \<and> length (lr_buf r') = length (lr_buf r) \<and>
    ring_log r' = log_step (length (lr_buf r)) oper (ring_log r)"
proof (cases oper)
  case (OpAdd now msg)
  obtain r' where "ring_put \<lparr>le_at = now, le_text = Redact msg\<rparr> r = Some r'" "ring_ok r'" "length (lr_buf r') = length (lr_buf r)"
    "ring_log r' = log_add (length (lr_buf r)) \<lparr>le_at = now, le_text = Redact msg\<rparr> (ring_log r)"
    using ring_put_cases [OF assms] by blast
  then show ?thesis by (simp add: OpAdd Add_def)
next
  case OpReset
  then show ?thesis using ring_ok_reset [OF assms]
    by (auto simp: Reset_def ring_log_def empty_log_def ring_entries_def ring_reset_def)
qed

lemma ring_run_refines:
  "ring_ok r \<Longrightarrow> \<exists>r'. ring_run ops (Some r) = Some (Some r') \<and> ring_ok r' \<and> length (lr_buf r') = length (lr_buf r) \<and>
    ring_log r' = fold (log_step (length (lr_buf r))) ops (ring_log r)"
proof (induction ops arbitrary: r)
  case (Cons oper ops)
  obtain r1 where 1: "ring_step oper (Some r) = Some (Some r1)" "ring_ok r1" "length (lr_buf r1) = length (lr_buf r)"
    "ring_log r1 = log_step (length (lr_buf r)) oper (ring_log r)" using ring_step_refines [OF Cons.prems] by blast
  then show ?case using Cons.IH [OF 1(2)] by simp
qed simp

lemma new_ring_log: "ring_log (NewLogRing c) = empty_log"
  by (simp add: ring_log_def empty_log_def ring_entries_def NewLogRing_def)

definition op_text_ok :: "ring_op \<Rightarrow> bool" where
  "op_text_ok oper = (case oper of OpAdd _ msg \<Rightarrow> length msg < 2 ^ 63 | OpReset \<Rightarrow> True)"

lemma log_fold_clean:
  "list_all op_text_ok ops \<Longrightarrow> list_all (\<lambda>e. \<not> ContainsSecretShape (le_text e)) (bl_lines l) \<Longrightarrow>
   list_all (\<lambda>e. \<not> ContainsSecretShape (le_text e)) (bl_lines (fold (log_step cap) ops l))"
proof (induction ops arbitrary: l)
  case (Cons oper ops)
  have "list_all (\<lambda>e. \<not> ContainsSecretShape (le_text e)) (bl_lines (log_step cap oper l))"
  proof (cases oper)
    case (OpAdd now msg)
    have "e \<in> set xs" if "e \<in> set (tl xs)" for e and xs :: "log_entry list" using that by (cases xs) auto
    then show ?thesis using OpAdd Cons.prems Redact_clean [of msg] by (auto simp: log_add_def op_text_ok_def list_all_iff)
  qed (simp add: empty_log_def)
  then show ?case using Cons by simp
qed simp

section \<open>Main results\<close>


text \<open>C9. No line of the panel's recent events carries key material: whatever messages the engine logged, at any length a Go
  string can have, no retained line has a UUID or a run of 32 base64url characters.\<close>

theorem events_hold_no_secret:
  assumes "list_all op_text_ok ops"
  shows "\<exists>r. ring_run ops (Some (NewLogRing c)) = Some (Some r) \<and>
    list_all (\<lambda>e. \<not> ContainsSecretShape (le_text e)) (Entries (Some r))"
proof -
  obtain r where r: "ring_run ops (Some (NewLogRing c)) = Some (Some r)"
    "ring_log r = fold (log_step (length (lr_buf (NewLogRing c)))) ops empty_log"
    using ring_run_refines [OF ring_ok_new [of c], of ops] by (auto simp: new_ring_log)
  have "list_all (\<lambda>e. \<not> ContainsSecretShape (le_text e)) (bl_lines (ring_log r))"
    unfolding r(2) by (rule log_fold_clean [OF assms]) (simp add: empty_log_def)
  then show ?thesis using r(1) by (simp add: ring_log_def Entries_def)
qed

theorem events_hold_no_secret_witness:
  "\<exists>r. ring_run [OpAdd 0 ''user 2b5e3f60-11d2-4a5b-9c7e-aabbccddeeff is gone'', OpAdd 1 ''ok''] (Some (NewLogRing 1)) = Some (Some r) \<and>
    list_all (\<lambda>e. \<not> ContainsSecretShape (le_text e)) (Entries (Some r))"
  by (rule events_hold_no_secret) (simp add: op_text_ok_def)

end
