(* ===== verification/Engine.thy ===== *)
theory Engine
  imports LogRing
begin

text \<open>
  The lifecycle of the engine: \<open>src/internal/engine/engine.go\<close> (\<open>Start\<close>, \<open>buildAndStart\<close>, \<open>Stop\<close>, \<open>Validate\<close>, \<open>State\<close>) and
  \<open>tundevice.go\<close> (recording the tunnel devices and descriptors a start creates, and giving them back). The machine is
  the table of network links and the descriptors open on the tunnel device; the embedded xray-core (loading a
  configuration, constructing, starting and closing an instance) and the kernel's answers are parameters.
\<close>

section \<open>The machine\<close>

record machine =
  mc_links :: "(string \<times> int) list"
  mc_fds :: "int list"

definition lookupLinkIndex :: "string \<Rightarrow> machine \<Rightarrow> int option" where
  "lookupLinkIndex name m = map_of (mc_links m) name"

text \<open>
  What the kernel does: deleting a link (an error, or none, and the machine after it), closing a descriptor, and what
  happens on the machine between two polls; the number of polls that fit into the grace period.
\<close>

record kernel =
  kn_delete :: "string \<Rightarrow> machine \<Rightarrow> string option \<times> machine"
  kn_close :: "int \<Rightarrow> machine \<Rightarrow> string option \<times> machine"
  kn_tick :: "machine \<Rightarrow> machine"
  kn_polls :: nat

section \<open>What a start takes from the machine\<close>

text \<open>An inbound of a loaded configuration, by what \<open>tunInboundNames\<close> finds out about it.\<close>

datatype inbound = NilInbound | NoProxySettings | UnreadableSettings | OtherSettings | TunSettings string

text \<open>
  An entry of the list of applications: the log configuration, an entry of its type whose bytes do not decode (with the
  error), one that decodes to something else, or an entry of another type.
\<close>

datatype log_type = LogNone | LogConsole | LogFile | LogEvent

record log_config =
  lc_error_type :: log_type
  lc_error_level :: nat
  lc_error_path :: string
  lc_access_type :: log_type
  lc_access_path :: string
  lc_dns :: bool

datatype app = LogApp log_config | UndecodableLog string | MisdecodedLog | OtherApp string

record core_config =
  cc_app :: "app list"
  cc_inbound :: "inbound list"

text \<open>
  \<open>forceLogToRing\<close>: the first log configuration found is rewritten, and one is put in front when there is none. The
  argument says whether marshalling a log configuration fails.
\<close>

definition to_ring :: "log_config \<Rightarrow> log_config" where
  "to_ring lc = lc\<lparr>lc_error_type := LogConsole, lc_error_path := '''', lc_access_type := LogNone, lc_access_path := '''', lc_dns := False\<rparr>"

fun rewrite_log :: "(log_config \<Rightarrow> string option) \<Rightarrow> app list \<Rightarrow> string + app list option" where
  "rewrite_log marshal [] = Inr None"
| "rewrite_log marshal (a # apps) = (case a of
     UndecodableLog err \<Rightarrow> Inl err
   | LogApp lc \<Rightarrow> (case marshal (to_ring lc) of Some err \<Rightarrow> Inl err | None \<Rightarrow> Inr (Some (LogApp (to_ring lc) # apps)))
   | _ \<Rightarrow> map_sum id (map_option ((#) a)) (rewrite_log marshal apps))"

definition severity_warning :: nat where
  "severity_warning = 2"

definition default_log :: log_config where
  "default_log = \<lparr>lc_error_type = LogConsole, lc_error_level = severity_warning, lc_error_path = '''', lc_access_type = LogNone,
     lc_access_path = '''', lc_dns = False\<rparr>"

definition forceLogToRing :: "(log_config \<Rightarrow> string option) \<Rightarrow> core_config \<Rightarrow> string + core_config" where
  "forceLogToRing marshal cfg = (case rewrite_log marshal (cc_app cfg) of
     Inl err \<Rightarrow> Inl err
   | Inr (Some apps) \<Rightarrow> Inr (cfg\<lparr>cc_app := apps\<rparr>)
   | Inr None \<Rightarrow> (case marshal default_log of Some err \<Rightarrow> Inl err | None \<Rightarrow> Inr (cfg\<lparr>cc_app := LogApp default_log # cc_app cfg\<rparr>)))"

definition tunInboundNames :: "core_config option \<Rightarrow> string list" where
  "tunInboundNames cfg = (case cfg of None \<Rightarrow> []
   | Some cfg \<Rightarrow> concat (map (\<lambda>i. case i of TunSettings name \<Rightarrow> if name = '''' then [] else [name] | _ \<Rightarrow> []) (cc_inbound cfg)))"

record tun_device =
  td_name :: string
  td_index :: int

record tun_hold =
  th_devices :: "tun_device list"
  th_fds :: "int list"

text \<open>The order in which the descriptors are found is that of a map, here of the list.\<close>

definition captureTunHold :: "core_config \<Rightarrow> int list \<Rightarrow> machine \<Rightarrow> tun_hold" where
  "captureTunHold cfg before m =
    \<lparr>th_devices = concat (map (\<lambda>name. case lookupLinkIndex name m of None \<Rightarrow> [] | Some i \<Rightarrow> [\<lparr>td_name = name, td_index = i\<rparr>]) (tunInboundNames (Some cfg))),
     th_fds = filter (\<lambda>fd. fd \<notin> set before) (mc_fds m)\<rparr>"

datatype tun_error = ReusedName string int int | DeleteFailed string string | StillPresent string | CloseFailed string

fun await_gone :: "kernel \<Rightarrow> nat \<Rightarrow> string \<Rightarrow> machine \<Rightarrow> tun_error option \<times> machine" where
  "await_gone k 0 name m = (Some (StillPresent name), m)"
| "await_gone k (Suc n) name m =
    (if lookupLinkIndex name m = None then (None, m) else await_gone k n name (kn_tick k m))"

definition removeTunDevice :: "kernel \<Rightarrow> tun_device \<Rightarrow> machine \<Rightarrow> tun_error option \<times> machine" where
  "removeTunDevice k d m = (case lookupLinkIndex (td_name d) m of
     None \<Rightarrow> (None, m)
   | Some index \<Rightarrow>
       if index \<noteq> td_index d then (Some (ReusedName (td_name d) index (td_index d)), m)
       else case kn_delete k (td_name d) m of
         (Some e, m) \<Rightarrow> (Some (DeleteFailed (td_name d) e), m)
       | (None, m) \<Rightarrow> await_gone k (kn_polls k) (td_name d) m)"

definition close_fd :: "kernel \<Rightarrow> int \<Rightarrow> machine \<Rightarrow> tun_error option \<times> machine" where
  "close_fd k fd m = (case kn_close k fd m of (Some e, m) \<Rightarrow> (Some (CloseFailed e), m) | (None, m) \<Rightarrow> (None, m))"

text \<open>Going on past every failure and collecting them.\<close>

fun each_of :: "('a \<Rightarrow> machine \<Rightarrow> tun_error option \<times> machine) \<Rightarrow> 'a list \<Rightarrow> machine \<Rightarrow> tun_error list \<times> machine" where
  "each_of f [] m = ([], m)"
| "each_of f (x # xs) m = (case f x m of (e, m) \<Rightarrow> case each_of f xs m of (es, m) \<Rightarrow> ((case e of None \<Rightarrow> es | Some e \<Rightarrow> e # es), m))"

definition release :: "kernel \<Rightarrow> tun_hold option \<Rightarrow> machine \<Rightarrow> tun_error list \<times> machine" where
  "release k h m = (case h of None \<Rightarrow> ([], m)
   | Some h \<Rightarrow> case each_of (removeTunDevice k) (th_devices h) m of
       (es, m) \<Rightarrow> case each_of (close_fd k) (th_fds h) m of (es', m) \<Rightarrow> (es @ es', m))"

section \<open>The engine\<close>

datatype phase = PhaseStopped | PhaseStarting | PhaseRunning | PhaseFailed

record engine_error =
  ee_op :: string
  ee_msg :: string

definition engine_error_text :: "engine_error \<Rightarrow> string" where
  "engine_error_text e = ee_op e @ '': '' @ ee_msg e"

definition wrap :: "string \<Rightarrow> string option \<Rightarrow> engine_error option" where
  "wrap kind err = map_option (\<lambda>e. \<lparr>ee_op = kind, ee_msg = Redact e\<rparr>) err"

record 'i engine =
  eg_phase :: phase
  eg_reason :: string
  eg_since :: time
  eg_inst :: "'i option"
  eg_tun :: "tun_hold option"
  eg_logs :: "log_ring option"

definition NewWithLogCapacity :: "time \<Rightarrow> int \<Rightarrow> 'i engine" where
  "NewWithLogCapacity now capacity = \<lparr>eg_phase = PhaseStopped, eg_reason = '''', eg_since = now, eg_inst = None, eg_tun = None,
     eg_logs = Some (NewLogRing capacity)\<rparr>"

definition New :: "time \<Rightarrow> 'i engine" where
  "New now = NewWithLogCapacity now DefaultLogCapacity"

definition State :: "'i engine \<Rightarrow> phase \<times> string \<times> time" where
  "State e = (eg_phase e, eg_reason e, eg_since e)"

definition setState :: "time \<Rightarrow> phase \<Rightarrow> string \<Rightarrow> 'i engine \<Rightarrow> 'i engine" where
  "setState now p reason e = e\<lparr>eg_phase := p, eg_reason := reason, eg_since := now\<rparr>"

text \<open>
  The embedded xray-core: loading a configuration, marshalling a log configuration, constructing an instance, starting
  it and closing it. Constructing may have changed the machine although it failed.
\<close>

record 'i core =
  co_load :: "string \<Rightarrow> string + core_config"
  co_marshal :: "log_config \<Rightarrow> string option"
  co_new :: "core_config \<Rightarrow> machine \<Rightarrow> (string + 'i) \<times> machine"
  co_start :: "'i \<Rightarrow> machine \<Rightarrow> string option \<times> machine"
  co_close :: "'i \<Rightarrow> machine \<Rightarrow> string option \<times> machine"

text \<open>The text of the errors of a release, for the ring or the caller.\<close>

definition tun_error_text :: "tun_error \<Rightarrow> string" where
  "tun_error_text e = (case e of
     ReusedName name index own \<Rightarrow> ''the tunnel device '' @ name @ '' is now interface '' @ int_to_string index @ '' and not the '' @
       int_to_string own @ '' this engine created, so it was left alone''
   | DeleteFailed name m \<Rightarrow> ''deleting the tunnel device '' @ name @ '': '' @ m
   | StillPresent name \<Rightarrow> ''the tunnel device '' @ name @ '' is still present 2s after it was deleted''
   | CloseFailed m \<Rightarrow> ''closing the tunnel descriptor: '' @ m)"

text \<open>\<open>errors.Join\<close>: no error for none, otherwise the texts on lines of their own.\<close>

definition join_errors :: "string list \<Rightarrow> string option" where
  "join_errors es = (if es = [] then None else Some (join [newline] es))"

definition released_note :: string where
  "released_note = ''the tunnel device was not released after a start that failed: ''"

definition releaseAfterFailedStart :: "kernel \<Rightarrow> time \<Rightarrow> tun_hold \<Rightarrow> 'i engine \<times> machine \<Rightarrow> ('i engine \<times> machine) go" where
  "releaseAfterFailedStart k now hold s = (case s of (e, m) \<Rightarrow>
     case release k (Some hold) m of (es, m) \<Rightarrow>
       case join_errors (map tun_error_text es) of
         None \<Rightarrow> Some (e, m)
       | Some t \<Rightarrow> map_option (\<lambda>r. (e\<lparr>eg_logs := r\<rparr>, m)) (Add now (released_note @ t) (eg_logs e)))"

text \<open>\<open>buildAndStart\<close>; the context is asked once, between constructing the instance and starting it.\<close>

definition buildAndStart ::
  "'i core \<Rightarrow> kernel \<Rightarrow> time \<Rightarrow> string option \<Rightarrow> string \<Rightarrow> 'i engine \<times> machine \<Rightarrow> ((string + ('i \<times> tun_hold)) \<times> 'i engine \<times> machine) go" where
  "buildAndStart co k now ctx json s = (case s of (e, m) \<Rightarrow>
     let e = e\<lparr>eg_logs := Reset (eg_logs e)\<rparr> in
     case co_load co json of Inl err \<Rightarrow> Some (Inl err, e, m)
     | Inr cfg \<Rightarrow> (case forceLogToRing (co_marshal co) cfg of Inl err \<Rightarrow> Some (Inl err, e, m)
       | Inr cfg \<Rightarrow>
         let before = mc_fds m in
         case co_new co cfg m of
           (Inl err, m) \<Rightarrow> map_option (\<lambda>s. (Inl err, s)) (releaseAfterFailedStart k now (captureTunHold cfg before m) (e, m))
         | (Inr inst, m) \<Rightarrow>
             let hold = captureTunHold cfg before m in
             case ctx of
               Some err \<Rightarrow> (case co_close co inst m of (_, m) \<Rightarrow>
                 map_option (\<lambda>s. (Inl err, s)) (releaseAfterFailedStart k now hold (e, m)))
             | None \<Rightarrow> (case co_start co inst m of
                 (Some err, m) \<Rightarrow> (case co_close co inst m of (_, m) \<Rightarrow>
                   map_option (\<lambda>s. (Inl err, s)) (releaseAfterFailedStart k now hold (e, m)))
               | (None, m) \<Rightarrow> Some (Inr (inst, hold), e, m))))"

text \<open>The two arguments of type option are what the context says before any work and after constructing.\<close>

definition Start ::
  "'i core \<Rightarrow> kernel \<Rightarrow> time \<Rightarrow> string option \<Rightarrow> string option \<Rightarrow> string \<Rightarrow> 'i engine \<times> machine \<Rightarrow> (engine_error option \<times> 'i engine \<times> machine) go" where
  "Start co k now ctx1 ctx2 json s = (case s of (e, m) \<Rightarrow>
     if eg_phase e = PhaseRunning then Some (None, e, m)
     else if ctx1 \<noteq> None then Some (wrap ''start'' ctx1, e, m)
     else
       map_option (\<lambda>(r, e, m). case r of
           Inl err \<Rightarrow> let werr = \<lparr>ee_op = ''start'', ee_msg = Redact err\<rparr> in (Some werr, setState now PhaseFailed (ee_msg werr) e, m)
         | Inr (inst, hold) \<Rightarrow> (None, setState now PhaseRunning '''' (e\<lparr>eg_inst := Some inst, eg_tun := Some hold\<rparr>), m))
         (buildAndStart co k now ctx2 json (setState now PhaseStarting '''' e, m)))"

definition Stop :: "'i core \<Rightarrow> kernel \<Rightarrow> time \<Rightarrow> 'i engine \<times> machine \<Rightarrow> engine_error option \<times> 'i engine \<times> machine" where
  "Stop co k now s = (case s of (e, m) \<Rightarrow>
     let inst = eg_inst e; hold = eg_tun e; e = e\<lparr>eg_inst := None, eg_tun := None\<rparr> in
     case inst of
       None \<Rightarrow> (case release k hold m of (es, m) \<Rightarrow>
         (wrap ''stop'' (join_errors (map tun_error_text es)), setState now PhaseStopped '''' e, m))
     | Some i \<Rightarrow> (case co_close co i m of (err, m) \<Rightarrow> case release k hold m of (es, m) \<Rightarrow>
         (wrap ''stop'' (join_errors ((case err of None \<Rightarrow> [] | Some t \<Rightarrow> [t]) @
            (case join_errors (map tun_error_text es) of None \<Rightarrow> [] | Some t \<Rightarrow> [t]))), setState now PhaseStopped '''' e, m)))"

definition Validate :: "'i core \<Rightarrow> string \<Rightarrow> engine_error option" where
  "Validate co json = wrap ''validate'' (case co_load co json of Inl err \<Rightarrow> Some err | Inr _ \<Rightarrow> None)"

end
