(* ===== verification/EngineProps.thy ===== *)
theory EngineProps
  imports Engine
begin

text \<open>
  Properties of the engine's lifecycle: what a start creates on the machine is given back by a failed start and by a
  stop, the reported state agrees with the instance and carries no secret, and a link of another program that
  has the configured name is deleted by a start that fails on it.
\<close>

section \<open>Giving devices back\<close>

text \<open>The documented behaviour of the kernel calls when they are not refused.\<close>

definition without_link :: "string \<Rightarrow> machine \<Rightarrow> machine" where
  "without_link n m = m\<lparr>mc_links := filter (\<lambda>l. fst l \<noteq> n) (mc_links m)\<rparr>"

definition without_fd :: "int \<Rightarrow> machine \<Rightarrow> machine" where
  "without_fd fd m = m\<lparr>mc_fds := filter (\<lambda>x. x \<noteq> fd) (mc_fds m)\<rparr>"

lemma lookup_without: "lookupLinkIndex x (without_link n m) = (if x = n then None else lookupLinkIndex x m)"
proof -
  have "map_of (filter (\<lambda>l. fst l \<noteq> n) xs) x = (if x = n then None else map_of xs x)" for xs :: "(string \<times> int) list"
    by (induction xs) auto
  then show ?thesis by (simp add: lookupLinkIndex_def without_link_def)
qed

lemma without_absent: "lookupLinkIndex n m = None \<Longrightarrow> without_link n m = m"
  by (force simp: lookupLinkIndex_def without_link_def map_of_eq_None_iff filter_id_conv intro!: machine.equality)

locale willing_kernel =
  fixes k :: kernel
  assumes delete_removes: "kn_delete k n m = (None, without_link n m)"
    and close_removes: "kn_close k fd m = (None, without_fd fd m)"
    and polls_pos: "0 < kn_polls k"
begin

lemma removeTunDevice_result:
  "removeTunDevice k d m =
    (case lookupLinkIndex (td_name d) m of
       None \<Rightarrow> (None, m)
     | Some i \<Rightarrow> if i = td_index d then (None, without_link (td_name d) m) else (Some (ReusedName (td_name d) i (td_index d)), m))"
proof -
  obtain n where n: "kn_polls k = Suc n" using polls_pos by (cases "kn_polls k") auto
  show ?thesis by (auto simp: removeTunDevice_def delete_removes n lookup_without split: option.split)
qed

lemma remove_devices:
  assumes "list_all (\<lambda>d. lookupLinkIndex (td_name d) m \<in> {None, Some (td_index d)}) ds"
  shows "each_of (removeTunDevice k) ds m = ([], m\<lparr>mc_links := filter (\<lambda>l. fst l \<notin> td_name ` set ds) (mc_links m)\<rparr>)"
  using assms
proof (induction ds arbitrary: m)
  case (Cons d ds)
  have r: "removeTunDevice k d m = (None, without_link (td_name d) m)"
    using Cons.prems without_absent by (auto simp: removeTunDevice_result split: option.split)
  have "list_all (\<lambda>x. lookupLinkIndex (td_name x) (without_link (td_name d) m) \<in> {None, Some (td_index x)}) ds"
    using Cons.prems by (auto simp: list_all_iff lookup_without)
  from Cons.IH [OF this] show ?case by (simp add: r without_link_def conj_commute conj_left_commute)
qed simp

lemma close_all: "each_of (close_fd k) fds m = ([], m\<lparr>mc_fds := filter (\<lambda>x. x \<notin> set fds) (mc_fds m)\<rparr>)"
  by (induction fds arbitrary: m) (auto simp: close_fd_def close_removes without_fd_def conj_commute intro!: machine.equality filter_cong)

end

text \<open>The names a configuration would give to its tunnel devices are free on the machine.\<close>

definition names_free :: "'i core \<Rightarrow> string \<Rightarrow> machine \<Rightarrow> bool" where
  "names_free co json m \<longleftrightarrow> (case co_load co json of Inl _ \<Rightarrow> True
   | Inr c \<Rightarrow> case forceLogToRing (co_marshal co) c of Inl _ \<Rightarrow> True | Inr cfg \<Rightarrow> list_all (\<lambda>n. lookupLinkIndex n m = None) (tunInboundNames (Some cfg)))"

text \<open>
  The documented behaviour of xray-core: constructing creates links only for the TUN inbounds and only descriptors that
  were not open; starting creates nothing; closing an instance takes away at most what constructing it created.
\<close>

locale core_laws = willing_kernel k for k +
  fixes co :: "'i core" and made :: "'i \<Rightarrow> string set" and opened :: "'i \<Rightarrow> int set"
  assumes new_creates: "co_new co cfg m = (r, m') \<Longrightarrow>
      \<exists>new fds. m' = m\<lparr>mc_links := mc_links m @ new, mc_fds := mc_fds m @ fds\<rparr> \<and> distinct (map fst new) \<and>
        fst ` set new \<subseteq> set (tunInboundNames (Some cfg)) \<and> set fds \<inter> set (mc_fds m) = {} \<and>
        (\<forall>i. r = Inr i \<longrightarrow> made i \<subseteq> set (tunInboundNames (Some cfg)) \<and> opened i \<inter> set (mc_fds m) = {})"
    and start_keeps: "co_start co i m = (e, m') \<Longrightarrow> m' = m"
    and close_takes: "co_close co i m = (e, m') \<Longrightarrow>
      \<exists>P Q. m' = m\<lparr>mc_links := filter (\<lambda>l. fst l \<notin> made i \<or> P l) (mc_links m), mc_fds := filter (\<lambda>x. x \<notin> opened i \<or> Q x) (mc_fds m)\<rparr>"
begin

lemma release_restores:
  assumes fresh: "\<forall>n \<in> set (tunInboundNames (Some cfg)). lookupLinkIndex n m = None"
    and m1: "m1 = m\<lparr>mc_links := mc_links m @ new, mc_fds := mc_fds m @ fds\<rparr>" "distinct (map fst new)"
      "fst ` set new \<subseteq> set (tunInboundNames (Some cfg))" "set fds \<inter> set (mc_fds m) = {}"
    and m2: "m2 = m1\<lparr>mc_links := filter P (mc_links m1), mc_fds := filter Q (mc_fds m1)\<rparr>"
    and keeps: "\<forall>l \<in> set (mc_links m). P l" "\<forall>x \<in> set (mc_fds m). Q x"
  shows "release k (Some (captureTunHold cfg (mc_fds m) m1)) m2 = ([], m)"
proof -
  let ?names = "tunInboundNames (Some cfg)" and ?h = "captureTunHold cfg (mc_fds m) m1"
  have old: "fst ` set (mc_links m) \<inter> set ?names = {}"
    using fresh by (auto simp: lookupLinkIndex_def map_of_eq_None_iff)
  have fm: "filter P (mc_links m) = mc_links m" "filter Q (mc_fds m) = mc_fds m" using keeps by (simp_all add: filter_id_conv)
  have hold: "set (th_devices ?h) = {\<lparr>td_name = n, td_index = i\<rparr> | n i. n \<in> set ?names \<and> lookupLinkIndex n m1 = Some i}"
    by (auto simp: captureTunHold_def split: option.splits)
  have devs: "td_name ` set (th_devices ?h) = {n. n \<in> set ?names \<and> (\<exists>i. lookupLinkIndex n m1 = Some i)}"
    unfolding hold by (auto simp: image_iff) (metis tun_device.select_convs(1))
  have same: "lookupLinkIndex (td_name d) m2 \<in> {None, Some (td_index d)}" if "d \<in> set (th_devices ?h)" for d
  proof -
    have d: "td_name d \<in> set ?names" "lookupLinkIndex (td_name d) m1 = Some (td_index d)"
      using that unfolding hold by auto
    have none: "map_of (mc_links m) (td_name d) = None" using d(1) fresh by (simp add: lookupLinkIndex_def)
    then have "map_of new (td_name d) = Some (td_index d)" using d(2) m1(1) by (simp add: lookupLinkIndex_def map_add_def)
    then have "map_of (filter P new) (td_name d) \<in> {None, Some (td_index d)}"
      using m1(2) by (induction new) (auto simp: map_of_eq_None_iff image_iff split: if_splits)
    then show ?thesis using none m2 m1(1) fm by (auto simp: lookupLinkIndex_def map_add_def)
  qed
  have "each_of (removeTunDevice k) (th_devices ?h) m2 =
      ([], m2\<lparr>mc_links := filter (\<lambda>l. fst l \<notin> td_name ` set (th_devices ?h)) (mc_links m2)\<rparr>)"
    using same by (intro remove_devices) (auto simp: list_all_iff)
  moreover have "filter (\<lambda>l. fst l \<notin> td_name ` set (th_devices ?h)) (mc_links m2) = mc_links m"
  proof -
    have "filter (\<lambda>l. fst l \<notin> td_name ` set (th_devices ?h)) (mc_links m) = mc_links m" using old devs by (auto simp: filter_id_conv)
    moreover have "fst l \<in> td_name ` set (th_devices ?h)" if l: "l \<in> set new" for l
    proof -
      have "fst l \<in> fst ` set (mc_links m1)" using l m1(1) by simp
      then have "map_of (mc_links m1) (fst l) \<noteq> None" by (simp only: map_of_eq_None_iff not_not)
      moreover have "fst l \<in> set ?names" using l m1(3) by auto
      ultimately show ?thesis unfolding devs by (auto simp: lookupLinkIndex_def)
    qed
    then have "filter (\<lambda>l. fst l \<notin> td_name ` set (th_devices ?h)) (filter P new) = []" by (auto simp: filter_empty_conv)
    ultimately show ?thesis using m2 m1(1) fm by simp
  qed
  moreover have "filter (\<lambda>x. x \<notin> set (th_fds ?h)) (mc_fds m2) = mc_fds m"
    using m1 m2 fm keeps by (auto simp: captureTunHold_def filter_id_conv filter_empty_conv)
  ultimately show ?thesis using m1(1) m2 by (simp add: release_def close_all)
qed

lemma abandon_restores:
  assumes fresh: "\<forall>n \<in> set (tunInboundNames (Some cfg)). lookupLinkIndex n m = None" and new: "co_new co cfg m = (r, m1)"
    and close: "m2 = m1 \<or> (\<exists>i e. r = Inr i \<and> co_close co i m1 = (e, m2))"
  shows "release k (Some (captureTunHold cfg (mc_fds m) m1)) m2 = ([], m)"
proof -
  obtain new fds where n: "m1 = m\<lparr>mc_links := mc_links m @ new, mc_fds := mc_fds m @ fds\<rparr>" "distinct (map fst new)"
    "fst ` set new \<subseteq> set (tunInboundNames (Some cfg))" "set fds \<inter> set (mc_fds m) = {}"
    and own: "\<forall>i. r = Inr i \<longrightarrow> made i \<subseteq> set (tunInboundNames (Some cfg)) \<and> opened i \<inter> set (mc_fds m) = {}"
    using new_creates [OF new] by blast
  have "\<exists>P Q. m2 = m1\<lparr>mc_links := filter P (mc_links m1), mc_fds := filter Q (mc_fds m1)\<rparr> \<and>
      (\<forall>l \<in> set (mc_links m). P l) \<and> (\<forall>x \<in> set (mc_fds m). Q x)"
    using close
  proof
    assume "m2 = m1"
    then show ?thesis by (intro exI [of _ "\<lambda>_. True"]) simp
  next
    assume "\<exists>i e. r = Inr i \<and> co_close co i m1 = (e, m2)"
    then obtain i e where i: "r = Inr i" "co_close co i m1 = (e, m2)" by blast
    obtain P Q where "m2 = m1\<lparr>mc_links := filter (\<lambda>l. fst l \<notin> made i \<or> P l) (mc_links m1), mc_fds := filter (\<lambda>x. x \<notin> opened i \<or> Q x) (mc_fds m1)\<rparr>"
      using close_takes [OF i(2)] by blast
    moreover have "fst l \<notin> made i" if "l \<in> set (mc_links m)" for l
    proof
      assume "fst l \<in> made i"
      then have "map_of (mc_links m) (fst l) = None" using own i(1) fresh by (auto simp: lookupLinkIndex_def)
      then show False using that by (simp only: map_of_eq_None_iff image_eqI not_True_eq_False)
    qed
    moreover have "x \<notin> opened i" if "x \<in> set (mc_fds m)" for x using own i(1) that by auto
    ultimately show ?thesis by blast
  qed
  then show ?thesis using release_restores [OF fresh n] by blast
qed

lemma abandoned:
  assumes "\<forall>n \<in> set (tunInboundNames (Some cfg)). lookupLinkIndex n m = None" and "co_new co cfg m = (r, m1)"
    and "m2 = m1 \<or> (\<exists>i e. r = Inr i \<and> co_close co i m1 = (e, m2))"
  shows "releaseAfterFailedStart k now (captureTunHold cfg (mc_fds m) m1) (e, m2) = Some (e, m)"
  using abandon_restores [OF assms] by (simp add: releaseAfterFailedStart_def join_errors_def)

lemma build_cases:
  assumes free: "names_free co json m"
  shows "(\<exists>err e'. buildAndStart co k now ctx json (e, m) = Some (Inl err, e', m)) \<or>
    (\<exists>i cfg m1. buildAndStart co k now ctx json (e, m) = Some (Inr (i, captureTunHold cfg (mc_fds m) m1), e\<lparr>eg_logs := Reset (eg_logs e)\<rparr>, m1) \<and>
      co_new co cfg m = (Inr i, m1) \<and> (\<forall>n \<in> set (tunInboundNames (Some cfg)). lookupLinkIndex n m = None))"
proof (cases "co_load co json")
  case (Inr c)
  show ?thesis
  proof (cases "forceLogToRing (co_marshal co) c")
    case cfg: (Inr cfg)
    have fresh: "\<forall>n \<in> set (tunInboundNames (Some cfg)). lookupLinkIndex n m = None"
      using free Inr cfg by (simp add: names_free_def list_all_iff)
    obtain r m1 where new: "co_new co cfg m = (r, m1)" by (cases "co_new co cfg m")
    note ab = abandoned [OF fresh new, where e = "e\<lparr>eg_logs := Reset (eg_logs e)\<rparr>"]
    show ?thesis
    proof (cases r)
      case (Inl err)
      then show ?thesis using ab [of m1] \<open>co_load co json = Inr c\<close> cfg new by (simp add: buildAndStart_def)
    next
      case i: (Inr i)
      obtain ce mc where close: "co_close co i m1 = (ce, mc)" by (cases "co_close co i m1")
      obtain se ms where start: "co_start co i m1 = (se, ms)" by (cases "co_start co i m1")
      have ms: "ms = m1" by (rule start_keeps [OF start])
      show ?thesis using ab [of mc] \<open>co_load co json = Inr c\<close> cfg new i close start ms fresh
        by (cases ctx; cases se) (auto simp: buildAndStart_def Let_def)
    qed
  qed (use Inr in \<open>simp add: buildAndStart_def\<close>)
qed (simp add: buildAndStart_def)

lemma failed_start_restores:
  assumes "names_free co json m" and "Start co k now ctx1 ctx2 json (e, m) = Some (Some err, e', m')"
  shows "m' = m"
  using assms(2) build_cases [OF assms(1), of now ctx2 "setState now PhaseStarting '''' e"]
  by (auto simp: Start_def Let_def split: if_splits)

lemma stop_restores:
  assumes free: "names_free co json m" and ph: "eg_phase e \<noteq> PhaseRunning"
    and start: "Start co k now ctx1 ctx2 json (e, m) = Some (None, e1, m1)" and stop: "Stop co k now' (e1, m1) = (err, e2, m2)"
  shows "m2 = m \<and> eg_phase e2 = PhaseStopped \<and> eg_inst e2 = None \<and> eg_tun e2 = None"
proof -
  have c: "ctx1 = None" using start ph by (cases ctx1) (auto simp: Start_def wrap_def)
  obtain i cfg where b: "e1 = setState now PhaseRunning '''' (setState now PhaseStarting '''' e\<lparr>eg_logs := Reset (eg_logs e), eg_inst := Some i, eg_tun := Some (captureTunHold cfg (mc_fds m) m1)\<rparr>)"
    "co_new co cfg m = (Inr i, m1)" "\<forall>n \<in> set (tunInboundNames (Some cfg)). lookupLinkIndex n m = None"
    using start ph c build_cases [OF free, of now ctx2 "setState now PhaseStarting '''' e"]
    by (auto simp: Start_def Let_def setState_def)
  obtain ce mc where close: "co_close co i m1 = (ce, mc)" by (cases "co_close co i m1")
  have "release k (Some (captureTunHold cfg (mc_fds m) m1)) mc = ([], m)"
    using abandon_restores [OF b(3,2)] close by blast
  then show ?thesis using stop close by (auto simp: Stop_def b(1) setState_def Let_def)
qed

end

section \<open>A kernel and a core that behave as documented\<close>

definition linux_kernel :: kernel where
  "linux_kernel = \<lparr>kn_delete = (\<lambda>n m. (None, without_link n m)), kn_close = (\<lambda>fd m. (None, without_fd fd m)), kn_tick = id, kn_polls = 400\<rparr>"

definition next_fd :: "int list \<Rightarrow> int" where
  "next_fd fds = fold max fds 2 + 1"

text \<open>Opening the tunnel device once per TUN inbound, in order, until a name is taken.\<close>

fun make_devices :: "string list \<Rightarrow> machine \<Rightarrow> string option \<times> machine" where
  "make_devices [] m = (None, m)"
| "make_devices (n # ns) m =
    (if lookupLinkIndex n m \<noteq> None then (Some ''device or resource busy'', m)
     else make_devices ns (m\<lparr>mc_links := mc_links m @ [(n, int (length (mc_links m)) + 1)], mc_fds := mc_fds m @ [next_fd (mc_fds m)]\<rparr>))"

definition xray_core :: "core_config \<Rightarrow> string list core" where
  "xray_core cfg = \<lparr>co_load = (\<lambda>json. if json = '''' then Inl ''EOF'' else Inr cfg), co_marshal = (\<lambda>_. None),
     co_new = (\<lambda>cfg m. case make_devices (tunInboundNames (Some cfg)) m of
        (Some e, m) \<Rightarrow> (Inl e, m) | (None, m) \<Rightarrow> (Inr (tunInboundNames (Some cfg)), m)),
     co_start = (\<lambda>i m. (None, m)), co_close = (\<lambda>i m. (None, m))\<rparr>"

lemma fold_max_ge: "a \<le> fold max xs a" for a :: int
proof (induction xs arbitrary: a)
  case (Cons x xs)
  show ?case using Cons.IH [of "max x a"] by simp
qed simp

lemma next_fd_fresh: "next_fd fds \<notin> set fds"
proof -
  have "x \<le> fold max fds a" if "x \<in> set fds" for x and a :: int
    using that
  proof (induction fds arbitrary: a)
    case (Cons y fds)
    then show ?case using fold_max_ge [of "max y a" fds] by auto
  qed simp
  from this [of "next_fd fds" 2] show ?thesis by (auto simp: next_fd_def)
qed

lemma make_devices_creates:
  "\<exists>new fds. snd (make_devices ns m) = m\<lparr>mc_links := mc_links m @ new, mc_fds := mc_fds m @ fds\<rparr> \<and> distinct (map fst new) \<and>
     fst ` set new \<subseteq> set ns \<and> fst ` set new \<inter> fst ` set (mc_links m) = {} \<and> set fds \<inter> set (mc_fds m) = {}"
proof (induction ns m rule: make_devices.induct)
  case (1 m)
  show ?case by (rule exI [of _ "[]"], rule exI [of _ "[]"]) simp
next
  case (2 n ns m)
  show ?case
  proof (cases "lookupLinkIndex n m = None")
    case True
    let ?m = "m\<lparr>mc_links := mc_links m @ [(n, int (length (mc_links m)) + 1)], mc_fds := mc_fds m @ [next_fd (mc_fds m)]\<rparr>"
    obtain new fds where "snd (make_devices ns ?m) = ?m\<lparr>mc_links := mc_links ?m @ new, mc_fds := mc_fds ?m @ fds\<rparr>" "distinct (map fst new)"
      "fst ` set new \<subseteq> set ns" "fst ` set new \<inter> fst ` set (mc_links ?m) = {}" "set fds \<inter> set (mc_fds ?m) = {}"
      using 2(1) True by auto
    moreover have "n \<notin> fst ` set (mc_links m)" using True by (simp add: lookupLinkIndex_def map_of_eq_None_iff)
    ultimately show ?thesis using True next_fd_fresh [of "mc_fds m"]
      by (intro exI [of _ "(n, int (length (mc_links m)) + 1) # new"] exI [of _ "next_fd (mc_fds m) # fds"]) auto
  next
    case False
    then show ?thesis by (intro exI [of _ "[]"]) auto
  qed
qed

interpretation linux: willing_kernel linux_kernel
  by unfold_locales (simp_all add: linux_kernel_def)

lemma xray_core_lawful: "core_laws linux_kernel (xray_core cfg) set (\<lambda>_. {})"
proof (unfold_locales, goal_cases)
  case (1 c m r m')
  then have m': "m' = snd (make_devices (tunInboundNames (Some c)) m)" "\<And>i. r = Inr i \<Longrightarrow> i = tunInboundNames (Some c)"
    by (auto simp: xray_core_def split: prod.splits option.splits)
  show ?case using make_devices_creates [of "tunInboundNames (Some c)" m] m' by blast
next
  case (3 i m e m')
  then show ?case by (intro exI [of _ "\<lambda>_. True"]) (simp add: xray_core_def)
qed (simp add: xray_core_def)

interpretation xray: core_laws linux_kernel "xray_core cfg" set "\<lambda>_. {}" for cfg
  by (rule xray_core_lawful)

section \<open>The state the panel sees\<close>

datatype engine_op = DoStart time "string option" "string option" string | DoStop time

fun engine_step :: "'i core \<Rightarrow> kernel \<Rightarrow> engine_op \<Rightarrow> 'i engine \<times> machine \<Rightarrow> ('i engine \<times> machine) go" where
  "engine_step co k (DoStart now ctx1 ctx2 json) s = map_option snd (Start co k now ctx1 ctx2 json s)"
| "engine_step co k (DoStop now) s = Some (snd (Stop co k now s))"

fun engine_run :: "'i core \<Rightarrow> kernel \<Rightarrow> engine_op list \<Rightarrow> 'i engine \<times> machine \<Rightarrow> ('i engine \<times> machine) go" where
  "engine_run co k [] s = Some s"
| "engine_run co k (x # xs) s = engine_step co k x s \<bind> engine_run co k xs"

definition logs_ok :: "log_ring option \<Rightarrow> bool" where
  "logs_ok r = (case r of None \<Rightarrow> True | Some r \<Rightarrow> ring_ok r)"

definition engine_ok :: "'i engine \<Rightarrow> bool" where
  "engine_ok e \<longleftrightarrow> (eg_phase e = PhaseRunning \<longleftrightarrow> eg_inst e \<noteq> None) \<and> (eg_inst e \<noteq> None \<longleftrightarrow> eg_tun e \<noteq> None) \<and>
     eg_phase e \<noteq> PhaseStarting \<and> (eg_phase e = PhaseFailed \<or> eg_reason e = '''') \<and> logs_ok (eg_logs e)"

lemma Add_ok: "logs_ok r \<Longrightarrow> \<exists>r'. Add now t r = Some r' \<and> logs_ok r'"
proof (cases r)
  case (Some a)
  assume "logs_ok r"
  then have "ring_ok a" using Some by (simp add: logs_ok_def)
  from ring_put_cases [OF this, of "\<lparr>le_at = now, le_text = Redact t\<rparr>"] show ?thesis using Some by (fastforce simp: Add_def logs_ok_def)
qed (simp add: Add_def logs_ok_def)

lemma Reset_ok: "logs_ok r \<Longrightarrow> logs_ok (Reset r)"
  by (cases r) (simp_all add: Reset_def ring_ok_reset logs_ok_def)

text \<open>What a failed attempt leaves of the engine: everything but the log as it was.\<close>

lemma releaseAfterFailedStart_ok:
  assumes "logs_ok (eg_logs e)"
  shows "\<exists>r m'. releaseAfterFailedStart k now hold (e, m) = Some (e\<lparr>eg_logs := r\<rparr>, m') \<and> logs_ok r"
proof -
  obtain es m' where rel: "release k (Some hold) m = (es, m')" by (cases "release k (Some hold) m")
  show ?thesis
  proof (cases "join_errors (map tun_error_text es)")
    case None
    then show ?thesis using rel assms by (intro exI [of _ "eg_logs e"] exI [of _ m']) (simp add: releaseAfterFailedStart_def)
  next
    case (Some t)
    then show ?thesis using rel Add_ok [OF assms, of now "released_note @ t"] by (auto simp: releaseAfterFailedStart_def)
  qed
qed

text \<open>An attempt returned, and of the engine it changed the log only.\<close>

definition attempt_ok :: "'i engine \<Rightarrow> ((string + ('i \<times> tun_hold)) \<times> 'i engine \<times> machine) go \<Rightarrow> bool" where
  "attempt_ok e y \<longleftrightarrow> (\<exists>x r m'. y = Some (x, e\<lparr>eg_logs := r\<rparr>, m') \<and> logs_ok r)"

lemma buildAndStart_ok:
  assumes "logs_ok (eg_logs e)"
  shows "attempt_ok e (buildAndStart co k now ctx json (e, m))"
proof -
  let ?e = "e\<lparr>eg_logs := Reset (eg_logs e)\<rparr>"
  have l: "logs_ok (eg_logs ?e)" using Reset_ok [OF assms] by simp
  then have s: "attempt_ok e (Some (x, ?e, m1))" for x m1 unfolding attempt_ok_def by auto
  have f: "attempt_ok e (map_option (\<lambda>s. (x, s)) (releaseAfterFailedStart k now hold (?e, m1)))" for x hold m1
    using releaseAfterFailedStart_ok [OF l, of k now hold m1] unfolding attempt_ok_def by auto
  show ?thesis unfolding buildAndStart_def Let_def prod.case
    by (simp only: s f split: sum.split option.split prod.split) simp
qed

lemma Start_ok:
  assumes e: "engine_ok e"
  shows "\<exists>err e' m'. Start co k now ctx1 ctx2 json (e, m) = Some (err, e', m') \<and> engine_ok e'"
proof (cases "eg_phase e = PhaseRunning \<or> ctx1 \<noteq> None")
  case True
  then show ?thesis using e by (auto simp: Start_def)
next
  case False
  let ?e = "setState now PhaseStarting '''' e"
  have "logs_ok (eg_logs ?e)" using e by (simp add: engine_ok_def setState_def)
  from buildAndStart_ok [OF this] obtain x r m' where b: "buildAndStart co k now ctx2 json (?e, m) = Some (x, ?e\<lparr>eg_logs := r\<rparr>, m')" "logs_ok r"
    unfolding attempt_ok_def by blast
  show ?thesis
  proof (cases x)
    case (Inl err)
    then show ?thesis using e False b by (auto simp: Start_def Let_def engine_ok_def setState_def)
  next
    case (Inr ih)
    then show ?thesis using e False b by (cases ih) (auto simp: Start_def engine_ok_def setState_def)
  qed
qed

lemma Stop_ok: "engine_ok e \<Longrightarrow> engine_ok (fst (snd (Stop co k now (e, m))))"
  by (auto simp: Stop_def engine_ok_def setState_def Let_def split: option.split prod.split)

lemma engine_run_ok: "engine_ok e \<Longrightarrow> \<exists>e' m'. engine_run co k ops (e, m) = Some (e', m') \<and> engine_ok e'"
proof (induction ops arbitrary: e m)
  case (Cons x ops)
  have "\<exists>e' m'. engine_step co k x (e, m) = Some (e', m') \<and> engine_ok e'"
  proof (cases x)
    case (DoStart now ctx1 ctx2 json)
    then show ?thesis using Start_ok [OF Cons.prems, of co k now ctx1 ctx2 json m] by auto
  next
    case (DoStop now)
    then show ?thesis using Stop_ok [OF Cons.prems, of co k now m] by (cases "Stop co k now (e, m)") auto
  qed
  then show ?case using Cons.IH by auto
qed simp

section \<open>The log of the engine\<close>

definition no_log :: "app list \<Rightarrow> bool" where
  "no_log apps \<longleftrightarrow> list_all (\<lambda>a. \<forall>lc. a \<noteq> LogApp lc) apps"

definition log_rewritten :: "app list \<Rightarrow> app list \<Rightarrow> bool" where
  "log_rewritten apps apps' \<longleftrightarrow> (\<exists>pre lc post. apps = pre @ LogApp lc # post \<and> apps' = pre @ LogApp (to_ring lc) # post \<and> no_log pre)"

lemma log_rewritten_Cons: "log_rewritten apps apps' \<Longrightarrow> no_log [a] \<Longrightarrow> log_rewritten (a # apps) (a # apps')"
proof -
  assume "log_rewritten apps apps'" and a: "no_log [a]"
  then obtain pre lc post where "apps = pre @ LogApp lc # post" "apps' = pre @ LogApp (to_ring lc) # post" "no_log pre"
    by (auto simp: log_rewritten_def)
  then show ?thesis using a unfolding log_rewritten_def
    by (intro exI [of _ "a # pre"] exI [of _ lc] exI [of _ post]) (simp add: no_log_def)
qed

lemma log_rewritten_here: "log_rewritten (LogApp lc # apps) (LogApp (to_ring lc) # apps)"
  unfolding log_rewritten_def no_log_def by (rule exI [of _ "[]"]) auto

lemma rewrite_log_result:
  "rewrite_log marshal apps = Inr r \<Longrightarrow> (case r of None \<Rightarrow> no_log apps | Some apps' \<Rightarrow> log_rewritten apps apps')"
proof (induction apps arbitrary: r)
  case Nil
  then show ?case by (auto simp: no_log_def)
next
  case (Cons a apps)
  show ?case
  proof (cases "\<exists>lc. a = LogApp lc")
    case True
    then show ?thesis using Cons.prems by (auto simp: log_rewritten_here split: option.splits)
  next
    case False
    then obtain r' where r': "rewrite_log marshal apps = Inr r'" "r = map_option ((#) a) r'"
      using Cons.prems by (cases a; cases "rewrite_log marshal apps") auto
    have a: "no_log [a]" using False by (simp add: no_log_def)
    show ?thesis using Cons.IH [OF r'(1)] r'(2) a by (cases r') (auto intro: log_rewritten_Cons simp: no_log_def)
  qed
qed

section \<open>Main results\<close>
section \<open>Main results\<close>

text \<open>C11. No list of the visited hosts is kept. In the configuration the engine is built with, the first log configuration,
  which xray-core uses, sends errors to the ring and accesses and name lookups nowhere, whatever the user's
  configuration asked for; the inbounds and the severity the user chose are as given.\<close>

theorem access_log_is_off:
  assumes "forceLogToRing marshal cfg = Inr cfg'"
  shows "\<exists>pre lc post. cc_app cfg' = pre @ LogApp lc # post \<and> no_log pre \<and>
    lc_access_type lc = LogNone \<and> lc_access_path lc = '''' \<and> \<not> lc_dns lc \<and> lc_error_type lc = LogConsole \<and> lc_error_path lc = '''' \<and>
    cc_inbound cfg' = cc_inbound cfg \<and> (cc_app cfg' = LogApp default_log # cc_app cfg \<or> (\<exists>own. cc_app cfg = pre @ LogApp own # post \<and> lc_error_level own = lc_error_level lc))"
proof (cases "rewrite_log marshal (cc_app cfg)")
  case (Inr r)
  show ?thesis
  proof (cases r)
    case None
    then show ?thesis using assms Inr
      by (intro exI [of _ "[]"] exI [of _ default_log] exI [of _ "cc_app cfg"])
        (auto simp: forceLogToRing_def default_log_def no_log_def split: option.splits)
  next
    case (Some apps)
    then obtain pre lc post where "cc_app cfg = pre @ LogApp lc # post" "apps = pre @ LogApp (to_ring lc) # post" "no_log pre"
      using rewrite_log_result [OF Inr] by (auto simp: log_rewritten_def)
    then show ?thesis using assms Inr Some
      by (intro exI [of _ pre] exI [of _ "to_ring lc"] exI [of _ post]) (auto simp: forceLogToRing_def to_ring_def)
  qed
qed (use assms in \<open>simp add: forceLogToRing_def\<close>)

theorem access_log_is_off_witness:
  "\<exists>cfg'. forceLogToRing (\<lambda>_. None) \<lparr>cc_app = [OtherApp ''dispatcher'', LogApp (default_log\<lparr>lc_access_type := LogFile, lc_access_path := ''/var/log/a'', lc_dns := True\<rparr>)],
      cc_inbound = []\<rparr> = Inr cfg' \<and> (\<exists>pre lc post. cc_app cfg' = pre @ LogApp lc # post \<and> lc_access_type lc = LogNone \<and> \<not> lc_dns lc)"
proof -
  let ?cfg = "\<lparr>cc_app = [OtherApp ''dispatcher'', LogApp (default_log\<lparr>lc_access_type := LogFile, lc_access_path := ''/var/log/a'', lc_dns := True\<rparr>)], cc_inbound = []\<rparr>"
  have "\<exists>cfg'. forceLogToRing (\<lambda>_. None) ?cfg = Inr cfg'" by (simp add: forceLogToRing_def)
  then obtain cfg' where c: "forceLogToRing (\<lambda>_. None) ?cfg = Inr cfg'" by blast
  from access_log_is_off [OF this] show ?thesis by (intro exI [of _ cfg'] conjI c) blast
qed


definition sample_config :: core_config where
  "sample_config = \<lparr>cc_app = [OtherApp ''dispatcher''], cc_inbound = [OtherSettings, TunSettings ''xray0'']\<rparr>"

definition sample_machine :: machine where
  "sample_machine = \<lparr>mc_links = [(''lo'', 1)], mc_fds = [5]\<rparr>"

lemma sample_start:
  "\<exists>e1 m1. Start (xray_core sample_config) linux_kernel 0 None None ''{}'' (New 0, sample_machine) = Some (None, e1, m1) \<and> m1 \<noteq> sample_machine"
  by (simp add: Start_def buildAndStart_def xray_core_def forceLogToRing_def sample_config_def sample_machine_def tunInboundNames_def lookupLinkIndex_def
      New_def NewWithLogCapacity_def setState_def Let_def)



text \<open>C31. The state the panel reads is that of the engine. After any sequence of starts and stops, with any xray-core and any
  kernel: every operation returned, the phase is running exactly when an instance and its hold exist, it is never left
  at starting, and a reason is given only for a failed start.\<close>

theorem engine_state_agrees:
  "\<exists>e m'. engine_run co k ops (NewWithLogCapacity now capacity, m) = Some (e, m') \<and>
    (eg_phase e = PhaseRunning) = (eg_inst e \<noteq> None) \<and> (eg_inst e \<noteq> None) = (eg_tun e \<noteq> None) \<and> eg_phase e \<noteq> PhaseStarting \<and>
    (eg_phase e = PhaseFailed \<or> eg_reason e = '''')"
proof -
  have "engine_ok (NewWithLogCapacity now capacity)"
    by (simp add: engine_ok_def NewWithLogCapacity_def logs_ok_def ring_ok_new)
  from engine_run_ok [OF this] obtain e m' where "engine_run co k ops (NewWithLogCapacity now capacity, m) = Some (e, m')" "engine_ok e"
    by blast
  then show ?thesis by (intro exI [of _ e] exI [of _ m']) (simp add: engine_ok_def)
qed

end
