(* ===== verification/Forwarder.thy ===== *)
theory Forwarder
  imports PacketProps Flow HelloProps
begin

text \<open>
  The loopback forwarder of the SNI prelude, \<open>src/internal/snispoof/forwarder.go\<close>, as a transition system: one program
  counter for the goroutine of \<open>accept\<close>, one for \<open>capture\<close>, one for the single run of \<open>shutdown\<close>, and one for every
  goroutine of \<open>handle\<close> (with \<open>connect\<close> inlined) and of \<open>inject\<close>. A step is what a goroutine does between two points where
  another one can observe it. The first argument of the step relations tells the steps the program and the local kernel
  take on their own from those that need a peer, a timer or the caller.
\<close>

section \<open>State\<close>

definition maxConnections :: nat where
  "maxConnections = 128"

record flow_key =
  fk_local :: addr_port
  fk_remote :: addr_port

text \<open>What the goroutines share: the context, the two maps, the flows by reference, and the tokens in the channel.\<close>

record shared =
  sh_cancelled :: bool
  sh_clients :: "nat list"
  sh_flows :: "(flow_key \<times> nat) list"
  sh_heap :: "flow list"
  sh_limit :: nat

text \<open>
  Where a handler is: before and inside \<open>dialOwned\<close>, in the select, behind it with a confirmed flow, in the deferred
  functions of \<open>connect\<close> (finishing the flow, then removing its entry, with the result they return), behind \<open>connect\<close>,
  inside \<open>forwardHello\<close>, relaying with the streams that have ended, and in its own deferred functions.
\<close>

datatype handler_pc = HStart | HDial flow_key | HWait flow_key | HConfirmed flow_key | HDefer "flow_key option" bool
  | HUnmap "flow_key option" bool | HServe | HHello | HRelay bool bool | HExit | HLeave | HGone

record handler =
  hd_client :: nat
  hd_open :: bool
  hd_server :: bool
  hd_flow :: "nat option"
  hd_pc :: handler_pc

datatype accept_pc = AcceptWait | AcceptGot nat | AcceptHold nat | AcceptShut | AcceptDone

datatype capture_pc = CaptureOff | CaptureWait | CaptureFound frame packet bool nat | CaptureShut | CaptureDone

datatype inject_pc = InjectWait frame packet nat | InjectLock frame packet nat

datatype shutdown_pc = ShutIdle | ShutCancelled | ShutListener | ShutPackets | ShutDone

record forwarder =
  fw_shared :: shared
  fw_shutdown :: shutdown_pc
  fw_accept :: accept_pc
  fw_capture :: capture_pc
  fw_handlers :: "handler list"
  fw_injects :: "inject_pc list"
  fw_wg :: nat

text \<open>What does not change: the server, the name and the options; the conversion of names and the random bytes.\<close>

record fwd_setup =
  su_remote :: addr_port
  su_name :: string
  su_options :: split_options
  su_ascii :: to_ascii

section \<open>Starting\<close>

definition startWithOptions :: "bool \<Rightarrow> bool \<Rightarrow> spoof_error + forwarder" where
  "startWithOptions listens packets =
    (if \<not> listens then Inl ErrUnavailable
     else Inr \<lparr>fw_shared = \<lparr>sh_cancelled = False, sh_clients = [], sh_flows = [], sh_heap = [], sh_limit = 0\<rparr>, fw_shutdown = ShutIdle,
       fw_accept = AcceptWait, fw_capture = (if packets then CaptureWait else CaptureOff), fw_handlers = [], fw_injects = [],
       fw_wg = (if packets then 2 else 1)\<rparr>)"

text \<open>
  \<open>StartWithOptions\<close>; whether choosing a source address, opening the packet capture (with its error) and listening
  succeed are arguments. The result carries what the forwarder was set up with.
\<close>

definition StartWithOptions ::
  "to_ascii \<Rightarrow> addr_port \<Rightarrow> split_options \<Rightarrow> bool \<Rightarrow> spoof_error option \<Rightarrow> bool \<Rightarrow> spoof_error + (fwd_setup \<times> forwarder)" where
  "StartWithOptions toASCII remote options dials opens listens = (case NormalizeName toASCII (FakeSNI options) of
     Inl _ \<Rightarrow> Inl ErrName
   | Inr name \<Rightarrow>
       if \<not> Is4 (ap_addr remote) \<or> ap_port remote = 0 then Inl ErrUnsupported
       else if \<not> dials then Inl ErrUnavailable
       else case (if name \<noteq> '''' then opens else None) of
         Some e \<Rightarrow> Inl e
       | None \<Rightarrow> map_sum id (Pair \<lparr>su_remote = remote, su_name = name, su_options = options\<lparr>FakeSNI := name\<rparr>, su_ascii = toASCII\<rparr>)
           (startWithOptions listens (name \<noteq> '''')))"

definition Start_named ::
  "to_ascii \<Rightarrow> addr_port \<Rightarrow> string \<Rightarrow> bool \<Rightarrow> spoof_error option \<Rightarrow> bool \<Rightarrow> spoof_error + (fwd_setup \<times> forwarder)" where
  "Start_named toASCII remote name dials opens listens = (case NormalizeName toASCII name of
     Inl _ \<Rightarrow> Inl ErrName
   | Inr n \<Rightarrow> if n = '''' then Inl ErrName
       else StartWithOptions toASCII remote \<lparr>FakeSNI = name, TCPSplit = False, TLSRecordSplit = False\<rparr> dials opens listens)"

definition SupportsTransport :: "string \<Rightarrow> string \<Rightarrow> bool" where
  "SupportsTransport protocol network \<longleftrightarrow> protocol \<in> {''vless'', ''vmess'', ''trojan''} \<and>
     network \<in> {'''', ''tcp'', ''raw'', ''ws'', ''websocket'', ''httpupgrade'', ''grpc''}"

section \<open>One handler\<close>

definition unmap :: "flow_key option \<Rightarrow> shared \<Rightarrow> shared" where
  "unmap k sh = (case k of None \<Rightarrow> sh | Some k \<Rightarrow> sh\<lparr>sh_flows := filter (\<lambda>e. fst e \<noteq> k) (sh_flows sh)\<rparr>)"

definition alloc :: "bytes \<Rightarrow> shared \<Rightarrow> shared" where
  "alloc hello sh = sh\<lparr>sh_heap := sh_heap sh @ [new_flow hello]\<rparr>"

definition register :: "flow_key \<Rightarrow> nat \<Rightarrow> shared \<Rightarrow> shared" where
  "register k i sh = sh\<lparr>sh_flows := (k, i) # filter (\<lambda>e. fst e \<noteq> k) (sh_flows sh)\<rparr>"

text \<open>The points at which the context, when it is cancelled, closes the server connection.\<close>

definition watched :: "handler_pc \<Rightarrow> bool" where
  "watched pc = (case pc of HWait _ \<Rightarrow> True | HHello \<Rightarrow> True | HRelay _ _ \<Rightarrow> True | _ \<Rightarrow> False)"

definition splits :: "fwd_setup \<Rightarrow> bool" where
  "splits su \<longleftrightarrow> TCPSplit (su_options su) \<or> TLSRecordSplit (su_options su)"

inductive handler_step :: "bool \<Rightarrow> fwd_setup \<Rightarrow> shared \<Rightarrow> handler \<Rightarrow> shared \<Rightarrow> handler \<Rightarrow> bool" for own su sh h where
  plain_dialled: "hd_pc h = HStart \<Longrightarrow> su_name su = '''' \<Longrightarrow> \<not> own \<Longrightarrow>
    handler_step own su sh h sh (h\<lparr>hd_server := True, hd_pc := HServe\<rparr>)"
| plain_failed: "hd_pc h = HStart \<Longrightarrow> su_name su = '''' \<Longrightarrow> own \<longrightarrow> sh_cancelled sh \<Longrightarrow>
    handler_step own su sh h sh (h\<lparr>hd_pc := HExit\<rparr>)"
| hello_failed: "hd_pc h = HStart \<Longrightarrow> su_name su \<noteq> '''' \<Longrightarrow> clientHello (su_ascii su) rand (su_name su) = Some (Inl e) \<Longrightarrow>
    handler_step own su sh h sh (h\<lparr>hd_pc := HExit\<rparr>)"
| reserve_failed: "hd_pc h = HStart \<Longrightarrow> su_name su \<noteq> '''' \<Longrightarrow> clientHello (su_ascii su) rand (su_name su) = Some (Inr hello) \<Longrightarrow>
    handler_step own su sh h (alloc hello sh) (h\<lparr>hd_flow := Some (length (sh_heap sh)), hd_pc := HDefer None False\<rparr>)"
| register_refused: "hd_pc h = HStart \<Longrightarrow> su_name su \<noteq> '''' \<Longrightarrow> clientHello (su_ascii su) rand (su_name su) = Some (Inr hello) \<Longrightarrow>
    sh_cancelled sh \<Longrightarrow> fk_remote k = su_remote su \<Longrightarrow>
    handler_step own su sh h (alloc hello sh) (h\<lparr>hd_flow := Some (length (sh_heap sh)), hd_pc := HDefer (Some k) False\<rparr>)"
| registered: "hd_pc h = HStart \<Longrightarrow> su_name su \<noteq> '''' \<Longrightarrow> clientHello (su_ascii su) rand (su_name su) = Some (Inr hello) \<Longrightarrow>
    \<not> sh_cancelled sh \<Longrightarrow> fk_remote k = su_remote su \<Longrightarrow>
    handler_step own su sh h (register k (length (sh_heap sh)) (alloc hello sh)) (h\<lparr>hd_flow := Some (length (sh_heap sh)), hd_pc := HDial k\<rparr>)"
| dialled: "hd_pc h = HDial k \<Longrightarrow> \<not> own \<Longrightarrow> handler_step own su sh h sh (h\<lparr>hd_server := True, hd_pc := HWait k\<rparr>)"
| dial_failed: "hd_pc h = HDial k \<Longrightarrow> own \<longrightarrow> sh_cancelled sh \<Longrightarrow> handler_step own su sh h sh (h\<lparr>hd_pc := HDefer (Some k) False\<rparr>)"
| confirmed: "hd_pc h = HWait k \<Longrightarrow> hd_flow h = Some i \<Longrightarrow> fl_done (sh_heap sh ! i) \<Longrightarrow> fl_err (sh_heap sh ! i) = None \<Longrightarrow>
    handler_step own su sh h sh (h\<lparr>hd_pc := HConfirmed k\<rparr>)"
| refuted: "hd_pc h = HWait k \<Longrightarrow> hd_flow h = Some i \<Longrightarrow> fl_done (sh_heap sh ! i) \<Longrightarrow> fl_err (sh_heap sh ! i) \<noteq> None \<Longrightarrow>
    handler_step own su sh h sh (h\<lparr>hd_server := False, hd_pc := HDefer (Some k) False\<rparr>)"
| gave_up: "hd_pc h = HWait k \<Longrightarrow> own \<longrightarrow> sh_cancelled sh \<Longrightarrow>
    handler_step own su sh h sh (h\<lparr>hd_server := False, hd_pc := HDefer (Some k) False\<rparr>)"
| forgotten: "hd_pc h = HConfirmed k \<Longrightarrow> handler_step own su sh h (unmap (Some k) sh) (h\<lparr>hd_pc := HDefer (Some k) True\<rparr>)"
| finished: "hd_pc h = HDefer k ok \<Longrightarrow> hd_flow h = Some i \<Longrightarrow> finish (sh_heap sh ! i) (Some ErrConfirmation) = Some f \<Longrightarrow>
    handler_step own su sh h (sh\<lparr>sh_heap := (sh_heap sh)[i := f]\<rparr>) (h\<lparr>hd_pc := HUnmap k ok\<rparr>)"
| unmapped: "hd_pc h = HUnmap k ok \<Longrightarrow> handler_step own su sh h (unmap k sh) (h\<lparr>hd_pc := (if ok then HServe else HExit)\<rparr>)"
| context_closes: "watched (hd_pc h) \<Longrightarrow> hd_server h \<Longrightarrow> sh_cancelled sh \<Longrightarrow> handler_step own su sh h sh (h\<lparr>hd_server := False\<rparr>)"
| serve: "hd_pc h = HServe \<Longrightarrow> handler_step own su sh h sh (h\<lparr>hd_pc := (if splits su then HHello else HRelay False False)\<rparr>)"
| hello_forwarded: "hd_pc h = HHello \<Longrightarrow> \<not> own \<Longrightarrow> handler_step own su sh h sh (h\<lparr>hd_pc := HRelay False False\<rparr>)"
| hello_refused: "hd_pc h = HHello \<Longrightarrow> own \<longrightarrow> \<not> hd_open h \<and> \<not> hd_server h \<Longrightarrow> handler_step own su sh h sh (h\<lparr>hd_pc := HExit\<rparr>)"
| upload_ended: "hd_pc h = HRelay False b \<Longrightarrow> \<not> own \<Longrightarrow> handler_step own su sh h sh (h\<lparr>hd_pc := HRelay True b\<rparr>)"
| upload_failed: "hd_pc h = HRelay False b \<Longrightarrow> own \<longrightarrow> \<not> hd_open h \<and> \<not> hd_server h \<Longrightarrow>
    handler_step own su sh h sh (h\<lparr>hd_open := False, hd_server := False, hd_pc := HRelay True b\<rparr>)"
| download_ended: "hd_pc h = HRelay a False \<Longrightarrow> \<not> own \<Longrightarrow> handler_step own su sh h sh (h\<lparr>hd_pc := HRelay a True\<rparr>)"
| download_failed: "hd_pc h = HRelay a False \<Longrightarrow> own \<longrightarrow> \<not> hd_open h \<and> \<not> hd_server h \<Longrightarrow>
    handler_step own su sh h sh (h\<lparr>hd_open := False, hd_server := False, hd_pc := HRelay a True\<rparr>)"
| relayed: "hd_pc h = HRelay True True \<Longrightarrow> handler_step own su sh h sh (h\<lparr>hd_pc := HExit\<rparr>)"
| unlisted: "hd_pc h = HExit \<Longrightarrow>
    handler_step own su sh h (sh\<lparr>sh_clients := filter (\<lambda>c. c \<noteq> hd_client h) (sh_clients sh)\<rparr>) (h\<lparr>hd_open := False, hd_server := False, hd_pc := HLeave\<rparr>)"
| slot_freed: "hd_pc h = HLeave \<Longrightarrow> 0 < sh_limit sh \<Longrightarrow>
    handler_step own su sh h (sh\<lparr>sh_limit := sh_limit sh - 1\<rparr>) (h\<lparr>hd_pc := HGone\<rparr>)"

section \<open>The forwarder\<close>

definition close_clients :: "nat list \<Rightarrow> handler list \<Rightarrow> handler list" where
  "close_clients cs hs = map (\<lambda>h. if hd_client h \<in> set cs then h\<lparr>hd_open := False\<rparr> else h) hs"

definition new_handler :: "nat \<Rightarrow> handler" where
  "new_handler c = \<lparr>hd_client = c, hd_open = True, hd_server = False, hd_flow = None, hd_pc = HStart\<rparr>"

definition packet_key :: "fwd_setup \<Rightarrow> packet \<Rightarrow> flow_key" where
  "packet_key su p = (if pk_dst p = su_remote su then \<lparr>fk_local = pk_src p, fk_remote = pk_dst p\<rparr> else \<lparr>fk_local = pk_dst p, fk_remote = pk_src p\<rparr>)"

definition listener_open :: "forwarder \<Rightarrow> bool" where
  "listener_open s \<longleftrightarrow> fw_shutdown s \<in> {ShutIdle, ShutCancelled}"

definition packets_open :: "forwarder \<Rightarrow> bool" where
  "packets_open s \<longleftrightarrow> fw_shutdown s \<in> {ShutIdle, ShutCancelled, ShutListener}"

definition with_shared :: "(shared \<Rightarrow> shared) \<Rightarrow> forwarder \<Rightarrow> forwarder" where
  "with_shared g s = s\<lparr>fw_shared := g (fw_shared s)\<rparr>"

inductive forwarder_step :: "bool \<Rightarrow> fwd_setup \<Rightarrow> forwarder \<Rightarrow> forwarder \<Rightarrow> bool" for own su s where
  cancel: "fw_shutdown s = ShutIdle \<Longrightarrow> own \<longrightarrow> fw_accept s = AcceptShut \<or> fw_capture s = CaptureShut \<Longrightarrow>
    forwarder_step own su s (with_shared (\<lambda>sh. sh\<lparr>sh_cancelled := True\<rparr>) (s\<lparr>fw_shutdown := ShutCancelled\<rparr>))"
| close_listener: "fw_shutdown s = ShutCancelled \<Longrightarrow> forwarder_step own su s (s\<lparr>fw_shutdown := ShutListener\<rparr>)"
| close_packets: "fw_shutdown s = ShutListener \<Longrightarrow> forwarder_step own su s (s\<lparr>fw_shutdown := ShutPackets\<rparr>)"
| close_all_clients: "fw_shutdown s = ShutPackets \<Longrightarrow>
    forwarder_step own su s (s\<lparr>fw_shutdown := ShutDone, fw_handlers := close_clients (sh_clients (fw_shared s)) (fw_handlers s)\<rparr>)"
| accepted: "fw_accept s = AcceptWait \<Longrightarrow> \<not> own \<Longrightarrow> listener_open s \<Longrightarrow> c \<notin> hd_client ` set (fw_handlers s) \<Longrightarrow>
    forwarder_step own su s (s\<lparr>fw_accept := AcceptGot c\<rparr>)"
| accept_failed: "fw_accept s = AcceptWait \<Longrightarrow> own \<longrightarrow> \<not> listener_open s \<Longrightarrow> forwarder_step own su s (s\<lparr>fw_accept := AcceptShut\<rparr>)"
| slot_taken: "fw_accept s = AcceptGot c \<Longrightarrow> sh_limit (fw_shared s) < maxConnections \<Longrightarrow>
    forwarder_step own su s (with_shared (\<lambda>sh. sh\<lparr>sh_limit := sh_limit sh + 1\<rparr>) (s\<lparr>fw_accept := AcceptHold c\<rparr>))"
| turned_away: "fw_accept s = AcceptGot c \<Longrightarrow> \<not> sh_limit (fw_shared s) < maxConnections \<Longrightarrow> forwarder_step own su s (s\<lparr>fw_accept := AcceptWait\<rparr>)"
| too_late: "fw_accept s = AcceptHold c \<Longrightarrow> sh_cancelled (fw_shared s) \<Longrightarrow> 0 < sh_limit (fw_shared s) \<Longrightarrow>
    forwarder_step own su s (with_shared (\<lambda>sh. sh\<lparr>sh_limit := sh_limit sh - 1\<rparr>) (s\<lparr>fw_accept := AcceptDone, fw_wg := fw_wg s - 1\<rparr>))"
| spawned: "fw_accept s = AcceptHold c \<Longrightarrow> \<not> sh_cancelled (fw_shared s) \<Longrightarrow>
    forwarder_step own su s (with_shared (\<lambda>sh. sh\<lparr>sh_clients := c # sh_clients sh\<rparr>)
      (s\<lparr>fw_accept := AcceptWait, fw_handlers := fw_handlers s @ [new_handler c], fw_wg := fw_wg s + 1\<rparr>))"
| accept_done: "fw_accept s = AcceptShut \<Longrightarrow> fw_shutdown s = ShutDone \<Longrightarrow> forwarder_step own su s (s\<lparr>fw_accept := AcceptDone, fw_wg := fw_wg s - 1\<rparr>)"
| received: "fw_capture s = CaptureWait \<Longrightarrow> \<not> own \<Longrightarrow> packets_open s \<Longrightarrow> parsePacket (fr_ip fr) = Some (Some p) \<Longrightarrow>
    map_of (sh_flows (fw_shared s)) (packet_key su p) = Some i \<Longrightarrow>
    forwarder_step own su s (s\<lparr>fw_capture := CaptureFound fr p (pk_dst p = su_remote su) i\<rparr>)"
| capture_failed: "fw_capture s = CaptureWait \<Longrightarrow> own \<longrightarrow> \<not> packets_open s \<Longrightarrow> forwarder_step own su s (s\<lparr>fw_capture := CaptureShut\<rparr>)"
| observed: "fw_capture s = CaptureFound fr p outbound i \<Longrightarrow> observe (sh_heap (fw_shared s) ! i) p outbound = Some (f, asked) \<Longrightarrow>
    forwarder_step own su s (with_shared (\<lambda>sh. sh\<lparr>sh_heap := (sh_heap sh)[i := f]\<rparr>)
      (s\<lparr>fw_capture := CaptureWait, fw_injects := fw_injects s @ (if asked then [InjectWait fr p i] else []), fw_wg := (if asked then fw_wg s + 1 else fw_wg s)\<rparr>))"
| capture_done: "fw_capture s = CaptureShut \<Longrightarrow> fw_shutdown s = ShutDone \<Longrightarrow> forwarder_step own su s (s\<lparr>fw_capture := CaptureDone, fw_wg := fw_wg s - 1\<rparr>)"
| inject_due: "fw_injects s = xs @ InjectWait fr p i # ys \<Longrightarrow> \<not> own \<Longrightarrow> forwarder_step own su s (s\<lparr>fw_injects := xs @ InjectLock fr p i # ys\<rparr>)"
| inject_cancelled: "fw_injects s = xs @ InjectWait fr p i # ys \<Longrightarrow> sh_cancelled (fw_shared s) \<Longrightarrow>
    forwarder_step own su s (s\<lparr>fw_injects := xs @ ys, fw_wg := fw_wg s - 1\<rparr>)"
| inject_late: "fw_injects s = xs @ InjectLock fr p i # ys \<Longrightarrow> fl_finished (sh_heap (fw_shared s) ! i) \<or> sh_cancelled (fw_shared s) \<Longrightarrow>
    forwarder_step own su s (s\<lparr>fw_injects := xs @ ys, fw_wg := fw_wg s - 1\<rparr>)"
| injected: "fw_injects s = xs @ InjectLock fr p i # ys \<Longrightarrow> \<not> fl_finished (sh_heap (fw_shared s) ! i) \<Longrightarrow> \<not> sh_cancelled (fw_shared s) \<Longrightarrow>
    fakeFrame fr p (fl_isn (sh_heap (fw_shared s) ! i)) (fl_hello (sh_heap (fw_shared s) ! i)) = Some out \<Longrightarrow>
    record_send (sh_heap (fw_shared s) ! i) ok = Some f \<Longrightarrow>
    forwarder_step own su s (with_shared (\<lambda>sh. sh\<lparr>sh_heap := (sh_heap sh)[i := f]\<rparr>) (s\<lparr>fw_injects := xs @ ys, fw_wg := fw_wg s - 1\<rparr>))"
| handled: "fw_handlers s = xs @ h # ys \<Longrightarrow> handler_step own su (fw_shared s) h sh' h' \<Longrightarrow>
    forwarder_step own su s (s\<lparr>fw_shared := sh', fw_handlers := xs @ h' # ys\<rparr>)"
| left: "fw_handlers s = xs @ h # ys \<Longrightarrow> hd_pc h = HGone \<Longrightarrow> forwarder_step own su s (s\<lparr>fw_handlers := xs @ ys, fw_wg := fw_wg s - 1\<rparr>)"

inductive reaches :: "fwd_setup \<Rightarrow> forwarder \<Rightarrow> forwarder \<Rightarrow> bool" for su s where
  reaches_refl: "reaches su s s"
| reaches_step: "reaches su s t \<Longrightarrow> forwarder_step own su t u \<Longrightarrow> reaches su s u"

end
