(* ===== verification/ForwarderProps.thy ===== *)
theory ForwarderProps
  imports Forwarder
begin

text \<open>
  The forwarder of the SNI prelude keeps its accounts (wait group, slots, both maps), relays nothing before the flow of
  a connection is confirmed, and drains after a shutdown.
\<close>

section \<open>Flows only grow\<close>

definition heap_le :: "flow list \<Rightarrow> flow list \<Rightarrow> bool" where
  "heap_le hp hp' \<longleftrightarrow> length hp \<le> length hp' \<and> (\<forall>i < length hp. fl_finished (hp ! i) \<longrightarrow> hp' ! i = hp ! i)"

lemma heap_le_refl [simp]: "heap_le hp hp"
  by (simp add: heap_le_def)

lemma heap_le_append [simp]: "heap_le hp (hp @ xs)"
  by (simp add: heap_le_def nth_append)

lemma heap_le_update: "fl_finished (hp ! i) \<longrightarrow> f = hp ! i \<Longrightarrow> heap_le hp (hp[i := f])"
  unfolding heap_le_def by (metis length_list_update nth_list_update_eq nth_list_update_neq order_refl)

lemma finish_finished: "finish f e = Some f' \<Longrightarrow> fl_finished f \<longrightarrow> f' = f"
  by (auto simp: finish_def split: if_splits)

lemma observe_finished: "observe f p outbound = Some (f', asked) \<Longrightarrow> fl_finished f \<longrightarrow> f' = f"
  by (auto simp: observe_def)

section \<open>What holds of one handler\<close>

fun pc_key :: "handler_pc \<Rightarrow> flow_key option" where
  "pc_key (HDial k) = Some k"
| "pc_key (HWait k) = Some k"
| "pc_key (HConfirmed k) = Some k"
| "pc_key (HDefer k ok) = k"
| "pc_key (HUnmap k ok) = k"
| "pc_key _ = None"

fun connecting :: "handler_pc \<Rightarrow> bool" where
  "connecting (HDial k) = True"
| "connecting (HWait k) = True"
| "connecting (HConfirmed k) = True"
| "connecting (HDefer k ok) = True"
| "connecting (HUnmap k ok) = True"
| "connecting _ = False"

fun granted :: "handler_pc \<Rightarrow> bool" where
  "granted (HConfirmed k) = True"
| "granted (HDefer k ok) = ok"
| "granted (HUnmap k ok) = ok"
| "granted HServe = True"
| "granted HHello = True"
| "granted (HRelay a b) = True"
| "granted _ = False"

definition listed :: "handler \<Rightarrow> bool" where
  "listed h \<longleftrightarrow> hd_pc h \<noteq> HLeave \<and> hd_pc h \<noteq> HGone"

definition handler_ok :: "fwd_setup \<Rightarrow> flow list \<Rightarrow> handler \<Rightarrow> bool" where
  "handler_ok su hp h \<longleftrightarrow> (\<forall>i. hd_flow h = Some i \<longrightarrow> i < length hp) \<and> (connecting (hd_pc h) \<longrightarrow> hd_flow h \<noteq> None) \<and>
    (granted (hd_pc h) \<and> su_name su \<noteq> '''' \<longrightarrow> (\<exists>i. hd_flow h = Some i \<and> fl_finished (hp ! i) \<and> fl_err (hp ! i) = None)) \<and>
    (\<not> listed h \<longrightarrow> \<not> hd_open h) \<and> (su_name su = '''' \<longrightarrow> \<not> connecting (hd_pc h))"

lemma handler_ok_mono: "handler_ok su hp h \<Longrightarrow> heap_le hp hp' \<Longrightarrow> handler_ok su hp' h"
  unfolding handler_ok_def heap_le_def by (metis (no_types, lifting) order_less_le_trans)

lemma handler_ok_closed: "handler_ok su hp h \<Longrightarrow> handler_ok su hp (h\<lparr>hd_open := False\<rparr>)"
  by (simp add: handler_ok_def listed_def)

lemma handler_ok_new: "handler_ok su hp (new_handler c)"
  by (simp add: handler_ok_def new_handler_def listed_def)

lemma unmap_simps [simp]:
  "sh_heap (unmap k sh) = sh_heap sh" "sh_cancelled (unmap k sh) = sh_cancelled sh" "sh_limit (unmap k sh) = sh_limit sh"
  "sh_clients (unmap k sh) = sh_clients sh"
  by (simp_all add: unmap_def split: option.split)

lemma alloc_simps [simp]:
  "sh_heap (alloc b sh) = sh_heap sh @ [new_flow b]" "sh_cancelled (alloc b sh) = sh_cancelled sh" "sh_limit (alloc b sh) = sh_limit sh"
  "sh_clients (alloc b sh) = sh_clients sh" "sh_flows (alloc b sh) = sh_flows sh"
  by (simp_all add: alloc_def)

lemma register_simps [simp]:
  "sh_heap (register k i sh) = sh_heap sh" "sh_cancelled (register k i sh) = sh_cancelled sh" "sh_limit (register k i sh) = sh_limit sh"
  "sh_clients (register k i sh) = sh_clients sh"
  by (simp_all add: register_def)

lemma handler_step_heap:
  assumes "handler_step own su sh h sh' h'"
  shows "heap_le (sh_heap sh) (sh_heap sh')"
  using assms by cases (auto intro!: heap_le_update dest: finish_finished)

text \<open>The parts of the shared state a handler leaves alone, and how it accounts for its slot and its client.\<close>

lemma handler_step_frame:
  assumes "handler_step own su sh h sh' h'"
  shows "hd_client h' = hd_client h \<and> sh_cancelled sh' = sh_cancelled sh \<and> (hd_open h' \<longrightarrow> hd_open h) \<and> hd_pc h \<noteq> HGone \<and>
    sh_limit sh' + (if hd_pc h' = HGone then 1 else 0) = sh_limit sh \<and>
    sh_clients sh' = (if listed h \<and> \<not> listed h' then filter (\<lambda>c. c \<noteq> hd_client h) (sh_clients sh) else sh_clients sh) \<and> (listed h' \<longrightarrow> listed h)"
  using assms by cases (auto simp: listed_def watched_def)

lemma handler_step_ok:
  assumes "handler_step own su sh h sh' h'" and "handler_ok su (sh_heap sh) h"
    and "\<And>i. i < length (sh_heap sh) \<Longrightarrow> fl_done (sh_heap sh ! i) \<longleftrightarrow> fl_finished (sh_heap sh ! i)"
  shows "handler_ok su (sh_heap sh') h'"
  using assms(1)
proof cases
  case (finished k ok i f)
  then show ?thesis using assms(2) finish_finished [OF finished(5)]
    by (cases ok) (auto simp: handler_ok_def listed_def)
next
  case (context_closes)
  then show ?thesis using assms(2) by (simp add: handler_ok_def listed_def)
qed (use assms(2,3) in \<open>auto simp: handler_ok_def listed_def\<close>)

section \<open>The invariant of the forwarder\<close>

fun inject_flow :: "inject_pc \<Rightarrow> nat" where
  "inject_flow (InjectWait fr p i) = i"
| "inject_flow (InjectLock fr p i) = i"

fun inject_packet :: "inject_pc \<Rightarrow> frame \<times> packet" where
  "inject_packet (InjectWait fr p i) = (fr, p)"
| "inject_packet (InjectLock fr p i) = (fr, p)"

definition pending :: "nat \<Rightarrow> inject_pc list \<Rightarrow> nat" where
  "pending i js = length (filter (\<lambda>j. inject_flow j = i) js)"

definition count_inv :: "forwarder \<Rightarrow> bool" where
  "count_inv s \<longleftrightarrow> fw_wg s = (if fw_accept s = AcceptDone then 0 else 1) + (if fw_capture s \<in> {CaptureOff, CaptureDone} then 0 else 1) +
     length (fw_handlers s) + length (fw_injects s)"

definition slot_inv :: "forwarder \<Rightarrow> bool" where
  "slot_inv s \<longleftrightarrow> sh_limit (fw_shared s) = length (filter (\<lambda>h. hd_pc h \<noteq> HGone) (fw_handlers s)) + (case fw_accept s of AcceptHold _ \<Rightarrow> 1 | _ \<Rightarrow> 0) \<and>
     sh_limit (fw_shared s) \<le> maxConnections"

definition client_inv :: "forwarder \<Rightarrow> bool" where
  "client_inv s \<longleftrightarrow> distinct (map hd_client (fw_handlers s)) \<and> set (sh_clients (fw_shared s)) = set (map hd_client (filter listed (fw_handlers s))) \<and>
     (\<forall>c. fw_accept s = AcceptGot c \<or> fw_accept s = AcceptHold c \<longrightarrow> c \<notin> hd_client ` set (fw_handlers s))"

definition map_inv :: "forwarder \<Rightarrow> bool" where
  "map_inv s \<longleftrightarrow> (\<forall>(k, i) \<in> set (sh_flows (fw_shared s)). i < length (sh_heap (fw_shared s)) \<and>
     (\<exists>h \<in> set (fw_handlers s). hd_flow h = Some i \<and> pc_key (hd_pc h) = Some k))"

definition run_inv :: "forwarder \<Rightarrow> bool" where
  "run_inv s \<longleftrightarrow> (\<forall>i < length (sh_heap (fw_shared s)). \<exists>hello evs. flow_run hello evs (sh_heap (fw_shared s) ! i) (pending i (fw_injects s))) \<and>
     (\<forall>j \<in> set (fw_injects s). inject_flow j < length (sh_heap (fw_shared s)) \<and> (case inject_packet j of (fr, p) \<Rightarrow> packet_fits (fr_ip fr) p)) \<and>
     (\<forall>fr p out i. fw_capture s = CaptureFound fr p out i \<longrightarrow> i < length (sh_heap (fw_shared s)) \<and> packet_fits (fr_ip fr) p)"

definition shut_inv :: "forwarder \<Rightarrow> bool" where
  "shut_inv s \<longleftrightarrow> (sh_cancelled (fw_shared s) \<longleftrightarrow> fw_shutdown s \<noteq> ShutIdle) \<and> (fw_shutdown s = ShutDone \<longrightarrow> (\<forall>h \<in> set (fw_handlers s). \<not> hd_open h))"

definition forwarder_inv :: "fwd_setup \<Rightarrow> forwarder \<Rightarrow> bool" where
  "forwarder_inv su s \<longleftrightarrow> count_inv s \<and> slot_inv s \<and> client_inv s \<and> map_inv s \<and> run_inv s \<and> shut_inv s \<and>
     (\<forall>h \<in> set (fw_handlers s). handler_ok su (sh_heap (fw_shared s)) h)"

lemma with_shared_simps [simp]:
  "fw_shared (with_shared g s) = g (fw_shared s)" "fw_shutdown (with_shared g s) = fw_shutdown s" "fw_accept (with_shared g s) = fw_accept s"
  "fw_capture (with_shared g s) = fw_capture s" "fw_handlers (with_shared g s) = fw_handlers s" "fw_injects (with_shared g s) = fw_injects s"
  "fw_wg (with_shared g s) = fw_wg s"
  by (simp_all add: with_shared_def)

lemma close_clients_simps [simp]:
  "length (close_clients cs hs) = length hs" "map hd_client (close_clients cs hs) = map hd_client hs"
  "map hd_pc (close_clients cs hs) = map hd_pc hs" "map hd_flow (close_clients cs hs) = map hd_flow hs"
  by (simp_all add: close_clients_def)

lemma run_done: "run_inv s \<Longrightarrow> i < length (sh_heap (fw_shared s)) \<Longrightarrow> fl_done (sh_heap (fw_shared s) ! i) \<longleftrightarrow> fl_finished (sh_heap (fw_shared s) ! i)"
  unfolding run_inv_def using flow_run_inv flow_inv_done by blast

lemma count_step:
  assumes "forwarder_step own su s s'" and "count_inv s"
  shows "count_inv s'"
  using assms(1) by cases (use assms(2) in \<open>auto simp: count_inv_def\<close>)

lemma slots_closed: "length (filter (\<lambda>h. hd_pc h \<noteq> HGone) (close_clients cs hs)) = length (filter (\<lambda>h. hd_pc h \<noteq> HGone) hs)"
  by (induction hs) (auto simp: close_clients_def)

lemma slot_step:
  assumes "forwarder_step own su s s'" and "slot_inv s"
  shows "slot_inv s'"
  using assms(1)
proof cases
  case (handled xs h ys sh' h')
  then show ?thesis using assms(2) handler_step_frame [OF handled(3)] by (auto simp: slot_inv_def split: if_splits)
qed (use assms(2) in \<open>auto simp: slot_inv_def slots_closed new_handler_def\<close>)

lemma listed_closed: "map hd_client (filter listed (close_clients cs hs)) = map hd_client (filter listed hs)"
  by (induction hs) (auto simp: close_clients_def listed_def)

lemma client_step:
  assumes "forwarder_step own su s s'" and "client_inv s"
  shows "client_inv s'"
  using assms(1)
proof cases
  case close_all_clients
  then show ?thesis using assms(2) by (simp add: client_inv_def listed_closed del: set_map flip: set_map [of hd_client])
next
  case (spawned c)
  then show ?thesis using assms(2) by (auto simp: client_inv_def new_handler_def listed_def)
next
  case (handled xs h ys sh' h')
  have f: "hd_client h' = hd_client h" "sh_clients sh' = (if listed h \<and> \<not> listed h' then filter (\<lambda>c. c \<noteq> hd_client h) (sh_clients (fw_shared s)) else sh_clients (fw_shared s))"
    "listed h' \<longrightarrow> listed h"
    using handler_step_frame [OF handled(3)] by auto
  define A where "A = set (map hd_client (filter listed (xs @ ys)))"
  have set_eq: "set (map hd_client (filter listed (xs @ g # ys))) = (if listed g then insert (hd_client g) A else A)" for g
    by (auto simp: A_def)
  have "hd_client h \<notin> A" using assms(2) handled(2) by (auto simp: client_inv_def A_def)
  moreover have "set (sh_clients (fw_shared s)) = (if listed h then insert (hd_client h) A else A)"
    using assms(2) handled(2) by (simp add: client_inv_def set_eq del: set_map filter_append)
  ultimately have "set (sh_clients sh') = (if listed h' then insert (hd_client h') A else A)"
    using f by (auto split: if_splits)
  then show ?thesis using assms(2) handled(1,2) f(1)
    by (simp add: client_inv_def set_eq del: set_map filter_append)
next
  case (left xs h ys)
  then show ?thesis using assms(2) by (auto simp: client_inv_def listed_def)
qed (use assms(2) in \<open>auto simp: client_inv_def\<close>)

text \<open>A handler adds an entry for itself, or removes the entries of its key; it drops its key only behind that.\<close>

lemma handler_step_map:
  assumes "handler_step own su sh h sh' h'" and "(k, i) \<in> set (sh_flows sh')"
  shows "((k, i) \<in> set (sh_flows sh) \<and> (hd_flow h = Some i \<and> pc_key (hd_pc h) = Some k \<longrightarrow> hd_flow h' = Some i \<and> pc_key (hd_pc h') = Some k)) \<or>
    (i < length (sh_heap sh') \<and> hd_flow h' = Some i \<and> pc_key (hd_pc h') = Some k)"
  using assms by cases (auto simp: unmap_def register_def watched_def split: option.splits handler_pc.splits)

lemma closed_kept: "h \<in> set hs \<Longrightarrow> \<exists>g \<in> set (close_clients cs hs). hd_flow g = hd_flow h \<and> hd_pc g = hd_pc h"
  by (induction hs) (auto simp: close_clients_def)

lemma map_step:
  assumes "forwarder_step own su s s'" and "map_inv s"
  shows "map_inv s'"
  using assms(1)
proof cases
  case close_all_clients
  show ?thesis unfolding map_inv_def
  proof (intro ballI, clarify)
    fix k i assume "(k, i) \<in> set (sh_flows (fw_shared s'))"
    then obtain h where "i < length (sh_heap (fw_shared s))" "h \<in> set (fw_handlers s)" "hd_flow h = Some i" "pc_key (hd_pc h) = Some k"
      using assms(2) close_all_clients by (auto simp: map_inv_def)
    then show "i < length (sh_heap (fw_shared s')) \<and> (\<exists>h \<in> set (fw_handlers s'). hd_flow h = Some i \<and> pc_key (hd_pc h) = Some k)"
      using closed_kept [of h "fw_handlers s" "sh_clients (fw_shared s)"] close_all_clients by auto
  qed
next
  case (handled xs h ys sh' h')
  have "i < length (sh_heap sh') \<and> (\<exists>g \<in> set (xs @ h' # ys). hd_flow g = Some i \<and> pc_key (hd_pc g) = Some k)" if "(k, i) \<in> set (sh_flows sh')" for k i
    using handler_step_map [OF handled(3) that]
  proof
    assume a: "(k, i) \<in> set (sh_flows (fw_shared s)) \<and> (hd_flow h = Some i \<and> pc_key (hd_pc h) = Some k \<longrightarrow> hd_flow h' = Some i \<and> pc_key (hd_pc h') = Some k)"
    then have "i < length (sh_heap (fw_shared s))" "\<exists>g \<in> set (xs @ h # ys). hd_flow g = Some i \<and> pc_key (hd_pc g) = Some k"
      using assms(2) handled(2) by (auto simp: map_inv_def)
    then show ?thesis using a handler_step_heap [OF handled(3)] by (auto simp: heap_le_def)
  qed auto
  then show ?thesis using handled(1) by (auto simp: map_inv_def)
next
  case (left xs h ys)
  then show ?thesis using assms(2) by (fastforce simp: map_inv_def)
qed (use assms(2) in \<open>auto simp: map_inv_def\<close>)

lemma shut_step:
  assumes "forwarder_step own su s s'" and "shut_inv s" and "client_inv s" and "\<forall>h \<in> set (fw_handlers s). handler_ok su (sh_heap (fw_shared s)) h"
  shows "shut_inv s'"
  using assms(1)
proof cases
  case close_all_clients
  have "\<not> hd_open g" if "g \<in> set (close_clients (sh_clients (fw_shared s)) (fw_handlers s))" for g
    using that assms(3,4) by (auto simp: close_clients_def client_inv_def handler_ok_def)
  then show ?thesis using close_all_clients assms(2) by (simp add: shut_inv_def)
next
  case (handled xs h ys sh' h')
  then show ?thesis using assms(2) handler_step_frame [OF handled(3)] by (auto simp: shut_inv_def)
qed (use assms(2) in \<open>auto simp: shut_inv_def\<close>)

section \<open>Every flow is a run of the watcher\<close>

definition runs :: "flow list \<Rightarrow> inject_pc list \<Rightarrow> bool" where
  "runs hp js \<longleftrightarrow> (\<forall>i < length hp. \<exists>hello evs. flow_run hello evs (hp ! i) (pending i js))"

definition injects_ok :: "nat \<Rightarrow> inject_pc list \<Rightarrow> bool" where
  "injects_ok n js \<longleftrightarrow> list_all (\<lambda>j. inject_flow j < n \<and> (case inject_packet j of (fr, p) \<Rightarrow> packet_fits (fr_ip fr) p)) js"

lemma run_inv_alt:
  "run_inv s \<longleftrightarrow> runs (sh_heap (fw_shared s)) (fw_injects s) \<and> injects_ok (length (sh_heap (fw_shared s))) (fw_injects s) \<and>
     (\<forall>fr p out i. fw_capture s = CaptureFound fr p out i \<longrightarrow> i < length (sh_heap (fw_shared s)) \<and> packet_fits (fr_ip fr) p)"
  by (simp add: run_inv_def runs_def injects_ok_def list_all_iff)

lemma pending_simps [simp]:
  "pending i [] = 0" "pending i (xs @ ys) = pending i xs + pending i ys" "pending i (j # ys) = (if inject_flow j = i then 1 else 0) + pending i ys"
  by (simp_all add: pending_def)

lemma runs_alloc:
  assumes "runs hp js" and "injects_ok (length hp) js"
  shows "runs (hp @ [new_flow b]) js"
proof -
  have "pending (length hp) js = 0" using assms(2) by (auto simp: pending_def injects_ok_def filter_empty_conv list_all_iff)
  then show ?thesis using assms(1) flow_start [of b] by (auto simp: runs_def nth_append less_Suc_eq)
qed

text \<open>One more event of one flow, together with the injections it starts or ends.\<close>

lemma runs_event:
  assumes "runs hp js" and "\<And>hello evs. flow_run hello evs (hp ! i) (pending i js) \<Longrightarrow> \<exists>evs. flow_run hello evs f (pending i js')"
    and "\<And>i'. i' \<noteq> i \<Longrightarrow> pending i' js' = pending i' js"
  shows "runs (hp[i := f]) js'"
  unfolding runs_def
proof (intro allI impI)
  fix k assume "k < length (hp[i := f])"
  then obtain hello evs where r: "flow_run hello evs (hp ! k) (pending k js)" using assms(1) by (auto simp: runs_def)
  show "\<exists>hello evs. flow_run hello evs (hp[i := f] ! k) (pending k js')"
  proof (cases "k = i")
    case True
    then show ?thesis using assms(2) r \<open>k < _\<close> by (intro exI [of _ hello]) auto
  next
    case False
    then show ?thesis using r assms(3) [of k] by auto
  qed
qed

lemma runs_drop:
  assumes "runs hp (xs @ j # ys)"
  shows "runs hp (xs @ ys)"
proof -
  have "runs (hp[inject_flow j := hp ! inject_flow j]) (xs @ ys)"
    by (rule runs_event [OF assms]) (auto dest: flow_drop)
  then show ?thesis by simp
qed

lemma handler_step_runs:
  assumes "handler_step own su sh h sh' h'" and "runs (sh_heap sh) js" and "injects_ok (length (sh_heap sh)) js"
  shows "runs (sh_heap sh') js"
  using assms(1)
proof cases
  case (finished k ok i f)
  then show ?thesis by (auto intro!: runs_event [OF assms(2)] intro: flow_give_up)
qed (use assms(2,3) in \<open>auto intro: runs_alloc\<close>)

lemma injects_ok_mono: "injects_ok n js \<Longrightarrow> n \<le> m \<Longrightarrow> injects_ok m js"
  by (auto simp: injects_ok_def list_all_iff)

lemma injects_ok_simps [simp]:
  "injects_ok n []" "injects_ok n (xs @ ys) \<longleftrightarrow> injects_ok n xs \<and> injects_ok n ys"
  "injects_ok n (j # ys) \<longleftrightarrow> inject_flow j < n \<and> (case inject_packet j of (fr, p) \<Rightarrow> packet_fits (fr_ip fr) p) \<and> injects_ok n ys"
  by (auto simp: injects_ok_def)

lemma parsed_fits: "parsePacket b = Some (Some p) \<Longrightarrow> packet_fits b p"
  using packet_of_fits [of b] by (auto simp: parsePacket_eq split: if_splits)

lemma run_step:
  assumes "forwarder_step own su s s'" and "run_inv s" and "map_inv s"
  shows "run_inv s'"
  using assms(1)
proof cases
  case (received fr p i)
  then have "i < length (sh_heap (fw_shared s))" using assms(3) by (auto simp: map_inv_def dest: map_of_SomeD)
  then show ?thesis using received assms(2) parsed_fits [OF received(5)] by (simp add: run_inv_alt)
next
  case (observed fr p outbound i f asked)
  have r: "runs (sh_heap (fw_shared s)) (fw_injects s)" using assms(2) by (simp add: run_inv_alt)
  have "runs ((sh_heap (fw_shared s))[i := f]) (fw_injects s @ (if asked then [InjectWait fr p i] else []))"
  proof (rule runs_event [OF r])
    fix hello evs assume "flow_run hello evs (sh_heap (fw_shared s) ! i) (pending i (fw_injects s))"
    from flow_seen [OF this observed(3)] show "\<exists>evs. flow_run hello evs f (pending i (fw_injects s @ (if asked then [InjectWait fr p i] else [])))"
      by (cases asked) auto
  qed auto
  then show ?thesis using observed assms(2) by (auto simp: run_inv_alt)
next
  case (inject_due xs fr p i ys)
  have "runs (sh_heap (fw_shared s)) (xs @ InjectLock fr p i # ys)"
    using assms(2) inject_due by (auto simp: run_inv_alt runs_def)
  then show ?thesis using inject_due assms(2) by (auto simp: run_inv_alt)
next
  case (injected xs fr p i ys out ok f)
  have r: "runs (sh_heap (fw_shared s)) (fw_injects s)" using assms(2) by (simp add: run_inv_alt)
  have "runs ((sh_heap (fw_shared s))[i := f]) (xs @ ys)"
    by (rule runs_event [OF r]) (use injected in \<open>auto dest!: flow_inject\<close>)
  then show ?thesis using injected assms(2) by (auto simp: run_inv_alt)
next
  case (handled xs h ys sh' h')
  have "length (sh_heap (fw_shared s)) \<le> length (sh_heap sh')" using handler_step_heap [OF handled(3)] by (simp add: heap_le_def)
  then show ?thesis using handled assms(2) handler_step_runs [OF handled(3)]
    by (auto simp: run_inv_alt intro: injects_ok_mono order_less_le_trans)
qed (use assms(2) in \<open>auto simp: run_inv_alt intro: runs_drop\<close>)

section \<open>Reachable states\<close>

lemma handlers_step:
  assumes "forwarder_step own su s s'" and "run_inv s" and "\<forall>h \<in> set (fw_handlers s). handler_ok su (sh_heap (fw_shared s)) h"
  shows "\<forall>h \<in> set (fw_handlers s'). handler_ok su (sh_heap (fw_shared s')) h"
  using assms(1)
proof cases
  case close_all_clients
  then show ?thesis using assms(3) by (auto simp: close_clients_def intro: handler_ok_closed)
next
  case (spawned c)
  then show ?thesis using assms(3) by (auto intro: handler_ok_new)
next
  case (observed fr p outbound i f asked)
  have "heap_le (sh_heap (fw_shared s)) ((sh_heap (fw_shared s))[i := f])"
    by (rule heap_le_update [OF observe_finished [OF observed(3)]])
  then show ?thesis using observed assms(3) handler_ok_mono by auto
next
  case (injected xs fr p i ys out ok f)
  then have "heap_le (sh_heap (fw_shared s)) ((sh_heap (fw_shared s))[i := f])" by (intro heap_le_update) simp
  then show ?thesis using injected assms(3) handler_ok_mono by auto
next
  case (handled xs h ys sh' h')
  have "handler_ok su (sh_heap sh') h'" using handler_step_ok [OF handled(3)] assms(2,3) handled(2) run_done by auto
  then show ?thesis using handled assms(3) handler_ok_mono [OF _ handler_step_heap [OF handled(3)]] by auto
qed (use assms(3) in auto)

lemma forwarder_inv_step: "forwarder_step own su s s' \<Longrightarrow> forwarder_inv su s \<Longrightarrow> forwarder_inv su s'"
proof -
  assume a: "forwarder_step own su s s'" and "forwarder_inv su s"
  then have i: "count_inv s" "slot_inv s" "client_inv s" "map_inv s" "run_inv s" "shut_inv s"
    "\<forall>h \<in> set (fw_handlers s). handler_ok su (sh_heap (fw_shared s)) h" by (simp_all add: forwarder_inv_def)
  show ?thesis unfolding forwarder_inv_def
    by (intro conjI count_step [OF a i(1)] slot_step [OF a i(2)] client_step [OF a i(3)] map_step [OF a i(4)] run_step [OF a i(5,4)]
        shut_step [OF a i(6,3,7)] handlers_step [OF a i(5,7)])
qed

lemma forwarder_inv_start: "startWithOptions listens packets = Inr s \<Longrightarrow> forwarder_inv su s"
  by (auto simp: startWithOptions_def forwarder_inv_def count_inv_def slot_inv_def client_inv_def map_inv_def run_inv_def shut_inv_def
      split: if_splits)

lemma reaches_inv: "reaches su s t \<Longrightarrow> forwarder_inv su s \<Longrightarrow> forwarder_inv su t"
  by (induction rule: reaches.induct) (auto intro: forwarder_inv_step)

section \<open>Draining\<close>

fun pc_rank :: "handler_pc \<Rightarrow> nat" where
  "pc_rank HStart = 14"
| "pc_rank (HDial k) = 13"
| "pc_rank (HWait k) = 12"
| "pc_rank (HConfirmed k) = 11"
| "pc_rank (HDefer k ok) = 10"
| "pc_rank (HUnmap k ok) = 9"
| "pc_rank HServe = 8"
| "pc_rank HHello = 7"
| "pc_rank (HRelay a b) = 4 + (if a then 0 else 1) + (if b then 0 else 1)"
| "pc_rank HExit = 3"
| "pc_rank HLeave = 2"
| "pc_rank HGone = 1"

definition handler_rank :: "handler \<Rightarrow> nat" where
  "handler_rank h = 2 * pc_rank (hd_pc h) + (if hd_server h then 1 else 0)"

fun accept_rank :: "accept_pc \<Rightarrow> nat" where
  "accept_rank AcceptWait = 2"
| "accept_rank (AcceptGot c) = 4"
| "accept_rank (AcceptHold c) = 3"
| "accept_rank AcceptShut = 1"
| "accept_rank AcceptDone = 0"

fun capture_rank :: "capture_pc \<Rightarrow> nat" where
  "capture_rank CaptureOff = 0"
| "capture_rank CaptureWait = 2"
| "capture_rank (CaptureFound fr p out i) = 5"
| "capture_rank CaptureShut = 1"
| "capture_rank CaptureDone = 0"

fun inject_rank :: "inject_pc \<Rightarrow> nat" where
  "inject_rank (InjectWait fr p i) = 2"
| "inject_rank (InjectLock fr p i) = 1"

definition rank :: "forwarder \<Rightarrow> nat" where
  "rank s = accept_rank (fw_accept s) + capture_rank (fw_capture s) + sum_list (map inject_rank (fw_injects s)) + sum_list (map handler_rank (fw_handlers s))"

lemma handler_step_rank: "handler_step own su sh h sh' h' \<Longrightarrow> handler_rank h' < handler_rank h"
  by (cases rule: handler_step.cases) (auto simp: handler_rank_def)

text \<open>Behind the shutdown every step, of the program or of a peer, brings the forwarder closer to its end.\<close>

lemma rank_step:
  assumes "forwarder_step own su s s'" and "fw_shutdown s = ShutDone" and "shut_inv s"
  shows "rank s' < rank s \<and> fw_shutdown s' = ShutDone"
  using assms(1)
proof cases
  case (handled xs h ys sh' h')
  then show ?thesis using assms(2) handler_step_rank [OF handled(3)] by (simp add: rank_def)
next
  case (left xs h ys)
  then show ?thesis using assms(2) by (simp add: rank_def handler_rank_def)
qed (use assms(2,3) in \<open>auto simp: rank_def listener_open_def packets_open_def shut_inv_def\<close>)

lemma hello_returns: "length r = 96 \<Longrightarrow> \<exists>x. clientHello a (Some r) n = Some x"
proof (cases "NormalizeName a n")
  case (Inr m)
  then show "length r = 96 \<Longrightarrow> \<exists>x. clientHello a (Some r) n = Some x"
    using clientHello_layout [OF Inr _ NormalizeName_length [OF Inr], of r] by (cases "m = ''''") (auto simp: clientHello_def)
qed (simp add: clientHello_def)

lemma handler_moves:
  assumes "handler_ok su (sh_heap sh) h" and "sh_cancelled sh" and "\<not> hd_open h" and "hd_pc h \<noteq> HGone" and "0 < sh_limit sh"
    and settled: "\<And>i. i < length (sh_heap sh) \<Longrightarrow> fl_done (sh_heap sh ! i) \<longleftrightarrow> fl_finished (sh_heap sh ! i)"
  shows "\<exists>sh' h'. handler_step True su sh h sh' h'"
proof (cases "hd_pc h")
  case HStart
  obtain x where x: "clientHello (su_ascii su) (Some (replicate 96 0)) (su_name su) = Some x"
    using hello_returns [of "replicate 96 0"] by auto
  obtain k :: flow_key where k: "fk_remote k = su_remote su" by (rule that [of "\<lparr>fk_local = undefined, fk_remote = su_remote su\<rparr>"]) simp
  show ?thesis
  proof (cases "su_name su = ''''")
    case True
    then show ?thesis using HStart assms(2) by (blast intro: plain_failed)
  next
    case False
    then show ?thesis using HStart x k assms(2) by (cases x) (blast intro: hello_failed, blast intro: register_refused)
  qed
next
  case (HDefer k ok)
  then obtain i where i: "hd_flow h = Some i" "i < length (sh_heap sh)" using assms(1) by (auto simp: handler_ok_def)
  then show ?thesis using HDefer finish_eq [OF settled [OF i(2)]] by (blast intro: finished)
next
  case (HRelay a b)
  show ?thesis
  proof (cases "hd_server h")
    case True
    then show ?thesis using HRelay assms(2) by (intro exI) (rule context_closes, simp_all add: watched_def)
  next
    case False
    then show ?thesis using HRelay assms(3)
      by (cases a; cases b) (simp_all, (blast intro: relayed download_failed upload_failed)+)
  qed
next
  case HHello
  show ?thesis
  proof (cases "hd_server h")
    case True
    then show ?thesis using HHello assms(2) by (intro exI) (rule context_closes, simp_all add: watched_def)
  qed (use HHello assms(3) in \<open>blast intro: hello_refused\<close>)
qed (use assms in \<open>blast intro: dial_failed gave_up forgotten unmapped serve unlisted slot_freed\<close>)+

lemma forwarder_moves:
  assumes inv: "forwarder_inv su s" and down: "fw_shutdown s = ShutDone" and busy: "fw_wg s \<noteq> 0"
  shows "\<exists>s'. forwarder_step True su s s'"
proof -
  have c: "sh_cancelled (fw_shared s)" using inv down by (simp add: forwarder_inv_def shut_inv_def)
  have closed: "\<not> listener_open s" "\<not> packets_open s" using down by (simp_all add: listener_open_def packets_open_def)
  consider "fw_accept s \<noteq> AcceptDone" | "fw_capture s \<notin> {CaptureOff, CaptureDone}" | "fw_injects s \<noteq> []" | "fw_handlers s \<noteq> []"
    using inv busy by (auto simp: forwarder_inv_def count_inv_def split: if_splits)
  then show ?thesis
  proof cases
    case 1
    have "0 < sh_limit (fw_shared s)" if "fw_accept s = AcceptHold x" for x using that inv by (simp add: forwarder_inv_def slot_inv_def)
    then show ?thesis using 1 c closed down
      by (cases "fw_accept s") (blast intro: accept_failed slot_taken turned_away too_late accept_done)+
  next
    case 2
    have "\<exists>f asked. observe (sh_heap (fw_shared s) ! i) p out = Some (f, asked)" if f: "fw_capture s = CaptureFound fr p out i" for fr p out i
    proof -
      obtain hello evs where "flow_run hello evs (sh_heap (fw_shared s) ! i) (pending i (fw_injects s))"
        using inv f by (auto simp: forwarder_inv_def run_inv_def)
      from observe_inv [OF flow_run_inv [OF this]] show ?thesis by blast
    qed
    then show ?thesis using 2 closed down by (cases "fw_capture s") (blast intro: capture_failed observed capture_done)+
  next
    case 3
    then obtain j js where "fw_injects s = [] @ j # js" by (cases "fw_injects s") auto
    then show ?thesis using c by (cases j) (blast intro: inject_cancelled inject_late)+
  next
    case 4
    then obtain h hs where h: "fw_handlers s = [] @ h # hs" by (cases "fw_handlers s") auto
    show ?thesis
    proof (cases "hd_pc h = HGone")
      case False
      then have "0 < sh_limit (fw_shared s)" using inv h by (simp add: forwarder_inv_def slot_inv_def)
      then obtain sh' h' where "handler_step True su (fw_shared s) h sh' h'"
        using handler_moves [of su "fw_shared s" h] inv h c down False run_done by (auto simp: forwarder_inv_def shut_inv_def)
      then show ?thesis using handled [OF h] by blast
    qed (use left [OF h] in blast)
  qed
qed

lemma drained_empty:
  assumes "forwarder_inv su s" and "fw_wg s = 0"
  shows "fw_handlers s = [] \<and> fw_injects s = [] \<and> sh_clients (fw_shared s) = [] \<and> sh_flows (fw_shared s) = [] \<and> sh_limit (fw_shared s) = 0"
proof -
  have e: "fw_accept s = AcceptDone" "fw_handlers s = []" "fw_injects s = []" using assms by (auto simp: forwarder_inv_def count_inv_def split: if_splits)
  then have "sh_clients (fw_shared s) = []" "sh_limit (fw_shared s) = 0"
    using assms(1) by (simp_all add: forwarder_inv_def client_inv_def slot_inv_def)
  moreover have "sh_flows (fw_shared s) = []"
    using assms(1) e by (cases "sh_flows (fw_shared s)") (auto simp: forwarder_inv_def map_inv_def)
  ultimately show ?thesis using e by simp
qed

text \<open>The steps the program takes on its own lead from every state of a shutdown to its end.\<close>

lemma shutdown_completes:
  assumes "fw_shutdown s \<noteq> ShutIdle"
  shows "\<exists>t. (forwarder_step True su)\<^sup>*\<^sup>* s t \<and> fw_shutdown t = ShutDone"
proof -
  have more: "\<exists>u. (forwarder_step True su)\<^sup>*\<^sup>* t u \<and> fw_shutdown u = ShutDone"
    if "forwarder_step True su t t'" "\<exists>u. (forwarder_step True su)\<^sup>*\<^sup>* t' u \<and> fw_shutdown u = ShutDone" for t t'
    using that converse_rtranclp_into_rtranclp by metis
  have p: "fw_shutdown t = ShutPackets \<Longrightarrow> \<exists>u. (forwarder_step True su)\<^sup>*\<^sup>* t u \<and> fw_shutdown u = ShutDone" for t
    by (rule more [OF close_all_clients]) auto
  have l: "fw_shutdown t = ShutListener \<Longrightarrow> \<exists>u. (forwarder_step True su)\<^sup>*\<^sup>* t u \<and> fw_shutdown u = ShutDone" for t
    by (rule more [OF close_packets p]) auto
  have "fw_shutdown t = ShutCancelled \<Longrightarrow> \<exists>u. (forwarder_step True su)\<^sup>*\<^sup>* t u \<and> fw_shutdown u = ShutDone" for t
    by (rule more [OF close_listener l]) auto
  then show ?thesis using assms p l by (cases "fw_shutdown s") auto
qed

lemma own_steps_inv: "(forwarder_step True su)\<^sup>*\<^sup>* s t \<Longrightarrow> forwarder_inv su s \<Longrightarrow> forwarder_inv su t"
  by (induction rule: rtranclp_induct) (auto intro: forwarder_inv_step)

lemma drains:
  assumes "forwarder_inv su s" and "fw_shutdown s = ShutDone"
  shows "\<exists>t. (forwarder_step True su)\<^sup>*\<^sup>* s t \<and> fw_wg t = 0"
  using assms
proof (induction "rank s" arbitrary: s rule: less_induct)
  case less
  show ?case
  proof (cases "fw_wg s = 0")
    case False
    then obtain u where u: "forwarder_step True su s u" using forwarder_moves less.prems by blast
    have "rank u < rank s" "fw_shutdown u = ShutDone" using rank_step [OF u less.prems(2)] less.prems(1) by (auto simp: forwarder_inv_def)
    then show ?thesis using less.hyps [of u] forwarder_inv_step [OF u less.prems(1)] u converse_rtranclp_into_rtranclp by metis
  qed auto
qed

lemma no_infinite_run:
  assumes "forwarder_inv su (\<sigma> 0)" and "fw_shutdown (\<sigma> 0) = ShutDone"
  shows "\<exists>n. \<forall>own. \<not> forwarder_step own su (\<sigma> n) (\<sigma> (Suc n))"
proof (rule ccontr)
  assume "\<not> ?thesis"
  then have step: "\<exists>own. forwarder_step own su (\<sigma> n) (\<sigma> (Suc n))" for n by blast
  have inv: "forwarder_inv su (\<sigma> n) \<and> fw_shutdown (\<sigma> n) = ShutDone" for n
  proof (induction n)
    case (Suc n)
    obtain own where "forwarder_step own su (\<sigma> n) (\<sigma> (Suc n))" using step by blast
    then show ?case using Suc forwarder_inv_step rank_step by (auto simp: forwarder_inv_def)
  qed (use assms in simp)
  have "rank (\<sigma> n) + n \<le> rank (\<sigma> 0)" for n
  proof (induction n)
    case (Suc n)
    obtain own where "forwarder_step own su (\<sigma> n) (\<sigma> (Suc n))" using step by blast
    then have "rank (\<sigma> (Suc n)) < rank (\<sigma> n)" using rank_step inv [of n] by (auto simp: forwarder_inv_def)
    then show ?case using Suc by simp
  qed simp
  from this [of "Suc (rank (\<sigma> 0))"] show False by simp
qed

section \<open>Main results\<close>

text \<open>What is relayed has been confirmed by the whole exchange of packets, in order.\<close>

definition relay_confirmed :: "fwd_setup \<Rightarrow> flow list \<Rightarrow> handler \<Rightarrow> bool" where
  "relay_confirmed su hp h \<longleftrightarrow> (hd_pc h \<in> {HServe, HHello} \<union> range (case_prod HRelay) \<and> su_name su \<noteq> '''' \<longrightarrow>
    (\<exists>i hello evs n. hd_flow h = Some i \<and> flow_run hello evs (hp ! i) n \<and>
      (\<exists>es. subseq es evs \<and> list_all2 (\<lambda>P e. P e) (exchange (fl_isn (hp ! i)) (fl_peerISN (hp ! i))) es)))"

lemma started_inv:
  assumes "StartWithOptions toASCII remote options dials opens listens = Inr (su, s0)" and "reaches su s0 s"
  shows "forwarder_inv su s"
proof -
  have m: "map_sum id (Pair a) x = Inr (b, c) \<longleftrightarrow> x = Inr c \<and> b = a" for a b c and x :: "spoof_error + forwarder" by (cases x) auto
  have "forwarder_inv su s0" using assms(1)
    by (auto simp: StartWithOptions_def m split: sum.splits if_splits option.splits intro: forwarder_inv_start)
  then show ?thesis by (rule reaches_inv [OF assms(2)])
qed

lemma confirmed_run:
  assumes "flow_run hello evs f n" and "fl_finished f" and "fl_err f = None"
  shows "\<exists>es. subseq es evs \<and> list_all2 (\<lambda>P e. P e) (exchange (fl_isn f) (fl_peerISN f)) es"
proof -
  have "take 5 (exchange (fl_isn f) (fl_peerISN f)) = exchange (fl_isn f) (fl_peerISN f)" by (simp add: exchange_def)
  then show ?thesis using flow_run_inv [OF assms(1)] assms(2,3) by (auto simp: flow_inv_def progress_def)
qed


text \<open>C35. Closing a forwarder returns. Once a shutdown has begun in a reachable state, the steps the program takes on its own
  lead to an empty wait group, without the help of any peer; behind the shutdown no run is infinite, whatever peers and
  timers do, and as long as the wait group is not empty the program can take a step; and with an empty wait group no
  handler, injection, client, flow or slot is left.\<close>

theorem close_returns:
  assumes "StartWithOptions toASCII remote options dials opens listens = Inr (su, s0)" and "reaches su s0 s" and "fw_shutdown s \<noteq> ShutIdle"
  shows "(\<exists>t. (forwarder_step True su)\<^sup>*\<^sup>* s t \<and> fw_wg t = 0) \<and>
    (fw_shutdown s = ShutDone \<longrightarrow> (\<forall>\<sigma>. \<sigma> 0 = s \<longrightarrow> (\<exists>n. \<forall>own. \<not> forwarder_step own su (\<sigma> n) (\<sigma> (Suc n)))) \<and>
      (fw_wg s \<noteq> 0 \<longrightarrow> (\<exists>t. forwarder_step True su s t))) \<and>
    (fw_wg s = 0 \<longrightarrow> fw_handlers s = [] \<and> fw_injects s = [] \<and> sh_clients (fw_shared s) = [] \<and> sh_flows (fw_shared s) = [] \<and> sh_limit (fw_shared s) = 0)"
proof -
  have inv: "forwarder_inv su s" by (rule started_inv [OF assms(1,2)])
  obtain d where d: "(forwarder_step True su)\<^sup>*\<^sup>* s d" "fw_shutdown d = ShutDone" using shutdown_completes [OF assms(3)] by blast
  have "\<exists>t. (forwarder_step True su)\<^sup>*\<^sup>* s t \<and> fw_wg t = 0"
    using drains [OF own_steps_inv [OF d(1) inv] d(2)] d(1) rtranclp_trans by metis
  then show ?thesis using no_infinite_run [of su] inv forwarder_moves [OF inv] drained_empty [OF inv] by blast
qed

text \<open>C36. The accounts of the forwarder hold in every reachable state: the wait group counts the goroutines, at most 128
  handlers hold a slot, the clients listed are those of the handlers that have not left, and every entry of the table of
  flows belongs to a handler inside \<open>connect\<close> with that key, so no entry outlives its connection attempt.\<close>

theorem forwarder_accounts:
  assumes "StartWithOptions toASCII remote options dials opens listens = Inr (su, s0)" and "reaches su s0 s"
  shows "fw_wg s = (if fw_accept s = AcceptDone then 0 else 1) + (if fw_capture s \<in> {CaptureOff, CaptureDone} then 0 else 1) +
      length (fw_handlers s) + length (fw_injects s) \<and>
    length (filter (\<lambda>h. hd_pc h \<noteq> HGone) (fw_handlers s)) \<le> maxConnections \<and>
    set (sh_clients (fw_shared s)) = set (map hd_client (filter listed (fw_handlers s))) \<and>
    list_all (\<lambda>(k, i). list_ex (\<lambda>h. hd_flow h = Some i \<and> pc_key (hd_pc h) = Some k) (fw_handlers s)) (sh_flows (fw_shared s))"
  using started_inv [OF assms]
  by (auto simp: forwarder_inv_def count_inv_def slot_inv_def client_inv_def map_inv_def list_all_iff list_ex_iff)

definition sample_remote :: addr_port where
  "sample_remote = \<lparr>ap_addr = V4 0x5DB8D822, ap_port = 443\<rparr>"

definition sample_setup :: fwd_setup where
  "sample_setup = \<lparr>su_remote = sample_remote, su_name = '''', su_options = \<lparr>FakeSNI = '''', TCPSplit = True, TLSRecordSplit = False\<rparr>, su_ascii = Some\<rparr>"

definition sample_forwarder :: "shutdown_pc \<Rightarrow> accept_pc \<Rightarrow> handler list \<Rightarrow> forwarder" where
  "sample_forwarder sd a hs = \<lparr>fw_shared = \<lparr>sh_cancelled = (sd \<noteq> ShutIdle), sh_clients = (if hs = [] then [] else [7]), sh_flows = [], sh_heap = [],
     sh_limit = (if hs = [] \<and> a = AcceptWait \<or> a = AcceptGot 7 then 0 else 1)\<rparr>,
     fw_shutdown = sd, fw_accept = a, fw_capture = CaptureOff, fw_handlers = hs, fw_injects = [], fw_wg = (if hs = [] then 1 else 2)\<rparr>"

definition sample_handler :: handler where
  "sample_handler = \<lparr>hd_client = 7, hd_open = True, hd_server = True, hd_flow = None, hd_pc = HServe\<rparr>"

lemma sample_started:
  "StartWithOptions Some sample_remote \<lparr>FakeSNI = '''', TCPSplit = True, TLSRecordSplit = False\<rparr> True None True =
    Inr (sample_setup, sample_forwarder ShutIdle AcceptWait [])"
  by (simp add: StartWithOptions_def NormalizeName_def sample_remote_def sample_setup_def sample_forwarder_def startWithOptions_def trim_space_empty_iff)

text \<open>A client is accepted, its handler dials, and the forwarder is closed.\<close>

lemma sample_reached: "reaches sample_setup (sample_forwarder ShutIdle AcceptWait []) (sample_forwarder ShutCancelled AcceptWait [sample_handler])"
proof -
  note d = sample_forwarder_def with_shared_def listener_open_def maxConnections_def numeral_2_eq_2
  from reaches_step [OF reaches_refl accepted [of "sample_forwarder ShutIdle AcceptWait []" False 7]]
  have "reaches sample_setup (sample_forwarder ShutIdle AcceptWait []) (sample_forwarder ShutIdle (AcceptGot 7) [])" by (simp add: d)
  from reaches_step [OF this slot_taken [of _ 7 False]]
  have "reaches sample_setup (sample_forwarder ShutIdle AcceptWait []) (sample_forwarder ShutIdle (AcceptHold 7) [])" by (simp add: d)
  from reaches_step [OF this spawned [of _ 7 False]]
  have "reaches sample_setup (sample_forwarder ShutIdle AcceptWait []) (sample_forwarder ShutIdle AcceptWait [new_handler 7])" by (simp add: d)
  from reaches_step [OF this handled [of _ "[]" "new_handler 7" "[]" False _ _ sample_handler]]
  have "reaches sample_setup (sample_forwarder ShutIdle AcceptWait []) (sample_forwarder ShutIdle AcceptWait [sample_handler])"
    using plain_dialled [of "new_handler 7" sample_setup False] by (simp add: d sample_setup_def new_handler_def sample_handler_def)
  from reaches_step [OF this cancel [of _ False]] show ?thesis by (simp add: d)
qed


theorem close_returns_witness:
  "\<exists>t. (forwarder_step True sample_setup)\<^sup>*\<^sup>* (sample_forwarder ShutCancelled AcceptWait [sample_handler]) t \<and> fw_wg t = 0"
  using close_returns [OF sample_started sample_reached] by (simp add: sample_forwarder_def)

theorem forwarder_accounts_witness:
  "fw_wg (sample_forwarder ShutCancelled AcceptWait [sample_handler]) = 2 \<and> sh_clients (fw_shared (sample_forwarder ShutCancelled AcceptWait [sample_handler])) = [7]"
  using forwarder_accounts [OF sample_started sample_reached] by (simp add: sample_forwarder_def)

end
