(* ===== verification/HotspotConf.thy ===== *)
theory HotspotConf
  imports Netip Redact
begin

text \<open>
  The configuration of the access point and of its DHCP and DNS server: \<open>apconfig.go\<close>, \<open>hostapd.go\<close>, \<open>dnsmasq.go\<close>,
  \<open>radio.go\<close> (the constraint) and \<open>plan.go\<close> of \<open>src/internal/hotspot\<close>. Both files are rendered line by line, comments
  included; refusals are constructors carrying the data of their text.
\<close>

unbundle bit_operations_syntax

section \<open>Refusals\<close>

datatype value_error = BadAlias | NoValue string | ValueTooLong string string | ValueChar string string | ValueHyphen string string | NotAbsolute string string | ControlChar string

datatype ap_error = NoSSID | SSIDTooLong nat | SSIDNotText | NoPassphrase | PassphraseShort nat | PassphraseLong nat | PassphraseChar | PassphraseBanned | RandomFailed

datatype radio_error = NoCountry | CountryLength string | CountryLetters string | UnknownBand string | NotA2GHzChannel int | NotA5GHzChannel int | RadioNoAP | RadioHostsNone | RadioPinned int int | ChannelNotAllowed int string "int list"

datatype dns_error = NoSubnet | SubnetNot4 | SubnetUnusable int | SubnetIsHost prefix | NotIPv4 string | OutsideSubnet string addr prefix | RangeBackwards addr addr | GatewayInPool addr addr addr | LeaseShort duration | NoResolver | ResolverBanned string | ResolverNotLocal addr | CacheNegative int

datatype conf_error = BadValue value_error | BadAP ap_error | BadRadio radio_error | BadDNS dns_error

section \<open>Values that may reach a file\<close>

definition byte :: "char \<Rightarrow> nat" where
  "byte c = of_char c"

definition noControlChars :: "string \<Rightarrow> string \<Rightarrow> conf_error option" where
  "noControlChars what v = (if list_ex (\<lambda>c. byte c < 0x20 \<or> byte c = 0x7f) v then Some (BadValue (ControlChar what)) else None)"

definition token_char :: "char \<Rightarrow> bool" where
  "token_char c \<longleftrightarrow> is_alnum c \<or> c = CHR ''.'' \<or> c = CHR ''_'' \<or> c = CHR ''-''"

definition validConfigToken :: "string \<Rightarrow> string \<Rightarrow> conf_error option" where
  "validConfigToken what v =
    (if v = '''' then Some (BadValue (NoValue what))
     else if 64 < length v then Some (BadValue (ValueTooLong what v))
     else if list_all token_char v then None else Some (BadValue (ValueChar what v)))"

definition validServiceAccount :: "string \<Rightarrow> string \<Rightarrow> conf_error option" where
  "validServiceAccount what v =
    (case validConfigToken what v of Some e \<Rightarrow> Some e
     | None \<Rightarrow> if 32 < length v then Some (BadValue (ValueTooLong what v))
         else if has_prefix v ''-'' then Some (BadValue (ValueHyphen what v)) else None)"

definition validAbsPath :: "string \<Rightarrow> string \<Rightarrow> conf_error option" where
  "validAbsPath what p =
    (if p = '''' then Some (BadValue (NoValue what)) else if \<not> has_prefix p ''/'' then Some (BadValue (NotAbsolute what p)) else noControlChars what p)"

text \<open>\<open>utf8.ValidString\<close>: no byte starts an invalid sequence.\<close>

function utf8_valid :: "string \<Rightarrow> bool" where
  "utf8_valid s = (if s = [] then True else (1 < rune_width s \<or> byte (hd s) < 0x80) \<and> utf8_valid (drop (rune_width s) s))"
  by pat_completeness auto

termination utf8_valid by (relation "measure length") (auto simp: rune_width_pos)

declare utf8_valid.simps [simp del]

section \<open>The access point\<close>

definition Band2GHz :: string where "Band2GHz = ''2.4GHz''"
definition Band5GHz :: string where "Band5GHz = ''5GHz''"
definition MinPassphraseLen :: nat where "MinPassphraseLen = 8"
definition MaxPassphraseLen :: nat where "MaxPassphraseLen = 63"
definition MaxSSIDLen :: nat where "MaxSSIDLen = 32"

definition bannedPassphrases :: "string list" where
  "bannedPassphrases = [''securepass123'', ''password'', ''password123'', ''12345678'', ''123456789'', ''changeme'', ''caspian'',
     ''hotspot'', ''raspberry'', ''admin'']"

definition passphraseAlphabet :: string where
  "passphraseAlphabet = ''abcdefghijkmnpqrstuvwxyz23456789''"

definition GeneratedPassphraseLen :: nat where
  "GeneratedPassphraseLen = 20"

record ap_config =
  apInterface :: string
  apUplink :: string
  apSSID :: string
  apPassphrase :: string
  apCountryCode :: string
  apChannel :: int
  apBand :: string
  apControlDir :: string

definition ValidatePassphrase :: "string \<Rightarrow> conf_error option" where
  "ValidatePassphrase p =
    (if p = '''' then Some (BadAP NoPassphrase)
     else if length p < MinPassphraseLen then Some (BadAP (PassphraseShort (length p)))
     else if MaxPassphraseLen < length p then Some (BadAP (PassphraseLong (length p)))
     else if list_ex (\<lambda>c. byte c < 0x20 \<or> 0x7e < byte c) p then Some (BadAP PassphraseChar)
     else if to_lower p \<in> set bannedPassphrases then Some (BadAP PassphraseBanned)
     else None)"

definition validCountryCode :: "string \<Rightarrow> conf_error option" where
  "validCountryCode cc =
    (if cc = '''' then Some (BadRadio NoCountry)
     else if length cc \<noteq> 2 then Some (BadRadio (CountryLength cc))
     else if list_all (\<lambda>c. byte CHR ''A'' \<le> byte c \<and> byte c \<le> byte CHR ''Z'') cc then None else Some (BadRadio (CountryLetters cc)))"

definition channels5GHz :: "int list" where
  "channels5GHz = [36, 40, 44, 48, 149, 153, 157, 161, 165]"

definition validChannel :: "string \<Rightarrow> int \<Rightarrow> conf_error option" where
  "validChannel band ch =
    (if band = Band2GHz then if ch < 1 \<or> 13 < ch then Some (BadRadio (NotA2GHzChannel ch)) else None
     else if band = Band5GHz then if ch \<in> set channels5GHz then None else Some (BadRadio (NotA5GHzChannel ch))
     else Some (BadRadio (UnknownBand band)))"

definition hwMode :: "ap_config \<Rightarrow> conf_error + string" where
  "hwMode c = (if apBand c = Band2GHz then Inr ''g'' else if apBand c = Band5GHz then Inr ''a'' else Inl (BadRadio (UnknownBand (apBand c))))"

text \<open>The first of a list of checks that refuses.\<close>

fun first_error :: "conf_error option list \<Rightarrow> conf_error option" where
  "first_error [] = None"
| "first_error (x # xs) = (case x of None \<Rightarrow> first_error xs | Some e \<Rightarrow> Some e)"

definition APConfig_validate :: "bool \<Rightarrow> ap_config \<Rightarrow> conf_error option" where
  "APConfig_validate mobileHotspot c = first_error [
     if mobileHotspot then
       if apInterface c = '''' \<or> 255 < length (apInterface c) \<or> \<not> utf8_valid (apInterface c) then Some (BadValue BadAlias)
       else noControlChars ''interface'' (apInterface c)
     else validConfigToken ''interface'' (apInterface c),
     if apSSID c = '''' then Some (BadAP NoSSID) else None,
     if MaxSSIDLen < length (apSSID c) then Some (BadAP (SSIDTooLong (length (apSSID c)))) else None,
     if utf8_valid (apSSID c) then None else Some (BadAP SSIDNotText),
     noControlChars ''network name'' (apSSID c),
     ValidatePassphrase (apPassphrase c),
     validCountryCode (apCountryCode c),
     validChannel (apBand c) (apChannel c),
     if \<not> mobileHotspot \<and> apControlDir c \<noteq> '''' then validAbsPath ''hostapd control directory'' (apControlDir c) else None]"

text \<open>The random bytes are an argument, or the error of the random source.\<close>

definition GeneratePassphrase :: "8 word list option \<Rightarrow> conf_error + string" where
  "GeneratePassphrase rand = (case rand of None \<Rightarrow> Inl (BadAP RandomFailed)
   | Some buf \<Rightarrow> Inr (map (\<lambda>b. passphraseAlphabet ! unat (b AND 0x1f)) (take GeneratedPassphraseLen buf)))"

definition EnsurePassphrase :: "8 word list option \<Rightarrow> ap_config \<Rightarrow> conf_error + (ap_config \<times> bool)" where
  "EnsurePassphrase rand cfg =
    (if apPassphrase cfg \<noteq> '''' then case ValidatePassphrase (apPassphrase cfg) of Some e \<Rightarrow> Inl e | None \<Rightarrow> Inr (cfg, False)
     else case GeneratePassphrase rand of Inl e \<Rightarrow> Inl e | Inr p \<Rightarrow> Inr (cfg\<lparr>apPassphrase := p\<rparr>, True))"

section \<open>Lines of a file\<close>

datatype conf_line = Remark string | Setting string string | Flag string

fun line_text :: "conf_line \<Rightarrow> string" where
  "line_text (Remark s) = s"
| "line_text (Setting k v) = k @ ''='' @ v"
| "line_text (Flag k) = k"

definition conf_text :: "conf_line list \<Rightarrow> string" where
  "conf_text ls = concat (map (\<lambda>l. line_text l @ [newline]) ls)"

definition HostapdControlDir :: string where
  "HostapdControlDir = ''/run/hostapd''"

definition hostapd_lines :: "ap_config \<Rightarrow> string \<Rightarrow> string \<Rightarrow> conf_line list" where
  "hostapd_lines cfg mode ctrlDir =
    [Remark ''# hostapd configuration generated by Caspian-BYOC.'',
     Remark ''# Rewritten from scratch on every start. Edits here are lost.'',
     Remark ''#'',
     Remark ''# Every setting below is here for a reason and the reason is written down.'',
     Remark ''# Where a setting exists because of a known failure, the failure is named.'',
     Remark '''',
     Setting ''interface'' (apInterface cfg),
     Setting ''driver'' ''nl80211'',
     Remark '''',
     Remark ''# The regulatory domain.'',
     Remark ''#'',
     Remark ''# WHY THIS LINE IS FIRST AMONG EQUALS: with no country_code the driver'',
     Remark ''# uses the world regulatory domain, in which most channels are'',
     Remark ''# passive-scan only and beaconing is not permitted, so hostapd starts,'',
     Remark ''# fails to bring the interface up and the network never appears. The'',
     Remark ''# user sees nothing at all, which is the least diagnosable failure this'',
     Remark ''# appliance can produce. The reference implementation omitted it'',
     Remark ''# entirely: 004-hotspot/install.sh:415-430 writes no country_code line.'',
     Remark ''#'',
     Remark ''# ieee80211d advertises the domain in the beacon so joining clients'',
     Remark ''# adopt the same channel and power rules.'',
     Setting ''country_code'' (apCountryCode cfg),
     Setting ''ieee80211d'' ''1'',
     Remark '''',
     Remark ''# The network name. utf8_ssid tells hostapd the bytes are UTF-8, which'',
     Remark ''# matters because this appliance's users name their networks in scripts'',
     Remark ''# other than Latin and a name advertised in the wrong encoding shows up'',
     Remark ''# on phones as replacement characters.'',
     Setting ''ssid'' (apSSID cfg),
     Setting ''utf8_ssid'' ''1'',
     Remark '''',
     Setting ''hw_mode'' mode,
     Setting ''channel'' (int_to_string (apChannel cfg)),
     Remark '''',
     Remark ''# 802.11n.'',
     Remark ''#'',
     Remark ''# Without ieee80211n the radio negotiates 802.11g rates only and the'',
     Remark ''# whole hotspot is capped at 54 Mbps shared between every joined device,'',
     Remark ''# below what the tunnel can carry. The reference implementation set'',
     Remark ''# neither ieee80211n nor wmm_enabled=1 (004-hotspot/install.sh:415-430,'',
     Remark ''# which has wmm_enabled=0), so every box it built ran at 54 Mbps and'',
     Remark ''# nothing said so.'',
     Remark ''#'',
     Remark ''# wmm_enabled=1 is not optional here: hostapd disables HT rates when WMM'',
     Remark ''# is off, so ieee80211n=1 with wmm_enabled=0 silently stays at 54 Mbps'',
     Remark ''# and looks configured.'',
     Setting ''ieee80211n'' ''1'',
     Setting ''wmm_enabled'' ''1'',
     Remark '''',
     Remark ''# 20 MHz channel width only.'',
     Remark ''#'',
     Remark ''# HT40 needs a secondary channel declared as [HT40+] or [HT40-], and the'',
     Remark ''# correct one depends on the primary channel and the regulatory domain.'',
     Remark ''# A wrong secondary makes hostapd refuse to start. This appliance is'',
     Remark ''# frequently pinned to whatever channel the uplink already uses (see'',
     Remark ''# RadioConstraint), so the primary is not ours to choose and the safe'',
     Remark ''# gain is the short guard interval at 20 MHz.'',
     Setting ''ht_capab'' ''[SHORT-GI-20]'',
     Remark '''',
     Remark ''# Security: WPA2-PSK with CCMP (AES) and nothing else.'',
     Remark ''#'',
     Remark ''# auth_algs=1 is Open System only. The value 2 enables WEP shared-key'',
     Remark ''# authentication, which is broken.'',
     Remark ''#'',
     Remark ''# There is deliberately NO wpa_pairwise line. wpa_pairwise sets the'',
     Remark ''# cipher for WPA1, and the reference implementation set'',
     Remark ''# wpa_pairwise=TKIP (004-hotspot/install.sh:428). That has two costs,'',
     Remark ''# not one: it advertises a cipher with known practical attacks, and'',
     Remark ''# because 802.11n forbids HT rates on a BSS that offers TKIP it also'',
     Remark ''# holds the whole network at 54 Mbps however much 802.11n is enabled'',
     Remark ''# above. Omitting the line leaves rsn_pairwise as the only cipher suite,'',
     Remark ''# which is WPA2 with AES.'',
     Setting ''auth_algs'' ''1'',
     Setting ''wpa'' ''2'',
     Setting ''wpa_key_mgmt'' ''WPA-PSK'',
     Setting ''rsn_pairwise'' ''CCMP'',
     Setting ''wpa_passphrase'' (apPassphrase cfg),
     Remark '''',
     Remark ''# Devices that join must not be able to reach each other.'',
     Remark ''#'',
     Remark ''# Everyone here is a guest of whoever holds the passphrase, and a phone'',
     Remark ''# joining a shared hotspot should not be exposed to the other phones on'',
     Remark ''# it. ap_isolate stops hostapd bridging frames from one associated'',
     Remark ''# station to another. It is not the whole of client isolation: traffic'',
     Remark ''# that leaves the interface and comes back is internal/netcfg's firewall'',
     Remark ''# to stop, and this line does not claim to do that job.'',
     Setting ''ap_isolate'' ''1'',
     Remark '''',
     Remark ''# No MAC filtering, and the name is broadcast. A hidden SSID is not'',
     Remark ''# security, it only stops the user finding their own network.'',
     Setting ''macaddr_acl'' ''0'',
     Setting ''ignore_broadcast_ssid'' ''0'',
     Remark '''',
     Remark ''# Logging: notification level and above.'',
     Remark ''#'',
     Remark ''# hostapd writes a line for every association and disassociation, each'',
     Remark ''# carrying a device's MAC address, at informational level. This box does'',
     Remark ''# not keep a record of which devices were here. Errors stay visible so'',
     Remark ''# the panel can explain a failure.'',
     Setting ''logger_syslog'' ''-1'',
     Setting ''logger_syslog_level'' ''3'',
     Setting ''logger_stdout'' ''-1'',
     Setting ''logger_stdout_level'' ''3'',
     Remark '''',
     Remark ''# Control socket. Used only by this program, to ask hostapd whether the'',
     Remark ''# access point is actually up rather than merely running: a hostapd'',
     Remark ''# process that is alive and beaconing nothing is the failure a process'',
     Remark ''# check cannot see.'',
     Setting ''ctrl_interface'' ctrlDir,
     Setting ''ctrl_interface_group'' ''0'']"

definition RenderHostapd :: "ap_config \<Rightarrow> conf_error + string" where
  "RenderHostapd cfg = (case APConfig_validate False cfg of Some e \<Rightarrow> Inl e
   | None \<Rightarrow> (case hwMode cfg of Inl e \<Rightarrow> Inl e
     | Inr mode \<Rightarrow> Inr (conf_text (hostapd_lines cfg mode (if apControlDir cfg = '''' then HostapdControlDir else apControlDir cfg)))))"

section \<open>The DHCP and DNS server\<close>

definition MinLeaseTime :: duration where
  "MinLeaseTime = 120 * second"

definition DefaultServiceUser :: string where "DefaultServiceUser = ''caspian''"
definition DefaultServiceGroup :: string where "DefaultServiceGroup = ''caspian''"

definition bannedResolvers :: "string list" where
  "bannedResolvers = [''8.8.8.8'', ''8.8.4.4'', ''2001:4860:4860::8888'', ''2001:4860:4860::8844'']"

record dns_config =
  dnInterface :: string
  dnSubnet :: prefix
  dnGateway :: addr
  dnRangeStart :: addr
  dnRangeEnd :: addr
  dnLeaseTime :: duration
  dnLeaseFile :: string
  dnUpstreamAddr :: addr
  dnUpstreamPort :: "16 word"
  dnCacheSize :: int
  dnServiceUser :: string
  dnServiceGroup :: string
  dnFilterAAAA :: bool

text \<open>The order of two IPv4 addresses; every address compared has been checked to be one.\<close>

definition v4_le :: "addr \<Rightarrow> addr \<Rightarrow> bool" where
  "v4_le a b = (case (a, b) of (V4 x, V4 y) \<Rightarrow> x \<le> y | _ \<Rightarrow> False)"

definition addr_in_subnet :: "prefix \<Rightarrow> string \<times> addr \<Rightarrow> conf_error option" where
  "addr_in_subnet net f = (case f of (name, a) \<Rightarrow>
     if \<not> IsValid a \<or> \<not> Is4 a then Some (BadDNS (NotIPv4 name)) else if \<not> Contains net a then Some (BadDNS (OutsideSubnet name a net)) else None)"

definition DNSConfig_Validate :: "dns_config \<Rightarrow> conf_error option" where
  "DNSConfig_Validate c = first_error (
     [validConfigToken ''interface'' (dnInterface c),
      if valid_prefix (dnSubnet c) then None else Some (BadDNS NoSubnet),
      if Is4 (pAddr (dnSubnet c)) then None else Some (BadDNS SubnetNot4),
      if pBits (dnSubnet c) < 8 \<or> 30 < pBits (dnSubnet c) then Some (BadDNS (SubnetUnusable (pBits (dnSubnet c)))) else None,
      if pAddr (dnSubnet c) \<noteq> pAddr (Masked (dnSubnet c)) then Some (BadDNS (SubnetIsHost (dnSubnet c))) else None] @
     map (addr_in_subnet (dnSubnet c)) [(''gateway address'', dnGateway c), (''first DHCP address'', dnRangeStart c), (''last DHCP address'', dnRangeEnd c)] @
     [if \<not> v4_le (dnRangeStart c) (dnRangeEnd c) then Some (BadDNS (RangeBackwards (dnRangeStart c) (dnRangeEnd c))) else None,
      if v4_le (dnRangeStart c) (dnGateway c) \<and> v4_le (dnGateway c) (dnRangeEnd c) then Some (BadDNS (GatewayInPool (dnGateway c) (dnRangeStart c) (dnRangeEnd c))) else None,
      if dnLeaseTime c < MinLeaseTime then Some (BadDNS (LeaseShort (dnLeaseTime c))) else None,
      validAbsPath ''lease file'' (dnLeaseFile c),
      if \<not> IsValid (dnUpstreamAddr c) \<or> dnUpstreamPort c = 0 then Some (BadDNS NoResolver) else None,
      if addr_string (dnUpstreamAddr c) \<in> set bannedResolvers then Some (BadDNS (ResolverBanned (addr_string (dnUpstreamAddr c)))) else None,
      if IsLoopback (dnUpstreamAddr c) then None else Some (BadDNS (ResolverNotLocal (dnUpstreamAddr c))),
      validServiceAccount ''service user'' (dnServiceUser c),
      validServiceAccount ''service group'' (dnServiceGroup c),
      if dnCacheSize c < 0 then Some (BadDNS (CacheNegative (dnCacheSize c))) else None])"

definition ipv4Netmask :: "int \<Rightarrow> string" where
  "ipv4Netmask bits = string4 (push_bit (nat (32 - bits)) (- 1))"

definition leaseTimeString :: "duration \<Rightarrow> string" where
  "leaseTimeString d =
    (if d mod hour = 0 then int_to_string (d div hour) @ ''h''
     else if d mod (60 * second) = 0 then int_to_string (d div (60 * second)) @ ''m''
     else int_to_string (d div second))"

definition dnsmasq_lines :: "dns_config \<Rightarrow> conf_line list" where
  "dnsmasq_lines c =
    [Remark ''# dnsmasq configuration generated by Caspian-BYOC.'',
     Remark ''# Rewritten from scratch on every start. Edits here are lost.'',
     Remark ''#'',
     Remark ''# This file serves DHCP and DNS to the hotspot only. Two things in it'',
     Remark ''# are not tuning and must not be relaxed: what it refuses to log, and'',
     Remark ''# where it is allowed to send a query.'',
     Remark '''',
     Remark ''# WHO THIS PROCESS RUNS AS.'',
     Remark ''#'',
     Remark ''# dnsmasq needs root only to bind port 53 and to open the DHCP socket.'',
     Remark ''# It then drops to an unprivileged account for the rest of its life,'',
     Remark ''# which is right, and which is exactly why this line has to be here.'',
     Remark ''#'',
     Remark ''# THE FAILURE THIS PREVENTS IS SILENCE, NOT AN ERROR. With no user='',
     Remark ''# line dnsmasq drops to its own compiled-in default account, which on a'',
     Remark ''# Debian-derived system is neither root nor this appliance's service'',
     Remark ''# user. The lease file below lives in a directory that is mode 0700 and'',
     Remark ''# owned by the service user (docs/LAYOUT.md: /var/lib/caspian, 0700,'',
     Remark ''# caspian), and a process running as somebody else cannot traverse it.'',
     Remark ''# So dnsmasq keeps answering DNS, keeps handing out addresses, and'',
     Remark ''# keeps failing to record a single lease. The hotspot works. The panel'',
     Remark ''# reads an empty lease file and reports zero connected devices for'',
     Remark ''# ever, on a network people are actively using. Nothing logs an error,'',
     Remark ''# nothing crashes, and a non-technical user is left comparing a screen'',
     Remark ''# that says nobody is connected against a phone that is plainly online.'',
     Remark ''#'',
     Remark ''# group= is set for the same reason and is not implied by user=:'',
     Remark ''# dnsmasq's default group is a compiled-in value of its own, so leaving'',
     Remark ''# it out leaves half the identity unstated.'',
     Setting ''user'' (dnServiceUser c),
     Setting ''group'' (dnServiceGroup c),
     Remark '''',
     Remark ''# Listen on the hotspot interface only.'',
     Remark ''#'',
     Remark ''# bind-interfaces stops dnsmasq binding the wildcard address. Without'',
     Remark ''# it dnsmasq listens on 0.0.0.0 and filters by interface in userspace,'',
     Remark ''# which means the port is open on the uplink and on any interface that'',
     Remark ''# appears later, and this box would be an open resolver to whatever'',
     Remark ''# network it is plugged into.'',
     Setting ''interface'' (dnInterface c),
     Flag ''bind-interfaces'',
     Setting ''listen-address'' (addr_string (dnGateway c)),
     Setting ''port'' ''53'',
     Remark '''',
     Remark ''# PRIVACY, NOT TUNING: no query logging.'',
     Remark ''#'',
     Remark ''# There is deliberately no log-queries line. With it, dnsmasq writes one'',
     Remark ''# syslog line per lookup, which on this box is a dated record of every'',
     Remark ''# site every person on the hotspot visited, kept on the appliance that'',
     Remark ''# exists to stop exactly that being collected elsewhere. The reference'',
     Remark ''# implementation set log-queries (004-hotspot/install.sh:352).'',
     Remark ''#'',
     Remark ''# The cache below is in memory only. It is lost when the process stops'',
     Remark ''# and is never written to disk.'',
     Setting ''cache-size'' (if 0 < dnCacheSize c then int_to_string (dnCacheSize c) else ''0''),
     Remark '''',
     Remark ''# PRIVACY, NOT TUNING: no DHCP logging.'',
     Remark ''#'',
     Remark ''# Leaving out log-dhcp is not enough. dnsmasq logs every DHCPDISCOVER,'',
     Remark ''# DHCPOFFER, DHCPREQUEST and DHCPACK by default, each carrying a MAC'',
     Remark ''# address and a hostname, so the default configuration keeps a dated'',
     Remark ''# record of every device that joined and when. quiet-dhcp turns that'',
     Remark ''# off. The reference implementation went the other way and set log-dhcp'',
     Remark ''# (004-hotspot/install.sh:381).'',
     Remark ''#'',
     Remark ''# The lease file remains, because the panel has to show the user how'',
     Remark ''# many devices are connected. It holds current leases only and dnsmasq'',
     Remark ''# removes an entry when it expires; it is not a history.'',
     Flag ''quiet-dhcp'',
     Flag ''quiet-dhcp6'',
     Flag ''quiet-ra'',
     Remark '''',
     Remark ''# The only place a client query may go.'',
     Remark ''#'',
     Remark ''# no-resolv stops dnsmasq reading /etc/resolv.conf. Without it dnsmasq'',
     Remark ''# inherits whatever resolver the uplink's DHCP handed this box, and'',
     Remark ''# every client lookup would leave in plaintext beside the tunnel'',
     Remark ''# instead of through it. That is the leak the whole appliance exists to'',
     Remark ''# prevent, and it would be caused by a file this program never wrote.'',
     Remark ''#'',
     Remark ''# The server line points at a resolver on this machine, which the rest'',
     Remark ''# of this program routes through the tunnel. A public resolver must'',
     Remark ''# never appear here; the renderer refuses to emit one that is not a'',
     Remark ''# loopback address.'',
     Flag ''no-resolv'',
     Setting ''server'' (addr_string (dnUpstreamAddr c) @ ''#'' @ nat_to_string (unat (dnUpstreamPort c))),
     Remark '''',
     Remark ''# Do not send a bare name with no dot upstream, and do not send reverse'',
     Remark ''# lookups for private address space upstream. Both would hand the names'',
     Remark ''# and addresses of devices on this hotspot to a stranger, and neither'',
     Remark ''# has a useful answer.'',
     Flag ''domain-needed'',
     Flag ''bogus-priv'',
     Remark '''',
     Remark ''# Do not answer clients from this box's /etc/hosts.'',
     Flag ''no-hosts''] @
    (if dnFilterAAAA c then
    [Remark '''',
     Remark ''# Drop AAAA answers. The v1 tunnel carries IPv4, so an IPv6 address'',
     Remark ''# handed to a client is a destination it will try first and cannot'',
     Remark ''# reach, which shows up as every page taking seconds to load.'',
     Remark ''# Off unless the caller turned it on: this option needs dnsmasq'',
     Remark ''# 2.81 or newer and an older dnsmasq treats an unknown option as'',
     Remark ''# fatal, so guessing here would stop the hotspot from starting.'',
     Flag ''filter-AAAA''] else []) @
    [Remark '''',
     Remark ''# DHCP.'',
     Remark ''#'',
     Remark ''# dhcp-authoritative is correct because this box is the only DHCP'',
     Remark ''# server on its own hotspot: it lets dnsmasq answer a client that'',
     Remark ''# arrives asking to renew a lease from some other network immediately,'',
     Remark ''# instead of leaving it to time out.'',
     Remark ''#'',
     Remark ''# option:dns-server points at this box, not at a public resolver, so a'',
     Remark ''# client that honours DHCP asks us. A client with a hardcoded resolver'',
     Remark ''# ignores this line; catching that one is internal/netcfg's redirect,'',
     Remark ''# not this file's job.'',
     Flag ''dhcp-authoritative'',
     Setting ''dhcp-range'' (addr_string (dnRangeStart c) @ '','' @ addr_string (dnRangeEnd c) @ '','' @ ipv4Netmask (pBits (dnSubnet c)) @ '','' @ leaseTimeString (dnLeaseTime c)),
     Setting ''dhcp-option'' (''option:router,'' @ addr_string (dnGateway c)),
     Setting ''dhcp-option'' (''option:dns-server,'' @ addr_string (dnGateway c)),
     Remark ''# The lease file is the panel's only source for the connected-device'',
     Remark ''# count, and it is writable only because of the user= line at the top'',
     Remark ''# of this file. Change one without the other and the count silently'',
     Remark ''# stays at zero.'',
     Setting ''dhcp-leasefile'' (dnLeaseFile c)]"

definition RenderDnsmasq :: "dns_config \<Rightarrow> conf_error + string" where
  "RenderDnsmasq c = (case DNSConfig_Validate c of Some e \<Rightarrow> Inl e | None \<Rightarrow> Inr (conf_text (dnsmasq_lines c)))"

section \<open>The radio and the whole plan\<close>

record radio_constraint =
  rcSupportsAP :: bool
  rcMaxAPs :: int
  rcMaxChannels :: int
  rcClientChannel :: int
  rcAllowedChannels :: "int list"

definition PinnedChannel :: "radio_constraint \<Rightarrow> int option" where
  "PinnedChannel rc = (if rcMaxChannels rc \<le> 1 \<and> rcClientChannel rc \<noteq> 0 then Some (rcClientChannel rc) else None)"

definition radio_Check :: "radio_constraint \<Rightarrow> ap_config \<Rightarrow> conf_error option" where
  "radio_Check rc cfg = first_error [
     if rcSupportsAP rc then None else Some (BadRadio RadioNoAP),
     if rcMaxAPs rc < 1 then Some (BadRadio RadioHostsNone) else None,
     (case PinnedChannel rc of Some pinned \<Rightarrow> if apChannel cfg \<noteq> pinned then Some (BadRadio (RadioPinned pinned (apChannel cfg))) else None | None \<Rightarrow> None),
     if rcAllowedChannels rc \<noteq> [] \<and> apChannel cfg \<notin> set (rcAllowedChannels rc)
     then Some (BadRadio (ChannelNotAllowed (apChannel cfg) (apCountryCode cfg) (rcAllowedChannels rc))) else None]"

record hotspot_plan =
  hpAP :: ap_config
  hpDNS :: dns_config
  hpRadio :: radio_constraint
  hpHostapdConf :: string
  hpDnsmasqConf :: string
  hpPassphraseGenerated :: bool

definition dns_defaults :: "ap_config \<Rightarrow> dns_config \<Rightarrow> dns_config" where
  "dns_defaults ap dns = dns\<lparr>dnInterface := (if dnInterface dns = '''' then apInterface ap else dnInterface dns),
     dnServiceUser := (if dnServiceUser dns = '''' then DefaultServiceUser else dnServiceUser dns),
     dnServiceGroup := (if dnServiceGroup dns = '''' then DefaultServiceGroup else dnServiceGroup dns)\<rparr>"

definition NewPlan :: "8 word list option \<Rightarrow> ap_config \<Rightarrow> dns_config \<Rightarrow> radio_constraint \<Rightarrow> conf_error + hotspot_plan" where
  "NewPlan rand ap dns radio = (case EnsurePassphrase rand ap of Inl e \<Rightarrow> Inl e
   | Inr (ap, generated) \<Rightarrow> (case APConfig_validate False ap of Some e \<Rightarrow> Inl e
     | None \<Rightarrow> (case radio_Check radio ap of Some e \<Rightarrow> Inl e
       | None \<Rightarrow> (let dns = dns_defaults ap dns in case DNSConfig_Validate dns of Some e \<Rightarrow> Inl e
         | None \<Rightarrow> (case RenderHostapd ap of Inl e \<Rightarrow> Inl e
           | Inr hconf \<Rightarrow> (case RenderDnsmasq dns of Inl e \<Rightarrow> Inl e
             | Inr dconf \<Rightarrow> Inr \<lparr>hpAP = ap, hpDNS = dns, hpRadio = radio, hpHostapdConf = hconf, hpDnsmasqConf = dconf,
                 hpPassphraseGenerated = generated\<rparr>))))))"

definition NewMobileHotspotPlan :: "8 word list option \<Rightarrow> ap_config \<Rightarrow> dns_config \<Rightarrow> radio_constraint \<Rightarrow> conf_error + hotspot_plan" where
  "NewMobileHotspotPlan rand ap dns radio = (case EnsurePassphrase rand ap of Inl e \<Rightarrow> Inl e
   | Inr (ap, generated) \<Rightarrow> (case APConfig_validate True ap of Some e \<Rightarrow> Inl e
     | None \<Rightarrow> (case radio_Check radio ap of Some e \<Rightarrow> Inl e
       | None \<Rightarrow> Inr \<lparr>hpAP = ap, hpDNS = dns, hpRadio = radio, hpHostapdConf = '''', hpDnsmasqConf = '''', hpPassphraseGenerated = generated\<rparr>)))"

end
