(* ===== verification/HotspotProps.thy ===== *)
theory HotspotProps
  imports HotspotConf
begin

text \<open>
  The generated files read back as exactly the intended settings, so that no value can start a line of its own, and what
  a validated hotspot guarantees.
\<close>

section \<open>Reading a file\<close>

text \<open>A line is empty, a comment, a flag, or a key and everything behind its first equals sign.\<close>

definition read_line :: "string \<Rightarrow> (string \<times> string option) option" where
  "read_line s =
    (if s = '''' \<or> hd s = CHR ''#'' then None
     else let k = takeWhile (\<lambda>c. c \<noteq> CHR ''='') s in
       Some (k, if length k = length s then None else Some (drop (length k + 1) s)))"

definition read_conf :: "string \<Rightarrow> (string \<times> string option) list" where
  "read_conf t = List.map_filter read_line (lines_of t)"

fun line_setting :: "conf_line \<Rightarrow> (string \<times> string option) option" where
  "line_setting (Remark s) = None"
| "line_setting (Setting k v) = Some (k, Some v)"
| "line_setting (Flag k) = Some (k, None)"

definition key_ok :: "string \<Rightarrow> bool" where
  "key_ok k \<longleftrightarrow> k \<noteq> '''' \<and> hd k \<noteq> CHR ''#'' \<and> CHR ''='' \<notin> set k \<and> newline \<notin> set k"

fun line_ok :: "conf_line \<Rightarrow> bool" where
  "line_ok (Remark s) \<longleftrightarrow> newline \<notin> set s \<and> (s = '''' \<or> hd s = CHR ''#'')"
| "line_ok (Setting k v) \<longleftrightarrow> key_ok k \<and> newline \<notin> set v"
| "line_ok (Flag k) \<longleftrightarrow> key_ok k"

lemma lines_of_conf_text: "list_all line_ok ls \<Longrightarrow> lines_of (conf_text ls) = map line_text ls @ ['''']"
proof (induction ls)
  case (Cons l ls)
  have "newline \<notin> set (line_text l)" using Cons.prems by (cases l) (auto simp: key_ok_def newline_def)
  then show ?case using Cons by (simp add: conf_text_def lines_of_def newline_def split_char_append)
qed (simp add: conf_text_def lines_of_def)

lemma takeWhile_key: "CHR ''='' \<notin> set k \<Longrightarrow> takeWhile (\<lambda>c. c \<noteq> CHR ''='') (k @ CHR ''='' # v) = k"
  by (induction k) auto

lemma read_line_text: "line_ok l \<Longrightarrow> read_line (line_text l) = line_setting l"
proof (cases l)
  case (Flag k)
  assume "line_ok l"
  then have "takeWhile (\<lambda>c. c \<noteq> CHR ''='') k = k" using Flag by (auto simp: key_ok_def takeWhile_eq_all_conv)
  then show ?thesis using \<open>line_ok l\<close> Flag unfolding read_line_def by (simp only: Let_def line_text.simps) (auto simp: key_ok_def)
qed (auto simp: read_line_def key_ok_def takeWhile_key)

fun settings :: "conf_line list \<Rightarrow> (string \<times> string option) list" where
  "settings [] = []"
| "settings (Remark s # ls) = settings ls"
| "settings (Setting k v # ls) = (k, Some v) # settings ls"
| "settings (Flag k # ls) = (k, None) # settings ls"

lemma read_back: "list_all line_ok ls \<Longrightarrow> read_conf (conf_text ls) = settings ls"
proof -
  assume ok: "list_all line_ok ls"
  then have "List.map_filter read_line (map line_text ls) = settings ls"
    by (induction ls rule: settings.induct) (simp_all add: read_line_text map_filter_def del: line_text.simps line_ok.simps)
  moreover have "read_line '''' = None" by (simp add: read_line_def)
  ultimately show ?thesis using ok by (simp add: read_conf_def lines_of_conf_text map_filter_def)
qed

section \<open>Values without a line break\<close>

lemma noControlChars_newline: "noControlChars what v = None \<Longrightarrow> newline \<notin> set v"
  by (auto simp: noControlChars_def newline_def byte_def list_ex_iff split: if_splits)

lemma token_newline: "list_all token_char v \<Longrightarrow> newline \<notin> set v"
  by (auto simp: list_all_iff token_char_def newline_def is_alnum_def is_digit_def is_upper_def is_lower_def)

lemma validConfigToken_newline: "validConfigToken what v = None \<Longrightarrow> newline \<notin> set v"
  by (auto simp: validConfigToken_def token_newline split: if_splits)

lemma validServiceAccount_newline: "validServiceAccount what v = None \<Longrightarrow> newline \<notin> set v"
  by (auto simp: validServiceAccount_def validConfigToken_newline split: option.splits)

lemma validAbsPath_newline: "validAbsPath what v = None \<Longrightarrow> newline \<notin> set v"
  by (auto simp: validAbsPath_def noControlChars_newline split: if_splits)

lemma passphrase_newline: "ValidatePassphrase p = None \<Longrightarrow> newline \<notin> set p"
  by (auto simp: ValidatePassphrase_def newline_def byte_def list_ex_iff split: if_splits)

lemma country_newline: "validCountryCode c = None \<Longrightarrow> newline \<notin> set c"
  by (auto simp: validCountryCode_def newline_def byte_def list_all_iff split: if_splits)

lemma number_newline: "newline \<notin> set (nat_to_string n)" "newline \<notin> set (int_to_string i)"
proof -
  have d: "newline \<noteq> digit n" if "n < 10" for n
  proof
    assume "newline = digit n"
    then have "(of_char newline :: nat) = of_char (digit n)" by simp
    then show False using that by (simp add: newline_def digit_def of_char_of)
  qed
  have n: "newline \<notin> set (nat_to_string n)" for n
  proof (induction n rule: nat_to_string.induct)
    case (1 n)
    then show ?case using d by (subst nat_to_string.simps) auto
  qed
  show "newline \<notin> set (nat_to_string n)" by (rule n)
  show "newline \<notin> set (int_to_string i)" using n by (auto simp: int_to_string_def newline_def)
qed

lemma string4_newline: "newline \<notin> set (string4 w)"
proof -
  have "newline \<notin> set (join ''.'' ss)" if "\<forall>s \<in> set ss. newline \<notin> set s" for ss
    using that by (induction "''.''" ss rule: join.induct) (auto simp: newline_def)
  then show ?thesis by (simp add: string4_def number_newline)
qed

lemma Is4_newline: "Is4 a \<Longrightarrow> newline \<notin> set (addr_string a)"
  by (cases a) (simp_all add: string4_newline)

section \<open>The lines of both files\<close>

text \<open>What is fixed in a line, and the value it carries.\<close>

fun fixed_ok :: "conf_line \<Rightarrow> bool" where
  "fixed_ok (Remark s) \<longleftrightarrow> newline \<notin> set s \<and> (s = '''' \<or> hd s = CHR ''#'')"
| "fixed_ok (Setting k v) \<longleftrightarrow> key_ok k"
| "fixed_ok (Flag k) \<longleftrightarrow> key_ok k"

fun value_ok :: "conf_line \<Rightarrow> bool" where
  "value_ok (Setting k v) \<longleftrightarrow> newline \<notin> set v"
| "value_ok _ \<longleftrightarrow> True"

lemma line_ok_parts: "line_ok l \<longleftrightarrow> fixed_ok l \<and> value_ok l"
  by (cases l) auto

lemma lines_ok_parts: "list_all fixed_ok ls \<Longrightarrow> list_all value_ok ls \<Longrightarrow> list_all line_ok ls"
  by (simp add: list_all_iff line_ok_parts)

lemma hostapd_fixed: "list_all fixed_ok (hostapd_lines cfg mode ctrlDir)"
  by code_simp

lemma dnsmasq_fixed: "list_all fixed_ok (dnsmasq_lines c)"
proof (cases "dnFilterAAAA c")
  case True
  then show ?thesis unfolding dnsmasq_lines_def by (simp only: if_True) code_simp
next
  case False
  then show ?thesis unfolding dnsmasq_lines_def by (simp only: if_False) code_simp
qed

lemma hostapd_lines_ok:
  assumes "newline \<notin> set (apInterface cfg)" "newline \<notin> set (apCountryCode cfg)" "newline \<notin> set (apSSID cfg)" "newline \<notin> set mode"
    "newline \<notin> set (apPassphrase cfg)" "newline \<notin> set ctrlDir"
  shows "list_all line_ok (hostapd_lines cfg mode ctrlDir)"
  using assms number_newline unfolding newline_def
  by (intro lines_ok_parts [OF hostapd_fixed]) (simp only: hostapd_lines_def list.pred_inject value_ok.simps newline_def, simp)

lemma dnsmasq_lines_ok:
  assumes "newline \<notin> set (dnServiceUser c)" "newline \<notin> set (dnServiceGroup c)" "newline \<notin> set (dnInterface c)" "Is4 (dnGateway c)" "Is4 (dnRangeStart c)"
    "Is4 (dnRangeEnd c)" "newline \<notin> set (dnLeaseFile c)" "newline \<notin> set (addr_string (dnUpstreamAddr c))"
  shows "list_all line_ok (dnsmasq_lines c)"
proof (rule lines_ok_parts [OF dnsmasq_fixed])
  have "newline \<notin> set (leaseTimeString (dnLeaseTime c))" using number_newline by (auto simp: leaseTimeString_def newline_def)
  moreover have "newline \<notin> set (ipv4Netmask b)" for b by (simp add: ipv4Netmask_def string4_newline)
  moreover note Is4_newline [OF assms(4)] Is4_newline [OF assms(5)] Is4_newline [OF assms(6)]
  ultimately show "list_all value_ok (dnsmasq_lines c)" using assms number_newline unfolding newline_def
    by (cases "dnFilterAAAA c") (simp_all only: dnsmasq_lines_def list_all_append list.pred_inject value_ok.simps newline_def if_True if_False, simp_all)
qed

section \<open>What validation guarantees\<close>

lemma first_error_None [simp]: "first_error es = None \<longleftrightarrow> list_all (\<lambda>e. e = None) es"
  by (induction es) (auto split: option.splits)

lemma refused_unless: "(if b then None else Some e) = None \<longleftrightarrow> b" "(if b then Some e else None) = None \<longleftrightarrow> \<not> b"
  by simp_all

lemma addr_in_subnet_None: "addr_in_subnet net (n, a) = None \<longleftrightarrow> Is4 a \<and> Contains net a"
  by (cases a) (auto simp: addr_in_subnet_def IsValid_def)

lemma AP_validated:
  assumes "APConfig_validate False cfg = None"
  shows "validConfigToken ''interface'' (apInterface cfg) = None" "noControlChars ''network name'' (apSSID cfg) = None" "apSSID cfg \<noteq> ''''"
    "length (apSSID cfg) \<le> MaxSSIDLen" "ValidatePassphrase (apPassphrase cfg) = None" "validCountryCode (apCountryCode cfg) = None"
    "validChannel (apBand cfg) (apChannel cfg) = None" "apControlDir cfg \<noteq> '''' \<Longrightarrow> validAbsPath ''hostapd control directory'' (apControlDir cfg) = None"
  using assms unfolding APConfig_validate_def first_error_None list.pred_inject(2) refused_unless by (simp_all del: first_error.simps)

lemma DNS_validated:
  assumes "DNSConfig_Validate c = None"
  shows "validConfigToken ''interface'' (dnInterface c) = None" "Is4 (dnGateway c)" "Is4 (dnRangeStart c)" "Is4 (dnRangeEnd c)"
    "validAbsPath ''lease file'' (dnLeaseFile c) = None" "validServiceAccount ''service user'' (dnServiceUser c) = None"
    "validServiceAccount ''service group'' (dnServiceGroup c) = None" "IsLoopback (dnUpstreamAddr c)"
    "Contains (dnSubnet c) (dnGateway c)" "Contains (dnSubnet c) (dnRangeStart c)" "Contains (dnSubnet c) (dnRangeEnd c)"
    "v4_le (dnRangeStart c) (dnRangeEnd c)" "\<not> (v4_le (dnRangeStart c) (dnGateway c) \<and> v4_le (dnGateway c) (dnRangeEnd c))"
  using assms unfolding DNSConfig_Validate_def first_error_None list_all_append list.map list.pred_inject(2) refused_unless addr_in_subnet_None
  by simp_all

lemmas free_of_newlines = validConfigToken_newline validAbsPath_newline validServiceAccount_newline country_newline noControlChars_newline passphrase_newline

lemma alphabet_index: "unat (b AND 0x1f :: 8 word) < 32"
proof -
  have "b AND 0x1f \<le> 0x1f" by (rule word_and_le1)
  then show ?thesis by (simp add: word_le_nat_alt)
qed

lemma alphabet_printable: "list_all (\<lambda>c. 0x20 \<le> byte c \<and> byte c \<le> 0x7e) passphraseAlphabet"
  by code_simp

lemma banned_short: "list_all (\<lambda>s. length s \<noteq> GeneratedPassphraseLen) bannedPassphrases"
  by code_simp

lemma generated_validates:
  assumes "GeneratePassphrase (Some buf) = Inr p" and "GeneratedPassphraseLen \<le> length buf"
  shows "ValidatePassphrase p = None \<and> length p = GeneratedPassphraseLen"
proof -
  have p: "p = map (\<lambda>b. passphraseAlphabet ! unat (b AND 0x1f)) (take GeneratedPassphraseLen buf)"
    using assms(1) by (simp add: GeneratePassphrase_def)
  then have l: "length p = 20" using assms(2) by (simp add: GeneratedPassphraseLen_def)
  have "length passphraseAlphabet = 32" by (simp add: passphraseAlphabet_def)
  then have "\<forall>c \<in> set p. 0x20 \<le> byte c \<and> byte c \<le> 0x7e"
    using alphabet_printable alphabet_index nth_mem by (force simp: p list_all_iff)
  moreover have "length (to_lower p) = 20" using l by (simp add: to_lower_def)
  then have "to_lower p \<notin> set bannedPassphrases" using banned_short by (auto simp: list_all_iff GeneratedPassphraseLen_def)
  ultimately show ?thesis using l
    by (auto simp: ValidatePassphrase_def MinPassphraseLen_def MaxPassphraseLen_def list_ex_iff GeneratedPassphraseLen_def)
qed

lemma settings_append: "settings (xs @ ys) = settings xs @ settings ys"
  by (induction xs rule: settings.induct) simp_all

lemma hostapd_settings:
  "settings (hostapd_lines cfg mode d) =
    [(''interface'', Some (apInterface cfg)), (''driver'', Some ''nl80211''), (''country_code'', Some (apCountryCode cfg)), (''ieee80211d'', Some ''1''),
     (''ssid'', Some (apSSID cfg)), (''utf8_ssid'', Some ''1''), (''hw_mode'', Some mode), (''channel'', Some (int_to_string (apChannel cfg))),
     (''ieee80211n'', Some ''1''), (''wmm_enabled'', Some ''1''), (''ht_capab'', Some ''[SHORT-GI-20]''), (''auth_algs'', Some ''1''), (''wpa'', Some ''2''),
     (''wpa_key_mgmt'', Some ''WPA-PSK''), (''rsn_pairwise'', Some ''CCMP''), (''wpa_passphrase'', Some (apPassphrase cfg)), (''ap_isolate'', Some ''1''),
     (''macaddr_acl'', Some ''0''), (''ignore_broadcast_ssid'', Some ''0''), (''logger_syslog'', Some ''-1''), (''logger_syslog_level'', Some ''3''),
     (''logger_stdout'', Some ''-1''), (''logger_stdout_level'', Some ''3''),
     (''ctrl_interface'', Some d), (''ctrl_interface_group'', Some ''0'')]"
  by (simp only: hostapd_lines_def settings.simps)

lemma dnsmasq_settings:
  "settings (dnsmasq_lines c) =
    [(''user'', Some (dnServiceUser c)), (''group'', Some (dnServiceGroup c)), (''interface'', Some (dnInterface c)), (''bind-interfaces'', None),
     (''listen-address'', Some (addr_string (dnGateway c))), (''port'', Some ''53''),
     (''cache-size'', Some (if 0 < dnCacheSize c then int_to_string (dnCacheSize c) else ''0'')),
     (''quiet-dhcp'', None), (''quiet-dhcp6'', None), (''quiet-ra'', None), (''no-resolv'', None),
     (''server'', Some (addr_string (dnUpstreamAddr c) @ ''#'' @ nat_to_string (unat (dnUpstreamPort c)))), (''domain-needed'', None), (''bogus-priv'', None),
     (''no-hosts'', None)] @ (if dnFilterAAAA c then [(''filter-AAAA'', None)] else []) @
    [(''dhcp-authoritative'', None),
     (''dhcp-range'', Some (addr_string (dnRangeStart c) @ '','' @ addr_string (dnRangeEnd c) @ '','' @ ipv4Netmask (pBits (dnSubnet c)) @ '','' @
        leaseTimeString (dnLeaseTime c))),
     (''dhcp-option'', Some (''option:router,'' @ addr_string (dnGateway c))), (''dhcp-option'', Some (''option:dns-server,'' @ addr_string (dnGateway c))),
     (''dhcp-leasefile'', Some (dnLeaseFile c))]"
  by (cases "dnFilterAAAA c") (simp_all only: dnsmasq_lines_def settings_append settings.simps if_True if_False append.simps)

section \<open>Main results\<close>

text \<open>C16. The file hostapd is started with says exactly what was configured. Read line by line, comments and blanks aside, the
  rendered text is this list of settings in this order, each once, with the network name, the passphrase and the other
  values as given; no value, whatever its bytes, adds or changes a directive.\<close>

theorem hostapd_conf_reads_back:
  assumes "RenderHostapd cfg = Inr t"
  shows "\<exists>mode. hwMode cfg = Inr mode \<and> read_conf t =
    [(''interface'', Some (apInterface cfg)), (''driver'', Some ''nl80211''), (''country_code'', Some (apCountryCode cfg)), (''ieee80211d'', Some ''1''),
     (''ssid'', Some (apSSID cfg)), (''utf8_ssid'', Some ''1''), (''hw_mode'', Some mode), (''channel'', Some (int_to_string (apChannel cfg))),
     (''ieee80211n'', Some ''1''), (''wmm_enabled'', Some ''1''), (''ht_capab'', Some ''[SHORT-GI-20]''), (''auth_algs'', Some ''1''), (''wpa'', Some ''2''),
     (''wpa_key_mgmt'', Some ''WPA-PSK''), (''rsn_pairwise'', Some ''CCMP''), (''wpa_passphrase'', Some (apPassphrase cfg)), (''ap_isolate'', Some ''1''),
     (''macaddr_acl'', Some ''0''), (''ignore_broadcast_ssid'', Some ''0''), (''logger_syslog'', Some ''-1''), (''logger_syslog_level'', Some ''3''),
     (''logger_stdout'', Some ''-1''), (''logger_stdout_level'', Some ''3''),
     (''ctrl_interface'', Some (if apControlDir cfg = '''' then HostapdControlDir else apControlDir cfg)), (''ctrl_interface_group'', Some ''0'')]"
proof -
  have v: "APConfig_validate False cfg = None" using assms by (auto simp: RenderHostapd_def split: option.splits)
  then obtain mode where mode: "hwMode cfg = Inr mode" "t = conf_text (hostapd_lines cfg mode (if apControlDir cfg = '''' then HostapdControlDir else apControlDir cfg))"
    using assms by (auto simp: RenderHostapd_def split: sum.splits)
  let ?d = "if apControlDir cfg = '''' then HostapdControlDir else apControlDir cfg"
  have "newline \<notin> set mode" using mode(1) by (auto simp: hwMode_def newline_def split: if_splits)
  moreover have "newline \<notin> set ?d"
    using validAbsPath_newline [OF AP_validated(8) [OF v]] by (cases "apControlDir cfg = ''''") (simp_all add: HostapdControlDir_def newline_def)
  ultimately have "list_all line_ok (hostapd_lines cfg mode ?d)"
    by (intro hostapd_lines_ok free_of_newlines(1) [OF AP_validated(1) [OF v]] free_of_newlines(4) [OF AP_validated(6) [OF v]]
        free_of_newlines(5) [OF AP_validated(2) [OF v]] free_of_newlines(6) [OF AP_validated(5) [OF v]])
  from read_back [OF this] show ?thesis unfolding mode(2) hostapd_settings by (intro exI [of _ mode] conjI mode(1))
qed

text \<open>C17. What the DHCP and DNS server is told, when its upstream resolver is an IPv4 address. The rendered file reads back as exactly these settings: none of
  them logs queries, and queries go to a resolver on this machine only; and the pool it hands out lies inside the hotspot subnet and never
  contains the address of the box itself.\<close>

theorem dnsmasq_conf_reads_back:
  assumes "RenderDnsmasq c = Inr t" and "Is4 (dnUpstreamAddr c)"
  shows "read_conf t =
    [(''user'', Some (dnServiceUser c)), (''group'', Some (dnServiceGroup c)), (''interface'', Some (dnInterface c)), (''bind-interfaces'', None),
     (''listen-address'', Some (addr_string (dnGateway c))), (''port'', Some ''53''),
     (''cache-size'', Some (if 0 < dnCacheSize c then int_to_string (dnCacheSize c) else ''0'')),
     (''quiet-dhcp'', None), (''quiet-dhcp6'', None), (''quiet-ra'', None), (''no-resolv'', None),
     (''server'', Some (addr_string (dnUpstreamAddr c) @ ''#'' @ nat_to_string (unat (dnUpstreamPort c)))), (''domain-needed'', None), (''bogus-priv'', None),
     (''no-hosts'', None)] @ (if dnFilterAAAA c then [(''filter-AAAA'', None)] else []) @
    [(''dhcp-authoritative'', None),
     (''dhcp-range'', Some (addr_string (dnRangeStart c) @ '','' @ addr_string (dnRangeEnd c) @ '','' @ ipv4Netmask (pBits (dnSubnet c)) @ '','' @
        leaseTimeString (dnLeaseTime c))),
     (''dhcp-option'', Some (''option:router,'' @ addr_string (dnGateway c))), (''dhcp-option'', Some (''option:dns-server,'' @ addr_string (dnGateway c))),
     (''dhcp-leasefile'', Some (dnLeaseFile c))] \<and>
    IsLoopback (dnUpstreamAddr c) \<and> Contains (dnSubnet c) (dnRangeStart c) \<and> Contains (dnSubnet c) (dnRangeEnd c) \<and>
    \<not> (v4_le (dnRangeStart c) (dnGateway c) \<and> v4_le (dnGateway c) (dnRangeEnd c))"
proof -
  have v: "DNSConfig_Validate c = None" and t: "t = conf_text (dnsmasq_lines c)" using assms(1) by (auto simp: RenderDnsmasq_def split: option.splits)
  have "list_all line_ok (dnsmasq_lines c)"
    using DNS_validated [OF v] by (intro dnsmasq_lines_ok Is4_newline [OF assms(2)] free_of_newlines) 
  from read_back [OF this] show ?thesis unfolding t dnsmasq_settings by (intro conjI DNS_validated [OF v])
qed

text \<open>C18. A hotspot that is planned is valid. When the random source gives the twenty bytes asked of it and a plan is returned, its passphrase is a legal WPA2 passphrase that is no
  known default, generated exactly when none was given; the channel is the one the radio is held to, if it is, and one
  the adapter allows; and both files are the rendering of the validated settings.\<close>

theorem planned_hotspot_is_valid:
  assumes "NewPlan (Some rand) ap dns radio = Inr p" and "GeneratedPassphraseLen \<le> length rand"
  shows "ValidatePassphrase (apPassphrase (hpAP p)) = None \<and> hpPassphraseGenerated p = (apPassphrase ap = '''') \<and>
    (apPassphrase ap \<noteq> '''' \<longrightarrow> hpAP p = ap) \<and> apSSID (hpAP p) = apSSID ap \<and> rcSupportsAP radio \<and>
    (case PinnedChannel radio of None \<Rightarrow> True | Some c \<Rightarrow> apChannel ap = c) \<and>
    (rcAllowedChannels radio = [] \<or> apChannel ap \<in> set (rcAllowedChannels radio)) \<and>
    RenderHostapd (hpAP p) = Inr (hpHostapdConf p) \<and> RenderDnsmasq (hpDNS p) = Inr (hpDnsmasqConf p)"
proof -
  obtain ap' g where e: "EnsurePassphrase (Some rand) ap = Inr (ap', g)" using assms(1) by (auto simp: NewPlan_def split: sum.splits)
  have p: "radio_Check radio ap' = None" "hpAP p = ap'" "hpPassphraseGenerated p = g" "RenderHostapd ap' = Inr (hpHostapdConf p)"
    "RenderDnsmasq (hpDNS p) = Inr (hpDnsmasqConf p)"
    using assms(1) e by (auto simp: NewPlan_def Let_def split: option.splits sum.splits)
  have a: "ValidatePassphrase (apPassphrase ap') = None \<and> g = (apPassphrase ap = '''') \<and> (apPassphrase ap \<noteq> '''' \<longrightarrow> ap' = ap) \<and> apSSID ap' = apSSID ap \<and>
      apChannel ap' = apChannel ap"
  proof (cases "apPassphrase ap = ''''")
    case True
    then obtain w where w: "GeneratePassphrase (Some rand) = Inr w" "ap' = ap\<lparr>apPassphrase := w\<rparr>" "g"
      using e by (auto simp: EnsurePassphrase_def split: sum.splits)
    then show ?thesis using generated_validates [OF w(1) assms(2)] True by simp
  next
    case False
    then show ?thesis using e by (auto simp: EnsurePassphrase_def split: option.splits)
  qed
  have "rcSupportsAP radio" "case PinnedChannel radio of None \<Rightarrow> True | Some c \<Rightarrow> apChannel ap' = c"
    "rcAllowedChannels radio = [] \<or> apChannel ap' \<in> set (rcAllowedChannels radio)"
    using p(1) unfolding radio_Check_def first_error_None list.pred_inject(2) refused_unless by (auto split: option.splits if_splits)
  then show ?thesis using a p by (auto split: option.splits)
qed

definition sample_ap :: ap_config where
  "sample_ap = \<lparr>apInterface = ''wlan0'', apUplink = ''eth0'', apSSID = ''Caf#=e'', apPassphrase = '''', apCountryCode = ''GB'', apChannel = 6,
     apBand = ''2.4GHz'', apControlDir = ''''\<rparr>"

definition sample_dns :: dns_config where
  "sample_dns = \<lparr>dnInterface = ''wlan0'', dnSubnet = \<lparr>pAddr = V4 0x0A533300, pBits = 24\<rparr>, dnGateway = V4 0x0A533301, dnRangeStart = V4 0x0A533332,
     dnRangeEnd = V4 0x0A5333C8, dnLeaseTime = 12 * hour, dnLeaseFile = ''/var/lib/caspian/dnsmasq.leases'', dnUpstreamAddr = V4 0x7F000001,
     dnUpstreamPort = 5354, dnCacheSize = 150, dnServiceUser = ''caspian'', dnServiceGroup = ''caspian'', dnFilterAAAA = False\<rparr>"

definition sample_radio :: radio_constraint where
  "sample_radio = \<lparr>rcSupportsAP = True, rcMaxAPs = 1, rcMaxChannels = 1, rcClientChannel = 6, rcAllowedChannels = [1, 6, 11]\<rparr>"

lemma sample_ap_valid: "APConfig_validate False (sample_ap\<lparr>apPassphrase := ''two # words''\<rparr>) = None"
  by code_simp

lemma sample_dns_valid: "DNSConfig_Validate sample_dns = None"
proof -
  have "addr_string (V4 0x7F000001) = ''127.0.0.1''" by (simp add: string4_def octets_def upt_conv_Cons nat_to_string.simps digit_def) code_simp
  moreover have "validConfigToken ''interface'' ''wlan0'' = None" "validAbsPath ''lease file'' ''/var/lib/caspian/dnsmasq.leases'' = None"
    "validServiceAccount what ''caspian'' = None" for what by (code_simp, code_simp, simp add: validServiceAccount_def validConfigToken_def has_prefix_def, code_simp)
  ultimately show ?thesis
    by (simp add: DNSConfig_Validate_def sample_dns_def addr_in_subnet_def valid_prefix_def Contains_def IsValid_def v4_le_def
        IsLoopback_def Is4In6_def MinLeaseTime_def hour_def second_def bannedResolvers_def Masked_def mask_word_def)
qed

theorem hostapd_conf_reads_back_witness:
  "\<exists>t. RenderHostapd (sample_ap\<lparr>apPassphrase := ''two # words''\<rparr>) = Inr t \<and> (''wpa_passphrase'', Some ''two # words'') \<in> set (read_conf t) \<and>
    (''ssid'', Some ''Caf#=e'') \<in> set (read_conf t)"
proof -
  let ?cfg = "sample_ap\<lparr>apPassphrase := ''two # words''\<rparr>"
  have "hwMode ?cfg = Inr ''g''" by (simp add: hwMode_def sample_ap_def Band2GHz_def)
  then obtain t where t: "RenderHostapd ?cfg = Inr t" using sample_ap_valid by (simp add: RenderHostapd_def)
  from hostapd_conf_reads_back [OF t] show ?thesis by (intro exI [of _ t] conjI t) (auto simp: sample_ap_def)
qed

theorem dnsmasq_conf_reads_back_witness:
  "\<exists>t. RenderDnsmasq sample_dns = Inr t \<and> (''dhcp-leasefile'', Some ''/var/lib/caspian/dnsmasq.leases'') \<in> set (read_conf t) \<and> IsLoopback (dnUpstreamAddr sample_dns)"
proof -
  obtain t where t: "RenderDnsmasq sample_dns = Inr t" using sample_dns_valid by (simp add: RenderDnsmasq_def)
  have "Is4 (dnUpstreamAddr sample_dns)" by (simp add: sample_dns_def)
  from dnsmasq_conf_reads_back [OF t this] show ?thesis by (intro exI [of _ t] conjI t) (auto simp: sample_dns_def)
qed

theorem planned_hotspot_is_valid_witness:
  "\<exists>p. NewPlan (Some (replicate 20 7)) sample_ap sample_dns sample_radio = Inr p \<and> ValidatePassphrase (apPassphrase (hpAP p)) = None \<and> hpPassphraseGenerated p"
proof -
  have pw: "EnsurePassphrase (Some (replicate 20 7)) sample_ap = Inr (sample_ap\<lparr>apPassphrase := replicate 20 CHR ''h''\<rparr>, True)"
    by (simp add: EnsurePassphrase_def GeneratePassphrase_def sample_ap_def GeneratedPassphraseLen_def passphraseAlphabet_def)
  have "APConfig_validate False (sample_ap\<lparr>apPassphrase := replicate 20 CHR ''h''\<rparr>) = None" by code_simp
  moreover have "hwMode (sample_ap\<lparr>apPassphrase := replicate 20 CHR ''h''\<rparr>) = Inr ''g''" by (simp add: hwMode_def sample_ap_def Band2GHz_def)
  moreover have "radio_Check sample_radio (sample_ap\<lparr>apPassphrase := replicate 20 CHR ''h''\<rparr>) = None"
    by (simp add: radio_Check_def sample_radio_def sample_ap_def PinnedChannel_def)
  moreover have "dns_defaults ap sample_dns = sample_dns" for ap by (simp add: dns_defaults_def sample_dns_def)
  ultimately obtain p where p: "NewPlan (Some (replicate 20 7)) sample_ap sample_dns sample_radio = Inr p"
    using sample_dns_valid by (simp add: NewPlan_def pw RenderHostapd_def RenderDnsmasq_def)
  from planned_hotspot_is_valid [OF p] show ?thesis by (intro exI [of _ p] conjI p) (auto simp: GeneratedPassphraseLen_def sample_ap_def)
qed

end
