(* ===== verification/Spec2Isabelle.thy ===== *)
theory Spec2Isabelle
  imports RateLimit Session RoundTrip SystemSocks PacketProps HelloProps EngineProps ForwarderProps HotspotProps
begin

text \<open>
  A verification development of Caspian, an appliance that shares a censorship-circumventing tunnel over a Wi-Fi
  hotspot.

  \<^bold>\<open>The program.\<close> A root process (\<open>privsvc\<close>) and an unprivileged web panel (\<open>panel\<close>) talk over a local socket. On a
  start the root process detects the machine (\<open>netcfg\<close> facts), plans which interface carries what (\<open>netcfg\<close> plan,
  subnets), turns the plan into commands with inverses (\<open>netcfg\<close> routes and nftables), applies them behind a journal
  so that every change can be undone (\<open>netcfg\<close> journal and applier), starts the embedded proxy core (\<open>engine\<close>), and
  brings up the access point (\<open>hotspot\<close>). Connections to a server behind an SNI filter go through a loopback
  forwarder that forges a TLS hello (\<open>snispoof\<close>). Stopping, a failed start and recovery after a crash replay the
  inverses. All paths below are under \<open>src/internal\<close>.

  \<^bold>\<open>Shared theories.\<close> \<open>Prelude\<close>: Go maps as association lists, times, list lemmas. \<open>Gostr\<close>, \<open>Bytes\<close>, \<open>Netip\<close>,
  \<open>Sha256\<close>: what the sources use of \<open>strings\<close>, \<open>strconv\<close>, \<open>encoding/binary\<close>, \<open>net/netip\<close> and \<open>crypto/sha256\<close>. A Go
  error is \<open>Inl\<close>, a run-time panic is \<open>None\<close> of the type \<open>go\<close>, the order of a map range is an argument.

  \<^bold>\<open>Theories and sources.\<close>
  \<^item> \<open>Bounded_Store\<close> is the contract of a map bounded by eviction (locale \<open>evicting_store\<close>); \<open>RateLimit\<close>
    (\<open>panel/ratelimit.go\<close>) and \<open>Session\<close> (\<open>panel/session.go\<close>) interpret it. Shown: a bound on the password attempts
    let through, and that a request finds a session only within the lifetime of a sign-in.
  \<^item> \<open>Command\<close> (\<open>netcfg/command.go\<close>, \<open>idempotence.go\<close>, \<open>platform.go\<close>, \<open>recorder.go\<close>), \<open>Journal\<close>
    (\<open>netcfg/journal.go\<close>; a file is its lines and a torn tail, each disk operation may fail having written anything
    up to its whole) and \<open>Applier\<close> (\<open>netcfg/apply.go\<close>) over an arbitrary runner. \<open>ApplierProps\<close> (locale
    \<open>journal_laws\<close>): at every crash point the inverse of a started command is on disk, the firewall is undone last and
    only on a clean sweep, nothing is forgotten, applying again converges; and two defects.
  \<^item> \<open>Subnet\<close>, \<open>Facts\<close>, \<open>Plan\<close> (\<open>netcfg/subnet.go\<close>, \<open>facts.go\<close>, \<open>plan.go\<close>, \<open>uplink.go\<close>) with \<open>PlanProps\<close>: the
    access point stays off the uplink, an asked band is honoured, subnets are disjoint, and where a takeover forgets
    the band. The search over interface combinations is equivalent to the existence of a placement.
  \<^item> \<open>Nft\<close> (\<open>netcfg/nftables.go\<close>) with \<open>NftProps\<close>: what each chain accepts, under a meaning of the matches that
    satisfies the locale \<open>nft_matching\<close>; without a tunnel nothing is forwarded.
  \<^item> \<open>Route\<close> (\<open>netcfg/route.go\<close>, the cut step of \<open>nftables.go\<close>) with \<open>RouteProps\<close>: nothing runs before the firewall,
    the knobs return to what was measured. \<open>SimKernel\<close> (\<open>netcfg/simulated_kernel.go\<close>) is the machine the commands
    run on; \<open>Reversal\<close> (locales \<open>reversible_machine\<close> and \<open>reversible_steps\<close>), \<open>SimProps\<close>, \<open>KernelSteps\<close> and
    \<open>RoundTrip\<close> show that a teardown gives back the machine's snapshot, whatever was refused on the way.
  \<^item> \<open>SystemSocks\<close> (\<open>netcfg/system_socks.go\<close>, \<open>darwinnet_proxy_detect.go\<close>): the macOS proxy settings are put back,
    over any \<open>networksetup\<close> that satisfies the locale \<open>networksetup_laws\<close>.
  \<^item> \<open>Redact\<close>, \<open>LogRing\<close>, \<open>Engine\<close>, \<open>EngineProps\<close> (\<open>engine/redact.go\<close>, \<open>reason.go\<close>, \<open>logring.go\<close>, \<open>engine.go\<close>,
    \<open>tundevice.go\<close>): the ring refines a bounded log and holds no credential, the access log is off, the devices and
    descriptors a start takes are given back, the reported state agrees with the instance. xray-core and the kernel
    are parameters (locales \<open>core_laws\<close> and \<open>willing_kernel\<close>).
  \<^item> \<open>Packet\<close>, \<open>Flow\<close>, \<open>Split\<close>, \<open>Hello\<close> and their properties (\<open>snispoof/packet.go\<close>, \<open>ethernet.go\<close>, \<open>split.go\<close>,
    \<open>hello.go\<close>): no captured bytes cause a panic, the forged segment and hello are well formed, splitting returns
    and keeps the client's bytes (locale \<open>writer_laws\<close> for the connection). \<open>Forwarder\<close> and \<open>ForwarderProps\<close>
    (\<open>snispoof/forwarder.go\<close>) are a transition system over every interleaving of the goroutines: relaying only
    after the exchange, the accounts agree, and a shutdown returns.
  \<^item> \<open>HotspotConf\<close> and \<open>HotspotProps\<close> (\<open>hotspot/apconfig.go\<close>, \<open>hostapd.go\<close>, \<open>dnsmasq.go\<close>, \<open>plan.go\<close>, the constraint
    of \<open>radio.go\<close>): both generated files read back as exactly the intended settings, and what a plan guarantees.

  \<^bold>\<open>Bounds and fuel.\<close> Machine integers are words where they wrap (checksums, sequence numbers, SHA-256); durations
  and counters that stay far from their limits are integers. No definition takes fuel: every loop is structural or has
  a termination proof. The splitter's measure is the source's own limit of 64 records, and its theorem states that
  it returns. Liveness of the shutdown is by a measure on states that every step of the program lowers.

  \<^bold>\<open>Not modelled.\<close>
  \<^item> \<open>privsvc\<close>: the service that calls the components in order, its socket protocol and peer check. No theorem here
    covers the order of its calls across components; each component is proved about for every caller.
  \<^item> The running of \<open>hotspot\<close> (supervisor, leases, status, the macOS and Windows drivers): starting and watching
    processes and reading their output.
  \<^item> Detection and reading back (\<open>netcfg/detect.go\<close> beyond its list of knobs, \<open>parse.go\<close>, \<open>verify.go\<close>, the macOS and
    Windows backends): text of external commands and system calls. A plan is proved about for any facts, whoever
    read them.
  \<^item> \<open>panel\<close> beyond its limiter and sessions: handlers, pages and translations, which render text, and the QR encoder.
  \<^item> \<open>state\<close>, \<open>link\<close> and \<open>xcfg\<close>: JSON documents on disk, share links and the configuration given to xray-core. The
    engine is proved about for any configuration.
  \<^item> Packet capture backends, the command line, \<open>third_party\<close> and the test harnesses: system calls, process
    entry points, vendored code and tools that do not run on the appliance.
  \<^item> Within modelled parts: mutexes whose critical sections are the modelled operations, the text of error messages
    (constructors carry its data), JSON encodings, and the pause between two writes of a split hello.
\<close>

end
